(* ===== verification/Fuurin_Prelude.thy ===== *)
theory Fuurin_Prelude
  imports Main "HOL-Library.Word" "HOL-Library.AList"
begin

unbundle bit_operations_syntax

text \<open>
  Shared vocabulary of the development: machine integers and byte strings, the errors of
  \<^verbatim>\<open>include/fuurin/errors.h\<close> and the assertion of \<^verbatim>\<open>src/failure.h\<close>, results that may carry
  an error, actions that thread a state and may stop with an error, and the generic lemmas on
  lists and association lists that the components share.
\<close>

section \<open>Machine types\<close>

type_synonym byte = "8 word"
type_synonym u8 = "8 word"
type_synonym u16 = "16 word"
type_synonym u32 = "32 word"
type_synonym u64 = "64 word"
type_synonym bytes = "byte list"

text \<open>A C++ string literal as the bytes it denotes.\<close>

definition str :: "string \<Rightarrow> bytes" where
  "str s = map of_char s"

text \<open>Values of \<^verbatim>\<open>errno\<close> the sources compare with (Linux).\<close>

definition EAGAIN :: int where "EAGAIN = 11"
definition ENOMEM :: int where "ENOMEM = 12"
definition EINVAL :: int where "EINVAL = 22"
definition EHOSTUNREACH :: int where "EHOSTUNREACH = 113"

section \<open>Errors and results\<close>

text \<open>
  The exception classes of \<^verbatim>\<open>errors.h\<close>, by name. A thrown error carries its description and
  the integer that \<^verbatim>\<open>Error::arg().toInt()\<close> reads (an errno, or 0 when the argument is not an
  integer). A failed \<^verbatim>\<open>ASSERT\<close> is not an exception: \<^verbatim>\<open>failure()\<close> logs and aborts the process.
\<close>

datatype err_name =
    Error
  | ZMQContextCreateFailed
  | ZMQSocketCreateFailed
  | ZMQSocketOptionSetFailed
  | ZMQSocketOptionGetFailed
  | ZMQSocketConnectFailed
  | ZMQSocketBindFailed
  | ZMQSocketSendFailed
  | ZMQSocketRecvFailed
  | ZMQSocketGroupFailed
  | ZMQPartCreateFailed
  | ZMQPartMoveFailed
  | ZMQPartCopyFailed
  | ZMQPartAccessFailed
  | ZMQPartRoutingIDFailed
  | ZMQPartGroupFailed
  | ZMQPollerCreateFailed
  | ZMQPollerAddSocketFailed
  | ZMQPollerWaitFailed

datatype fault = Throw err_name string int | Abort string

type_synonym 'a result = "fault + 'a"

definition ASSERT :: "bool \<Rightarrow> string \<Rightarrow> unit result" where
  "ASSERT c msg = (if c then Inr () else Inl (Abort msg))"

text \<open>
  A fatal log: \<^verbatim>\<open>Logger::fatal\<close> hands over to the installed handler, and the default handler, like the
  silent one, prints the arguments and aborts.
\<close>

definition LOG_FATAL :: "string \<Rightarrow> 'a result" where
  "LOG_FATAL msg = Inl (Abort msg)"

text \<open>Reading memory that is freed already has no defined behaviour: a fault of its own.\<close>

definition free_fault :: "'a result" where
  "free_fault = Inl (Abort ''use after free'')"

definition bindR :: "'a result \<Rightarrow> ('a \<Rightarrow> 'b result) \<Rightarrow> 'b result" where
  "bindR r f = (case r of Inl e \<Rightarrow> Inl e | Inr x \<Rightarrow> f x)"

definition is_abort :: "'a result \<Rightarrow> bool" where
  "is_abort r = (case r of Inl (Abort _) \<Rightarrow> True | _ \<Rightarrow> False)"

named_theorems result_simps \<open>unfolding of results and of actions\<close>

lemma bindR_simps [simp]:
  "bindR (Inl e) f = Inl e"
  "bindR (Inr x) f = f x"
  by (simp_all add: bindR_def)

lemma bindR_eq_Inr [simp]:
  "bindR r f = Inr y \<longleftrightarrow> (\<exists>x. r = Inr x \<and> f x = Inr y)"
  by (cases r) simp_all

lemma bindR_assoc: "bindR (bindR r f) g = bindR r (\<lambda>x. bindR (f x) g)"
  by (cases r) simp_all

lemma ASSERT_eq_Inr [simp]: "ASSERT c msg = Inr u \<longleftrightarrow> c"
  by (simp add: ASSERT_def)

lemma ASSERT_True [simp]: "ASSERT True msg = Inr ()"
  by (simp add: ASSERT_def)

lemma ASSERT_False [simp]: "ASSERT False msg = Inl (Abort msg)"
  by (simp add: ASSERT_def)

section \<open>Actions\<close>

text \<open>
  A handler of the program reads and writes its object and may throw: it is a function from the
  state to a result and the state reached, which after an exception is the state at the throw.
\<close>

type_synonym ('s, 'a) action = "'s \<Rightarrow> 'a result \<times> 's"

definition retA :: "'a \<Rightarrow> ('s, 'a) action" where
  "retA x s = (Inr x, s)"

definition liftA :: "'a result \<Rightarrow> ('s, 'a) action" where
  "liftA r s = (r, s)"

definition updA :: "('s \<Rightarrow> 's) \<Rightarrow> ('s, unit) action" where
  "updA f s = (Inr (), f s)"

definition bindA :: "('s, 'a) action \<Rightarrow> ('a \<Rightarrow> ('s, 'b) action) \<Rightarrow> ('s, 'b) action" where
  "bindA m f s = (case m s of (Inl e, s') \<Rightarrow> (Inl e, s') | (Inr x, s') \<Rightarrow> f x s')"

definition thenA :: "('s, 'a) action \<Rightarrow> ('s, 'b) action \<Rightarrow> ('s, 'b) action" where
  "thenA m n = bindA m (\<lambda>_. n)"

text \<open>A loop that runs an action on each element and stops at the first error.\<close>

fun forA :: "'e list \<Rightarrow> ('e \<Rightarrow> ('s, unit) action) \<Rightarrow> ('s, unit) action" where
  "forA [] f = retA ()"
| "forA (x # xs) f = thenA (f x) (forA xs f)"

text \<open>
  An object that calls functions of its owner: an action on the pair of its own state and of the
  owner's. The owner's functions do not touch the object.
\<close>

definition ownA :: "('m \<Rightarrow> 'm) \<Rightarrow> ('m \<times> 'e, unit) action" where
  "ownA f = updA (\<lambda>(m, e). (f m, e))"

definition callA :: "('e, 'a) action \<Rightarrow> ('m \<times> 'e, 'a) action" where
  "callA f = (\<lambda>(m, e). case f e of (r, e') \<Rightarrow> (r, (m, e')))"

definition whenA :: "('s \<Rightarrow> bool) \<Rightarrow> ('s, unit) action \<Rightarrow> ('s, unit) action" where
  "whenA c m s = (if c s then m s else (Inr (), s))"

definition readA :: "('s \<Rightarrow> 'a) \<Rightarrow> ('s, 'a) action" where
  "readA f s = (Inr (f s), s)"

lemmas action_defs [result_simps] = retA_def liftA_def updA_def bindA_def thenA_def
  ownA_def callA_def whenA_def readA_def

text \<open>A call of the owner keeps the machine.\<close>

lemma callA_machine: "callA f (m, e) = (r, m', e') \<Longrightarrow> m' = m"
  by (auto simp: callA_def split: prod.splits)

lemma callA_pair: "callA f (m, e) = (r, s) \<longleftrightarrow> (\<exists>e'. f e = (r, e') \<and> s = (m, e'))"
  by (auto simp: callA_def split: prod.splits)

text \<open>An action of several steps succeeds when each of them does.\<close>

lemma thenA_Inr:
  "thenA f g s = (Inr x, s') \<longleftrightarrow> (\<exists>y s1. f s = (Inr y, s1) \<and> g s1 = (Inr x, s'))"
  by (auto simp: thenA_def bindA_def split: prod.splits sum.splits)

lemma whenA_Inr:
  "whenA c f s = (Inr x, s') \<longleftrightarrow> (if c s then f s = (Inr x, s') else s' = s)"
  by (auto simp: whenA_def)

lemma ownA_eq [simp]: "ownA f (m, e) = (Inr (), (f m, e))"
  by (simp add: ownA_def updA_def)

lemmas action_Inr = thenA_Inr whenA_Inr callA_pair

lemma forA_append: "forA (xs @ ys) f s = thenA (forA xs f) (forA ys f) s"
  by (induction xs arbitrary: s) (auto simp: action_defs split: prod.splits sum.splits)

section \<open>Strings\<close>

lemma of_char_byte_eq_iff [simp]: "(of_char c :: byte) = of_char d \<longleftrightarrow> c = d"
proof
  assume "(of_char c :: byte) = of_char d"
  then have "unat (of_char c :: byte) = unat (of_char d :: byte)" by simp
  moreover have "unat (of_char x :: byte) = of_char x" for x :: char
  proof -
    have "(of_char x :: byte) = of_nat (of_char x)" by (simp only: of_nat_of_char)
    moreover have "(of_char x :: nat) < 2 ^ LENGTH(8)"
      by simp
    ultimately show ?thesis by (simp add: unat_of_nat)
  qed
  ultimately have "(of_char c :: nat) = of_char d" by simp
  then show "c = d" by simp
qed simp

lemma str_eq_iff [simp]: "str s = str t \<longleftrightarrow> s = t"
  unfolding str_def
  by (metis inj_map_eq_map injI of_char_byte_eq_iff)

lemma length_str [simp]: "length (str s) = length s"
  by (simp add: str_def)

section \<open>Lists and association lists\<close>

lemma filter_fst_distinct:
  assumes "distinct (map fst xs)" and "(a, b) \<in> set xs"
  shows "filter (\<lambda>n. fst n = a) xs = [(a, b)]"
  using assms by (induction xs) (auto simp: filter_empty_conv image_iff)

lemma distinct_map_filter_keep [intro]: "distinct (map f xs) \<Longrightarrow> distinct (map f (filter P xs))"
  by (rule distinct_map_filter)

lemma length_filter_remove1_key:
  assumes "distinct (map fst xs)" and "a \<in> fst ` set xs"
  shows "length (filter (\<lambda>n. fst n \<noteq> a) xs) = length xs - 1"
  using assms
proof (induction xs)
  case Nil
  then show ?case by simp
next
  case (Cons x xs)
  show ?case
  proof (cases "fst x = a")
    case True
    with Cons.prems(1) have "\<forall>n\<in>set xs. fst n \<noteq> a"
      by (auto simp: image_iff)
    then have "filter (\<lambda>n. fst n \<noteq> a) xs = xs" by simp
    with True show ?thesis by simp
  next
    case False
    with Cons have "length (filter (\<lambda>n. fst n \<noteq> a) xs) = length xs - 1"
      and "xs \<noteq> []" by auto
    with False show ?thesis by simp
  qed
qed

lemma set_tl_subset: "set (tl xs) \<subseteq> set xs"
  by (cases xs) auto

section \<open>Filters with a state\<close>

text \<open>
  A filter is asked for each element in turn and may change its state; the elements it lets
  through, and the state at the end. \<open>run_all\<close> is a condition on every question asked.
\<close>

fun filter_run :: "('a \<Rightarrow> 's \<Rightarrow> bool \<times> 's) \<Rightarrow> 'a list \<Rightarrow> 's \<Rightarrow> 'a list \<times> 's" where
  "filter_run f [] s = ([], s)"
| "filter_run f (x # xs) s =
     (let (b, s1) = f x s; (ys, s2) = filter_run f xs s1 in (if b then x # ys else ys, s2))"

fun run_all :: "('a \<Rightarrow> 's \<Rightarrow> bool) \<Rightarrow> ('a \<Rightarrow> 's \<Rightarrow> bool \<times> 's) \<Rightarrow> 'a list \<Rightarrow> 's \<Rightarrow> bool" where
  "run_all P f [] s = True"
| "run_all P f (x # xs) s = (P x s \<and> run_all P f xs (snd (f x s)))"

text \<open>
  The contract of a filter by sequence number: an element passes when its number is above the last
  one of its key, which it then becomes; it leaves the other keys alone as long as there is room.
\<close>

locale seq_filter =
  fixes inv :: "'s \<Rightarrow> bool" and accept :: "'a \<Rightarrow> 's \<Rightarrow> bool \<times> 's" and last_num :: "'s \<Rightarrow> 'k \<Rightarrow> 'n::linorder"
    and key :: "'a \<Rightarrow> 'k" and num :: "'a \<Rightarrow> 'n" and room :: "'a \<Rightarrow> 's \<Rightarrow> bool"
  assumes accept_inv: "inv s \<Longrightarrow> inv (snd (accept x s))"
    and accept_iff: "inv s \<Longrightarrow> fst (accept x s) \<longleftrightarrow> last_num s (key x) < num x"
    and accept_key: "inv s \<Longrightarrow> fst (accept x s) \<Longrightarrow> last_num (snd (accept x s)) (key x) = num x"
    and accept_other: "inv s \<Longrightarrow> fst (accept x s) \<Longrightarrow> room x s \<Longrightarrow> k \<noteq> key x \<Longrightarrow>
      last_num (snd (accept x s)) k = last_num s k"
    and reject_same: "inv s \<Longrightarrow> \<not> fst (accept x s) \<Longrightarrow> last_num (snd (accept x s)) k = last_num s k"
begin

lemma accept_last:
  "inv s \<Longrightarrow> room x s \<Longrightarrow> last_num (snd (accept x s)) k =
     (if k = key x then max (last_num s k) (num x) else last_num s k)"
  using accept_iff [of s x] accept_key [of s x] accept_other [of s x k] reject_same [of s x k]
  by (cases "fst (accept x s)") auto

text \<open>The numbers let through for a key increase strictly, from above its last number.\<close>

lemma run_increasing:
  assumes "inv s" and "run_all room accept xs s"
  shows "sorted_wrt (<) (last_num s k # map num (filter (\<lambda>x. key x = k) (fst (filter_run accept xs s))))"
  using assms
proof (induction xs arbitrary: s)
  case Nil
  then show ?case by simp
next
  case (Cons x xs)
  obtain b s1 where a: "accept x s = (b, s1)" by (cases "accept x s")
  have s1: "inv s1" and rs: "run_all room accept xs s1" and r: "room x s"
    using Cons.prems accept_inv [of s x] a by auto
  note IH = Cons.IH [OF s1 rs]
  have last: "last_num s1 k = (if k = key x then max (last_num s k) (num x) else last_num s k)"
    using accept_last [OF Cons.prems(1) r, of k] a by simp
  have b: "b \<longleftrightarrow> last_num s (key x) < num x" using accept_iff [OF Cons.prems(1), of x] a by simp
  show ?case
    using IH last b by (auto simp: a split: prod.splits if_splits)
qed

text \<open>What is refused was not above the last number of its key.\<close>

lemma run_last_mono:
  assumes "inv s" and "run_all room accept xs s"
  shows "last_num s k \<le> last_num (snd (filter_run accept xs s)) k"
  using assms
proof (induction xs arbitrary: s)
  case Nil
  then show ?case by simp
next
  case (Cons x xs)
  obtain b s1 where a: "accept x s = (b, s1)" by (cases "accept x s")
  have s1: "inv s1" and rs: "run_all room accept xs s1" and r: "room x s"
    using Cons.prems accept_inv [of s x] a by auto
  have "last_num s k \<le> last_num s1 k"
    using accept_last [OF Cons.prems(1) r, of k] a by simp
  then show ?case using Cons.IH [OF s1 rs] a by (auto split: prod.splits)
qed

end

section \<open>Actions within a frame\<close>

text \<open>
  The contract of what an action may change: a relation between the states before and after it,
  whether it returns or throws. Actions composed of actions within the frame are within it.
\<close>

definition frameA :: "('s \<Rightarrow> 's \<Rightarrow> bool) \<Rightarrow> ('s, 'a) action \<Rightarrow> bool" where
  "frameA R f \<longleftrightarrow> (\<forall>s. R s (snd (f s)))"

locale action_frame =
  fixes R :: "'s \<Rightarrow> 's \<Rightarrow> bool"
  assumes frame_refl: "R s s" and frame_trans: "R s s' \<Longrightarrow> R s' s'' \<Longrightarrow> R s s''"
begin

lemma frame_bind:
  assumes "frameA R f" and "\<And>x. frameA R (g x)"
  shows "frameA R (bindA f g)"
  unfolding frameA_def
proof
  fix s
  obtain r s1 where f: "f s = (r, s1)" by (cases "f s")
  then have 1: "R s s1" using assms(1) by (metis frameA_def snd_conv)
  show "R s (snd (bindA f g s))"
  proof (cases r)
    case (Inl e)
    then show ?thesis using f 1 by (simp add: bindA_def)
  next
    case (Inr x)
    have "R s1 (snd (g x s1))" using assms(2) by (simp add: frameA_def)
    then show ?thesis using f 1 Inr frame_trans by (simp add: bindA_def)
  qed
qed

lemma frame_then: "frameA R f \<Longrightarrow> frameA R g \<Longrightarrow> frameA R (thenA f g)"
  unfolding thenA_def by (rule frame_bind)

lemma frame_simple: "frameA R (retA x)" "frameA R (liftA r)" "frameA R (readA f)" "frameA R (\<lambda>s. (h s, s))"
  by (simp_all add: frameA_def action_defs frame_refl)

lemma frame_upd: "(\<And>s. R s (f s)) \<Longrightarrow> frameA R (updA f)"
  by (simp add: frameA_def updA_def)

lemma frame_when: "frameA R f \<Longrightarrow> frameA R (whenA c f)"
  by (simp add: frameA_def whenA_def frame_refl)

lemma frame_for: "(\<And>x. frameA R (f x)) \<Longrightarrow> frameA R (forA xs f)"
  by (induction xs) (auto intro: frame_then frame_simple)

end

lemma frameA_D: "frameA R f \<Longrightarrow> f s = (r, s') \<Longrightarrow> R s s'"
  by (metis frameA_def snd_conv)

end
