(* ===== verification/Fuurin_Part.thy ===== *)
theory Fuurin_Part
  imports Fuurin_Prelude
begin

text \<open>
  Message parts: \<^verbatim>\<open>src/zmqpart.cpp\<close> with the \<^verbatim>\<open>memcpyWithEndian\<close> templates of
  \<^verbatim>\<open>include/fuurin/zmqpart.h\<close>, and of \<^verbatim>\<open>vendor/zeromq/src/msg.cpp\<close> what a part uses: its
  bytes, its routing id and its group. The platform is a parameter: the byte order of the host, the
  byte order chosen for the wire by \<^verbatim>\<open>FUURIN_ENDIANESS_*\<close>, and whether \<^verbatim>\<open>char\<close> is
  signed. The allocator is a parameter too: it yields the (unspecified) contents of a fresh buffer,
  or nothing when there is no memory.
\<close>

section \<open>Platform\<close>

datatype endian = LittleEndian | BigEndian

record arch =
  byte_order :: endian
  wire_order :: endian
  char_signed :: bool

text \<open>Bytes of an integer, the least significant first, and back.\<close>

primrec le_bytes :: "nat \<Rightarrow> 'a::len word \<Rightarrow> bytes" where
  "le_bytes 0 w = []"
| "le_bytes (Suc n) w = ucast w # le_bytes n (drop_bit 8 w)"

primrec le_value :: "bytes \<Rightarrow> 'a::len word" where
  "le_value [] = 0"
| "le_value (b # bs) = ucast b OR push_bit 8 (le_value bs)"

text \<open>The object representation of an unsigned integer in the memory of the host.\<close>

definition in_order :: "endian \<Rightarrow> bytes \<Rightarrow> bytes" where
  "in_order e bs = (case e of LittleEndian \<Rightarrow> bs | BigEndian \<Rightarrow> rev bs)"

definition sizeof :: "'a::len word itself \<Rightarrow> nat" where
  "sizeof _ = LENGTH('a) div 8"

definition object_repr :: "arch \<Rightarrow> 'a::len word \<Rightarrow> bytes" where
  "object_repr a w = in_order (byte_order a) (le_bytes (sizeof TYPE('a word)) w)"

definition object_value :: "arch \<Rightarrow> bytes \<Rightarrow> 'a::len word" where
  "object_value a bs = le_value (in_order (byte_order a) bs)"

text \<open>\<^verbatim>\<open>Part::memcpyWithEndian(dest, source, size)\<close>: a plain or a reversed copy.\<close>

definition memcpyWithEndian :: "arch \<Rightarrow> bytes \<Rightarrow> bytes" where
  "memcpyWithEndian a src = (if byte_order a = wire_order a then src else rev src)"

text \<open>The two templates over it: write a value, read a value.\<close>

definition memcpyWithEndian_put :: "arch \<Rightarrow> 'a::len word \<Rightarrow> bytes" where
  "memcpyWithEndian_put a v = memcpyWithEndian a (object_repr a v)"

definition memcpyWithEndian_get :: "arch \<Rightarrow> bytes \<Rightarrow> 'a::len word" where
  "memcpyWithEndian_get a src = object_value a (memcpyWithEndian a src)"

section \<open>Messages of the ZeroMQ library\<close>

text \<open>
  A group of up to 14 characters is kept inside the message, a longer one in a block of its own.
\<close>

datatype group = SGroup bytes | LGroup bytes

record Part =
  pt_data :: bytes
  pt_routing :: u32
  pt_group :: group
  pt_more :: bool

text \<open>Contents of a fresh buffer of a given size, \<^verbatim>\<open>None\<close> when the allocation fails.\<close>

type_synonym allocator = "nat \<Rightarrow> bytes option"

text \<open>
  Buffers of up to 33 bytes (\<^verbatim>\<open>max_vsm_size\<close>) live inside the message and cannot fail.
\<close>

definition max_vsm_size :: nat where
  "max_vsm_size = 64 - (8 + 3 + 16 + 4)"

definition allocator_ok :: "allocator \<Rightarrow> bool" where
  "allocator_ok mem \<longleftrightarrow>
     (\<forall>n. case mem n of None \<Rightarrow> max_vsm_size < n | Some bs \<Rightarrow> length bs = n)"

definition zmq_msg_init :: Part where
  "zmq_msg_init = \<lparr>pt_data = [], pt_routing = 0, pt_group = SGroup [], pt_more = False\<rparr>"

definition zmq_msg_init_size :: "allocator \<Rightarrow> nat \<Rightarrow> Part option" where
  "zmq_msg_init_size mem n = map_option (\<lambda>bs. zmq_msg_init\<lparr>pt_data := bs\<rparr>) (mem n)"

text \<open>The result is the moved message and what is left of the source.\<close>

definition zmq_msg_move :: "Part \<Rightarrow> Part \<times> Part" where
  "zmq_msg_move src = (src, zmq_msg_init)"

definition zmq_msg_set_routing_id :: "u32 \<Rightarrow> Part \<Rightarrow> Part option" where
  "zmq_msg_set_routing_id i p = (if i \<noteq> 0 then Some (p\<lparr>pt_routing := i\<rparr>) else None)"

definition zmq_msg_group :: "Part \<Rightarrow> bytes" where
  "zmq_msg_group p = (case pt_group p of SGroup g \<Rightarrow> g | LGroup g \<Rightarrow> g)"

definition ZMQ_GROUP_MAX_LENGTH :: nat where
  "ZMQ_GROUP_MAX_LENGTH = 255"

text \<open>The characters of a C string, up to its terminator.\<close>

definition c_str :: "bytes \<Rightarrow> bytes" where
  "c_str s = takeWhile (\<lambda>b. b \<noteq> 0) s"

definition strnlen :: "bytes \<Rightarrow> nat \<Rightarrow> nat" where
  "strnlen s n = min (length (c_str s)) n"

text \<open>
  Setting a short group does not change the kind of the group: after a long one the library would
  read the characters as a pointer. That case is an error of its own here.
\<close>

definition zmq_msg_set_group :: "bytes \<Rightarrow> Part \<Rightarrow> Part option result" where
  "zmq_msg_set_group g p =
     (let len = strnlen g ZMQ_GROUP_MAX_LENGTH; s = take len (c_str g)
      in if len > ZMQ_GROUP_MAX_LENGTH then Inr None
         else if len > 14 then Inr (Some (p\<lparr>pt_group := LGroup s\<rparr>))
         else (case pt_group p of
                 SGroup _ \<Rightarrow> Inr (Some (p\<lparr>pt_group := SGroup s\<rparr>))
               | LGroup _ \<Rightarrow> Inl (Abort ''short group over a long one'')))"

section \<open>Parts\<close>

definition initMessageSize :: "allocator \<Rightarrow> nat \<Rightarrow> Part result" where
  "initMessageSize mem sz =
     (case zmq_msg_init_size mem sz of
        None \<Rightarrow> Inl (Throw ZMQPartCreateFailed ''could not create message part'' 0)
      | Some p \<Rightarrow> Inr p)"

definition setRoutingID :: "u32 \<Rightarrow> Part \<Rightarrow> Part result" where
  "setRoutingID i p =
     (case zmq_msg_set_routing_id i p of
        None \<Rightarrow> Inl (Throw ZMQPartRoutingIDFailed ''could not set routing id'' EINVAL)
      | Some q \<Rightarrow> Inr q)"

text \<open>The argument is a pointer: \<^verbatim>\<open>None\<close> is the null one.\<close>

definition setGroup :: "bytes option \<Rightarrow> Part \<Rightarrow> Part result" where
  "setGroup grp p =
     (case grp of
        None \<Rightarrow> Inl (Throw ZMQPartGroupFailed ''could not set group'' 0)
      | Some g \<Rightarrow>
          if strnlen g (ZMQ_GROUP_MAX_LENGTH + 1) > ZMQ_GROUP_MAX_LENGTH
          then Inl (Throw ZMQPartGroupFailed ''could not set group'' 0)
          else bindR (zmq_msg_set_group g p) (\<lambda>r.
            case r of None \<Rightarrow> Inl (Throw ZMQPartGroupFailed ''could not set group'' EINVAL)
                    | Some q \<Rightarrow> Inr q))"

definition Part_uint :: "allocator \<Rightarrow> arch \<Rightarrow> 'a::len word \<Rightarrow> Part result" where
  "Part_uint mem a val =
     bindR (initMessageSize mem (sizeof TYPE('a word))) (\<lambda>p.
     Inr (p\<lparr>pt_data := memcpyWithEndian_put a val\<rparr>))"

definition Part_bytes :: "allocator \<Rightarrow> bytes \<Rightarrow> Part result" where
  "Part_bytes mem d =
     bindR (initMessageSize mem (length d)) (\<lambda>p. Inr (p\<lparr>pt_data := d\<rparr>))"

text \<open>The copy constructor.\<close>

definition Part_copy :: "allocator \<Rightarrow> Part \<Rightarrow> Part result" where
  "Part_copy mem other =
     bindR (initMessageSize mem (length (pt_data other))) (\<lambda>p0.
     let p1 = p0\<lparr>pt_data := pt_data other\<rparr> in
     bindR (if pt_routing other \<noteq> 0 then setRoutingID (pt_routing other) p1 else Inr p1) (\<lambda>p2.
     if zmq_msg_group other \<noteq> [] then setGroup (Some (zmq_msg_group other)) p2 else Inr p2))"

text \<open>
  The copy assignment builds the copy in a temporary and only then replaces its own message, so an
  error leaves the target as it was.
\<close>

definition Part_assign :: "allocator \<Rightarrow> Part \<Rightarrow> (Part, unit) action" where
  "Part_assign mem other =
     bindA (liftA (
       bindR (initMessageSize mem (length (pt_data other))) (\<lambda>t0.
       let t1 = t0\<lparr>pt_data := pt_data other\<rparr> in
       bindR (if pt_routing other \<noteq> 0 then setRoutingID (pt_routing other) t1 else Inr t1) (\<lambda>t2.
       if zmq_msg_group other \<noteq> [] then setGroup (Some (zmq_msg_group other)) t2 else Inr t2))))
     (\<lambda>tmp. updA (\<lambda>_. tmp))"

definition Part_move :: "Part \<Rightarrow> Part \<times> Part" where
  "Part_move other = zmq_msg_move other"

text \<open>A shared part refers to the same message: the content is the same in every respect.\<close>

definition Part_share :: "Part \<Rightarrow> Part" where
  "Part_share other = other"

definition Part_eq :: "Part \<Rightarrow> Part \<Rightarrow> bool" where
  "Part_eq p q = (pt_data p = pt_data q)"

definition Part_empty :: "Part \<Rightarrow> bool" where
  "Part_empty p = (length (pt_data p) = 0)"

definition withRoutingID :: "u32 \<Rightarrow> Part \<Rightarrow> Part result" where
  "withRoutingID i p = setRoutingID i p"

definition withGroup :: "bytes option \<Rightarrow> Part \<Rightarrow> Part result" where
  "withGroup g p = setGroup g p"

text \<open>\<^verbatim>\<open>static_cast<uintN_t>(d[i])\<close> of a \<^verbatim>\<open>char\<close>: it extends the sign when \<^verbatim>\<open>char\<close> is signed.\<close>

definition char_cast :: "arch \<Rightarrow> byte \<Rightarrow> 'a::len word" where
  "char_cast a c = (if char_signed a then scast c else ucast c)"

definition toUint8 :: "arch \<Rightarrow> Part \<Rightarrow> u8" where
  "toUint8 a p = (if length (pt_data p) \<noteq> 1 then 0 else char_cast a (pt_data p ! 0))"

text \<open>
  The shifts of 16-bit operands happen in \<^verbatim>\<open>int\<close>, the result is converted back.
\<close>

definition toUint16 :: "arch \<Rightarrow> Part \<Rightarrow> u16" where
  "toUint16 a p =
     (if length (pt_data p) \<noteq> 2 then 0 else
      let d = pt_data p; c = (\<lambda>i. ucast (char_cast a (d ! i) :: u16)) :: nat \<Rightarrow> 32 word
      in ucast (case wire_order a of
           LittleEndian \<Rightarrow> push_bit 8 (c 1) OR c 0
         | BigEndian \<Rightarrow> push_bit 8 (c 0) OR c 1))"

definition toUint32 :: "arch \<Rightarrow> Part \<Rightarrow> u32" where
  "toUint32 a p =
     (if length (pt_data p) \<noteq> 4 then 0 else
      let d = pt_data p; c = (\<lambda>i. char_cast a (d ! i))
      in case wire_order a of
           LittleEndian \<Rightarrow> push_bit 24 (c 3) OR push_bit 16 (c 2) OR push_bit 8 (c 1) OR c 0
         | BigEndian \<Rightarrow> push_bit 24 (c 0) OR push_bit 16 (c 1) OR push_bit 8 (c 2) OR c 3)"

definition toUint64 :: "arch \<Rightarrow> Part \<Rightarrow> u64" where
  "toUint64 a p =
     (if length (pt_data p) \<noteq> 8 then 0 else
      let d = pt_data p; c = (\<lambda>i. char_cast a (d ! i))
      in case wire_order a of
           LittleEndian \<Rightarrow>
             push_bit 56 (c 7) OR push_bit 48 (c 6) OR push_bit 40 (c 5) OR push_bit 32 (c 4) OR
             push_bit 24 (c 3) OR push_bit 16 (c 2) OR push_bit 8 (c 1) OR c 0
         | BigEndian \<Rightarrow>
             push_bit 56 (c 0) OR push_bit 48 (c 1) OR push_bit 40 (c 2) OR push_bit 32 (c 3) OR
             push_bit 24 (c 4) OR push_bit 16 (c 5) OR push_bit 8 (c 6) OR c 7)"

definition toString :: "Part \<Rightarrow> bytes" where
  "toString p = pt_data p"

section \<open>Integers on the wire\<close>

lemma length_le_bytes [simp]: "length (le_bytes n w) = n"
  by (induction n arbitrary: w) simp_all

lemma length_in_order [simp]: "length (in_order e bs) = length bs"
  by (simp add: in_order_def split: endian.split)

lemma in_order_in_order [simp]: "in_order e (in_order e bs) = bs"
  by (simp add: in_order_def split: endian.split)

lemma bit_le_value:
  "bit (le_value bs :: 'a::len word) j \<longleftrightarrow>
     j < LENGTH('a) \<and> j div 8 < length bs \<and> bit (bs ! (j div 8)) (j mod 8)"
proof (induction bs arbitrary: j)
  case Nil
  then show ?case by simp
next
  case (Cons b bs)
  show ?case
  proof (cases "j < 8")
    case True
    then show ?thesis by (auto simp: bit_simps)
  next
    case False
    then have "j div 8 = Suc ((j - 8) div 8)" and "j mod 8 = (j - 8) mod 8"
      by (simp_all add: le_div_geq le_mod_geq)
    with False show ?thesis
      by (auto simp: bit_simps Cons.IH dest: bit_imp_le_length)
  qed
qed

lemma bit_nth_le_bytes:
  "i < n \<Longrightarrow> bit (le_bytes n (w :: 'a::len word) ! i) k \<longleftrightarrow> k < 8 \<and> bit w (8 * i + k)"
proof (induction n arbitrary: i w)
  case 0
  then show ?case by simp
next
  case (Suc n)
  then show ?case
    by (cases i) (auto simp: bit_simps ac_simps dest: bit_imp_le_length)
qed

lemma le_value_le_bytes:
  assumes "LENGTH('a::len) \<le> 8 * n"
  shows "le_value (le_bytes n (w :: 'a word)) = w"
proof (rule bit_eqI)
  fix j
  show "bit (le_value (le_bytes n w) :: 'a word) j = bit w j"
  proof (cases "j < LENGTH('a)")
    case True
    then have "j div 8 < n" using assms by linarith
    with True show ?thesis by (simp add: bit_le_value bit_nth_le_bytes)
  next
    case False
    then show ?thesis by (auto simp: bit_le_value dest: bit_imp_le_length)
  qed
qed

lemma le_bytes_le_value:
  assumes "length bs = n" and "8 * n \<le> LENGTH('a::len)"
  shows "le_bytes n (le_value bs :: 'a word) = bs"
proof (rule nth_equalityI)
  show "length (le_bytes n (le_value bs :: 'a word)) = length bs" using assms by simp
next
  fix i assume "i < length (le_bytes n (le_value bs :: 'a word))"
  then have i: "i < n" by simp
  show "le_bytes n (le_value bs :: 'a word) ! i = bs ! i"
  proof (rule bit_eqI)
    fix k
    show "bit (le_bytes n (le_value bs :: 'a word) ! i) k = bit (bs ! i) k"
    proof (cases "k < 8")
      case True
      then have "8 * i + k < LENGTH('a)" and "(8 * i + k) div 8 = i" and "(8 * i + k) mod 8 = k"
        using i assms by auto
      with True i assms show ?thesis by (simp add: bit_nth_le_bytes bit_le_value)
    next
      case False
      then show ?thesis by (auto simp: bit_nth_le_bytes [OF i] dest: bit_imp_le_length)
    qed
  qed
qed

text \<open>The bytes on the wire depend on the wire order only, not on the host.\<close>

lemma memcpyWithEndian_put_wire:
  "memcpyWithEndian_put a (w :: 'a::len word) =
     in_order (wire_order a) (le_bytes (sizeof TYPE('a word)) w)"
  by (cases "byte_order a"; cases "wire_order a")
    (simp_all add: memcpyWithEndian_put_def memcpyWithEndian_def object_repr_def in_order_def)

lemma memcpyWithEndian_get_wire:
  "memcpyWithEndian_get a bs = le_value (in_order (wire_order a) bs)"
  by (cases "byte_order a"; cases "wire_order a")
    (simp_all add: memcpyWithEndian_get_def memcpyWithEndian_def object_value_def in_order_def)

lemma length_memcpyWithEndian_put [simp]:
  "length (memcpyWithEndian_put a (w :: 'a::len word)) = sizeof TYPE('a word)"
  by (simp add: memcpyWithEndian_put_wire)

lemma memcpyWithEndian_get_put:
  assumes "LENGTH('a::len) \<le> 8 * sizeof TYPE('a word)" and "wire_order a = wire_order b"
  shows "memcpyWithEndian_get a (memcpyWithEndian_put b (w :: 'a word)) = w"
  using assms by (simp add: memcpyWithEndian_put_wire memcpyWithEndian_get_wire le_value_le_bytes)

lemma sizeof_simps [simp]:
  "sizeof TYPE(u8) = 1" "sizeof TYPE(u16) = 2" "sizeof TYPE(u32) = 4" "sizeof TYPE(u64) = 8"
  by (simp_all add: sizeof_def)

section \<open>Reading integers back\<close>

text \<open>
  The readers \<^verbatim>\<open>toUintN\<close> join the characters of the part, each converted from
  \<^verbatim>\<open>char\<close>; \<open>or_chars\<close> is that join, the least significant character first.
\<close>

primrec or_chars :: "arch \<Rightarrow> bytes \<Rightarrow> 'a::len word" where
  "or_chars a [] = 0"
| "or_chars a (c # cs) = char_cast a c OR push_bit 8 (or_chars a cs)"

lemma length_4_cases:
  assumes "length xs = 4"
  obtains a b c d where "xs = [a, b, c, d]"
  using assms by (auto simp: numeral_eq_Suc length_Suc_conv)

lemma length_8_cases:
  assumes "length xs = 8"
  obtains a b c d e f g h where "xs = [a, b, c, d, e, f, g, h]"
  using assms by (auto simp: numeral_eq_Suc length_Suc_conv)

lemma toUint8_or_chars:
  "length (pt_data p) = 1 \<Longrightarrow> toUint8 a p = or_chars a (pt_data p)"
  by (auto simp: toUint8_def length_Suc_conv)

lemma toUint32_or_chars:
  assumes "length (pt_data p) = 4"
  shows "toUint32 a p = or_chars a (in_order (wire_order a) (pt_data p))"
  using assms
  by (rule length_4_cases)
    (cases "wire_order a"; simp add: toUint32_def in_order_def ac_simps)

lemma toUint64_or_chars:
  assumes "length (pt_data p) = 8"
  shows "toUint64 a p = or_chars a (in_order (wire_order a) (pt_data p))"
  using assms
  by (rule length_8_cases)
    (cases "wire_order a"; simp add: toUint64_def in_order_def ac_simps)

lemma toUint16_or_chars:
  assumes "length (pt_data p) = 2"
  shows "toUint16 a p = or_chars a (in_order (wire_order a) (pt_data p))"
proof -
  have cast: "ucast (push_bit 8 (ucast x :: 32 word) OR ucast y) = y OR push_bit 8 x" for x y :: u16
    by (rule bit_eqI) (auto simp: bit_simps)
  obtain c d where "pt_data p = [c, d]" using assms by (auto simp: numeral_eq_Suc length_Suc_conv)
  then show ?thesis
    by (cases "wire_order a") (simp_all add: toUint16_def in_order_def cast)
qed

lemma bit_char_cast:
  "bit (char_cast a c :: 'a::len word) j \<longleftrightarrow>
     j < LENGTH('a) \<and> (if j < 8 then bit c j else char_signed a \<and> bit c 7)"
  by (cases "j = 7") (auto simp: char_cast_def bit_simps min_def dest: bit_imp_le_length)

lemma bit_or_chars:
  "bit (or_chars a cs :: 'a::len word) j \<longleftrightarrow> j < LENGTH('a) \<and>
     (j div 8 < length cs \<and> bit (cs ! (j div 8)) (j mod 8) \<or>
      char_signed a \<and> (\<exists>i < length cs. 8 * i + 8 \<le> j \<and> bit (cs ! i) 7))"
proof (induction cs arbitrary: j)
  case Nil
  then show ?case by simp
next
  case (Cons c cs)
  show ?case
  proof (cases "j < 8")
    case True
    then show ?thesis by (auto simp: bit_simps bit_char_cast)
  next
    case False
    then have "j div 8 = Suc ((j - 8) div 8)" and "j mod 8 = (j - 8) mod 8"
      by (simp_all add: le_div_geq le_mod_geq)
    moreover have "(\<exists>i<length (c # cs). 8 * i + 8 \<le> j \<and> bit ((c # cs) ! i) 7) \<longleftrightarrow>
        bit c 7 \<or> (\<exists>i<length cs. 8 * i + 8 \<le> j - 8 \<and> bit (cs ! i) 7)"
      using False by (auto simp: Ex_less_Suc2)
    ultimately show ?thesis
      using False by (auto simp: bit_simps bit_char_cast Cons.IH)
  qed
qed

text \<open>
  Joining the bytes of \<open>w\<close> gives \<open>w\<close> back exactly when no byte below the top one has its sign bit
  set, unless all the bits above it are set anyway.
\<close>

definition sign_clear :: "'a::len word \<Rightarrow> bool" where
  "sign_clear w \<longleftrightarrow>
     (\<forall>i < LENGTH('a) div 8. bit w (8 * i + 7) \<longrightarrow> (\<forall>j < LENGTH('a). 8 * i + 8 \<le> j \<longrightarrow> bit w j))"

lemma or_chars_le_bytes:
  assumes "LENGTH('a::len) = 8 * n"
  shows "or_chars a (le_bytes n (w :: 'a word)) = w \<longleftrightarrow> (char_signed a \<longrightarrow> sign_clear w)"
proof -
  have byte: "j div 8 < n" if "j < LENGTH('a)" for j using that assms by auto
  have sign: "(\<exists>i<n. 8 * i + 8 \<le> j \<and> bit (le_bytes n w ! i) 7) \<longleftrightarrow>
      (\<exists>i<n. 8 * i + 8 \<le> j \<and> bit w (8 * i + 7))" for j
    by (auto simp: bit_nth_le_bytes)
  have "bit (or_chars a (le_bytes n w) :: 'a word) j \<longleftrightarrow>
      bit w j \<or> (char_signed a \<and> (\<exists>i<n. 8 * i + 8 \<le> j \<and> bit w (8 * i + 7)))"
    if "j < LENGTH('a)" for j
    using that byte [OF that] by (simp add: bit_or_chars bit_nth_le_bytes sign)
  then have "or_chars a (le_bytes n w) = w \<longleftrightarrow>
      (\<forall>j<LENGTH('a). char_signed a \<and> (\<exists>i<n. 8 * i + 8 \<le> j \<and> bit w (8 * i + 7)) \<longrightarrow> bit w j)"
    by (auto simp: bit_eq_iff)
  then show ?thesis using assms by (auto simp: sign_clear_def)
qed

section \<open>Groups\<close>

text \<open>The groups a message can have: no terminator inside, at most 255 characters.\<close>

definition group_ok :: "Part \<Rightarrow> bool" where
  "group_ok p \<longleftrightarrow> 0 \<notin> set (zmq_msg_group p) \<and> length (zmq_msg_group p) \<le> ZMQ_GROUP_MAX_LENGTH \<and>
     (case pt_group p of SGroup g \<Rightarrow> length g \<le> 14 | LGroup g \<Rightarrow> 14 < length g)"

lemma c_str_no_null: "0 \<notin> set (c_str s)"
  by (auto simp: c_str_def dest: set_takeWhileD)

lemma c_str_id: "0 \<notin> set s \<Longrightarrow> c_str s = s"
  by (auto simp: c_str_def)

lemma setGroup_spec:
  assumes "length (c_str g) \<le> 255" and "case pt_group p of SGroup _ \<Rightarrow> True | LGroup _ \<Rightarrow> False"
  shows "\<exists>q. setGroup (Some g) p = Inr q \<and> zmq_msg_group q = c_str g \<and> group_ok q \<and>
    pt_data q = pt_data p \<and> pt_routing q = pt_routing p \<and> pt_more q = pt_more p"
  using assms c_str_no_null [of g]
  by (auto simp: setGroup_def strnlen_def ZMQ_GROUP_MAX_LENGTH_def zmq_msg_set_group_def Let_def
      zmq_msg_group_def group_ok_def min_def split: group.splits)

lemma setGroup_too_long:
  "255 < length (c_str g) \<Longrightarrow>
     setGroup (Some g) p = Inl (Throw ZMQPartGroupFailed ''could not set group'' 0)"
  by (simp add: setGroup_def strnlen_def ZMQ_GROUP_MAX_LENGTH_def)

lemma Part_copy_spec:
  assumes "group_ok p" and "Part_copy mem p = Inr q"
  shows "pt_data q = pt_data p \<and> pt_routing q = pt_routing p \<and> zmq_msg_group q = zmq_msg_group p"
proof -
  let ?p1 = "zmq_msg_init\<lparr>pt_data := pt_data p\<rparr>"
  let ?p2 = "if pt_routing p \<noteq> 0 then ?p1\<lparr>pt_routing := pt_routing p\<rparr> else ?p1"
  have q: "(if zmq_msg_group p \<noteq> [] then setGroup (Some (zmq_msg_group p)) ?p2 else Inr ?p2) = Inr q"
    using assms(2)
    by (auto simp: Part_copy_def initMessageSize_def zmq_msg_init_size_def setRoutingID_def
        zmq_msg_set_routing_id_def Let_def split: option.splits if_splits)
  have sg: "case pt_group ?p2 of SGroup _ \<Rightarrow> True | LGroup _ \<Rightarrow> False" by (simp add: zmq_msg_init_def)
  have c: "c_str (zmq_msg_group p) = zmq_msg_group p" using assms(1) by (simp add: group_ok_def c_str_id)
  have rt: "pt_data ?p2 = pt_data p" "pt_routing ?p2 = pt_routing p" "zmq_msg_group ?p2 = []"
    by (simp_all add: zmq_msg_init_def zmq_msg_group_def)
  show ?thesis
  proof (cases "zmq_msg_group p = []")
    case True
    then show ?thesis using q rt by auto
  next
    case False
    obtain q' where "setGroup (Some (zmq_msg_group p)) ?p2 = Inr q'" "zmq_msg_group q' = zmq_msg_group p"
      "pt_data q' = pt_data p" "pt_routing q' = pt_routing p"
      using setGroup_spec [OF _ sg, of "zmq_msg_group p"] assms(1) rt
      unfolding c by (auto simp: group_ok_def ZMQ_GROUP_MAX_LENGTH_def)
    then show ?thesis using q False by simp
  qed
qed

lemma Part_copy_returns:
  assumes "group_ok p" and "mem (length (pt_data p)) \<noteq> None"
  shows "\<exists>q. Part_copy mem p = Inr q"
proof -
  let ?p1 = "zmq_msg_init\<lparr>pt_data := pt_data p\<rparr>"
  let ?p2 = "if pt_routing p \<noteq> 0 then ?p1\<lparr>pt_routing := pt_routing p\<rparr> else ?p1"
  have sg: "case pt_group ?p2 of SGroup _ \<Rightarrow> True | LGroup _ \<Rightarrow> False" by (simp add: zmq_msg_init_def)
  obtain q' where "setGroup (Some (zmq_msg_group p)) ?p2 = Inr q'"
    using setGroup_spec [OF _ sg, of "zmq_msg_group p"] assms(1) c_str_id [of "zmq_msg_group p"]
    by (auto simp: group_ok_def ZMQ_GROUP_MAX_LENGTH_def)
  then show ?thesis
    using assms(2)
    by (cases "zmq_msg_group p = []"; cases "pt_routing p = 0")
      (auto simp: Part_copy_def initMessageSize_def zmq_msg_init_size_def setRoutingID_def
        zmq_msg_set_routing_id_def Let_def simp del: bindR_eq_Inr)
qed

lemma Part_uint_eq:
  assumes "allocator_ok mem" and "sizeof TYPE('a::len word) \<le> max_vsm_size"
  shows "Part_uint mem a (v :: 'a word) = Inr (zmq_msg_init\<lparr>pt_data := memcpyWithEndian_put a v\<rparr>)"
proof -
  have "mem (sizeof TYPE('a word)) \<noteq> None"
    using assms by (auto simp: allocator_ok_def split: option.splits dest: spec [of _ "sizeof TYPE('a word)"])
  then show ?thesis by (auto simp: Part_uint_def initMessageSize_def zmq_msg_init_size_def)
qed

text \<open>Reading an integer part, on a platform \<open>b\<close> with the wire order of the writer.\<close>

lemma Part_uint8_read:
  assumes "allocator_ok mem" and "Part_uint mem a (x :: u8) = Inr r"
  shows "toUint8 b r = x"
proof -
  have "pt_data r = [x]"
    using assms by (cases "wire_order a") (auto simp: Part_uint_eq max_vsm_size_def memcpyWithEndian_put_wire in_order_def)
  moreover have "sign_clear x" by (auto simp: sign_clear_def)
  ultimately show ?thesis using or_chars_le_bytes [of 1 b x] by (simp add: toUint8_or_chars)
qed

lemma Part_uint64_read:
  assumes "allocator_ok mem" and "Part_uint mem a (v :: u64) = Inr p"
  shows "toUint64 a p = v \<longleftrightarrow> (char_signed a \<longrightarrow> sign_clear v)"
  using assms or_chars_le_bytes [of 8 a v]
  by (auto simp: Part_uint_eq max_vsm_size_def toUint64_or_chars memcpyWithEndian_put_wire)

lemma Part_uint32_read:
  assumes "allocator_ok mem" and "Part_uint mem a (v :: u32) = Inr p"
  shows "toUint32 a p = v \<longleftrightarrow> (char_signed a \<longrightarrow> sign_clear v)"
  using assms or_chars_le_bytes [of 4 a v]
  by (auto simp: Part_uint_eq max_vsm_size_def toUint32_or_chars memcpyWithEndian_put_wire)

lemma not_sign_clear:
  assumes "bit w 7" and "\<not> bit w 8" and "8 < LENGTH('a::len)"
  shows "\<not> sign_clear (w :: 'a word)"
proof
  assume "sign_clear w"
  then have "bit w (8 * 0 + 7) \<longrightarrow> (\<forall>j < LENGTH('a). 8 * 0 + 8 \<le> j \<longrightarrow> bit w j)"
    unfolding sign_clear_def using assms(3) by (metis div_greater_zero_iff less_imp_le zero_less_numeral)
  then show False using assms by auto
qed

lemma not_sign_clear_128: "\<not> sign_clear (128 :: u64)" "\<not> sign_clear (128 :: u32)"
  by (rule not_sign_clear; simp)+

section \<open>Properties\<close>

text \<open>An allocator for the examples: it never fails and gives cleared buffers.\<close>

definition calloc :: allocator where
  "calloc n = Some (replicate n 0)"

lemma calloc_ok [simp]: "allocator_ok calloc" "calloc n \<noteq> None"
  by (simp_all add: allocator_ok_def calloc_def)

text \<open>Integers on the wire. A part made from an integer always succeeds, whatever the allocator
  holds, its bytes are the same on every host that uses the same wire order, and reading them with
  the byte order of any such host gives the integer back, for 8, 16, 32 and 64 bits alike.\<close>

theorem uint_part_round_trip:
  assumes "allocator_ok mem" and "wire_order a = wire_order b"
  shows "(\<exists>p. Part_uint mem a (v :: u64) = Inr p \<and> Part_uint mem b v = Inr p \<and>
      memcpyWithEndian_get b (pt_data p) = v) \<and>
    (\<exists>p. Part_uint mem a (w :: u32) = Inr p \<and> Part_uint mem b w = Inr p \<and>
      memcpyWithEndian_get b (pt_data p) = w) \<and>
    (\<exists>p. Part_uint mem a (x :: u16) = Inr p \<and> Part_uint mem b x = Inr p \<and>
      memcpyWithEndian_get b (pt_data p) = x) \<and>
    (\<exists>p. Part_uint mem a (y :: u8) = Inr p \<and> Part_uint mem b y = Inr p \<and>
      memcpyWithEndian_get b (pt_data p) = y)"
  using assms
  by (simp add: Part_uint_eq max_vsm_size_def memcpyWithEndian_put_wire [of a]
      memcpyWithEndian_put_wire [of b] memcpyWithEndian_get_wire le_value_le_bytes)

definition little :: arch where
  "little = \<lparr>byte_order = LittleEndian, wire_order = LittleEndian, char_signed = True\<rparr>"

definition big :: arch where
  "big = \<lparr>byte_order = BigEndian, wire_order = LittleEndian, char_signed = False\<rparr>"

lemma uint_part_round_trip_witness:
  "allocator_ok calloc \<and> wire_order little = wire_order big \<and>
   (\<exists>p. Part_uint calloc little (258 :: u16) = Inr p \<and> Part_uint calloc big (258 :: u16) = Inr p \<and>
      memcpyWithEndian_get big (pt_data p) = (258 :: u16))"
  using uint_part_round_trip [of calloc little big] by (simp add: little_def big_def)

text \<open>The readers of integers. Reading a 64-bit part with \<^verbatim>\<open>toUint64\<close> gives the number that was
  written exactly when \<^verbatim>\<open>char\<close> is unsigned, or no byte but the top one has its sign bit set (unless
  every bit above it is set). With a signed \<^verbatim>\<open>char\<close> a byte is sign extended before it is shifted, so
  the number 128 is read back as 18446744073709551488.\<close>

theorem toUint64_exact:
  assumes "allocator_ok mem" and "Part_uint mem a (v :: u64) = Inr p"
  shows "toUint64 a p = v \<longleftrightarrow> (char_signed a \<longrightarrow> sign_clear v)"
  using assms by (rule Part_uint64_read)

lemma toUint64_exact_witness:
  "\<not> (\<forall>v. \<forall>p. Part_uint calloc little (v :: u64) = Inr p \<longrightarrow> toUint64 little p = v)"
proof -
  have p: "Part_uint calloc little (128 :: u64) =
      Inr (zmq_msg_init\<lparr>pt_data := memcpyWithEndian_put little (128 :: u64)\<rparr>)"
    by (simp add: Part_uint_eq max_vsm_size_def)
  show ?thesis using toUint64_exact [OF calloc_ok(1) p] p not_sign_clear_128(1) by (auto simp: little_def)
qed

text \<open>The same for the 32-bit and the 16-bit reader; the 8-bit reader always gives the number
  back. A part of another size reads as 0.\<close>

theorem toUint_exact:
  assumes "allocator_ok mem" and "Part_uint mem a (v :: u32) = Inr p" and "Part_uint mem a (w :: u16) = Inr q"
    and "Part_uint mem a (x :: u8) = Inr r"
  shows "(toUint32 a p = v \<longleftrightarrow> (char_signed a \<longrightarrow> sign_clear v)) \<and>
    (toUint16 a q = w \<longleftrightarrow> (char_signed a \<longrightarrow> sign_clear w)) \<and> toUint8 a r = x \<and>
    toUint32 a q = 0 \<and> toUint16 a p = 0 \<and> toUint8 a p = 0 \<and> toUint64 a p = 0"
proof (intro conjI)
  have d: "pt_data p = in_order (wire_order a) (le_bytes 4 v)" "pt_data q = in_order (wire_order a) (le_bytes 2 w)"
    "pt_data r = in_order (wire_order a) (le_bytes 1 x)"
    using assms by (auto simp: Part_uint_eq max_vsm_size_def memcpyWithEndian_put_wire)
  show "toUint32 a p = v \<longleftrightarrow> (char_signed a \<longrightarrow> sign_clear v)" by (rule Part_uint32_read [OF assms(1,2)])
  show "toUint16 a q = w \<longleftrightarrow> (char_signed a \<longrightarrow> sign_clear w)"
    using or_chars_le_bytes [of 2 a w] by (simp add: toUint16_or_chars d)
  show "toUint8 a r = x" by (rule Part_uint8_read [OF assms(1,4)])
  show "toUint32 a q = 0" "toUint16 a p = 0" "toUint8 a p = 0" "toUint64 a p = 0"
    by (simp_all add: toUint32_def toUint16_def toUint8_def toUint64_def d)
qed

lemma toUint_exact_witness:
  "toUint8 little (zmq_msg_init\<lparr>pt_data := memcpyWithEndian_put little (200 :: u8)\<rparr>) = 200"
proof -
  have p: "Part_uint calloc little (v :: u32) = Inr (zmq_msg_init\<lparr>pt_data := memcpyWithEndian_put little v\<rparr>)"
    "Part_uint calloc little (w :: u16) = Inr (zmq_msg_init\<lparr>pt_data := memcpyWithEndian_put little w\<rparr>)"
    "Part_uint calloc little (x :: u8) = Inr (zmq_msg_init\<lparr>pt_data := memcpyWithEndian_put little x\<rparr>)" for v w x
    by (simp_all add: Part_uint_eq max_vsm_size_def)
  show ?thesis using toUint_exact [OF calloc_ok(1) p(1) p(2) p(3), of 0 0 200] by simp
qed

text \<open>Copying a part keeps its bytes, its routing id and its group.\<close>

theorem Part_copy_same:
  assumes "group_ok p" and "Part_copy mem p = Inr q"
  shows "Part_eq q p \<and> pt_routing q = pt_routing p \<and> zmq_msg_group q = zmq_msg_group p"
  using Part_copy_spec [OF assms] by (simp add: Part_eq_def)

lemma Part_copy_same_witness:
  "\<exists>q. Part_copy calloc (zmq_msg_init\<lparr>pt_data := [1, 2], pt_routing := 7\<rparr>) = Inr q \<and> pt_routing q = 7"
proof -
  let ?p = "zmq_msg_init\<lparr>pt_data := [1, 2], pt_routing := 7\<rparr>"
  have "group_ok ?p" by (simp add: group_ok_def zmq_msg_init_def zmq_msg_group_def)
  moreover obtain q where q: "Part_copy calloc ?p = Inr q"
    by (simp add: Part_copy_def initMessageSize_def zmq_msg_init_size_def calloc_def Let_def
        setRoutingID_def zmq_msg_set_routing_id_def zmq_msg_init_def zmq_msg_group_def)
  ultimately show ?thesis using Part_copy_same [of ?p calloc q] by simp
qed

end
