(* ===== verification/Fuurin_PartMulti.thy ===== *)
theory Fuurin_PartMulti
  imports Fuurin_Part
begin

text \<open>
  The buffers of several fields in one part, \<^verbatim>\<open>include/fuurin/zmqpartmulti.h\<close>. The templates
  are instantiated at run time here: a field is a value of one of the supported kinds, and the types
  to extract are a list. Offsets and sizes are 64-bit words that wrap as \<^verbatim>\<open>size_t\<close> does.
\<close>

section \<open>Fields\<close>

datatype fty = TUInt8 | TUInt16 | TUInt32 | TUInt64 | TBool | TString | TPart | TArray nat

datatype field =
    FUInt8 u8
  | FUInt16 u16
  | FUInt32 u32
  | FUInt64 u64
  | FBool bool
  | FString bytes
  | FPart bytes
  | FArray bytes

fun type_of :: "field \<Rightarrow> fty" where
  "type_of (FUInt8 _) = TUInt8"
| "type_of (FUInt16 _) = TUInt16"
| "type_of (FUInt32 _) = TUInt32"
| "type_of (FUInt64 _) = TUInt64"
| "type_of (FBool _) = TBool"
| "type_of (FString _) = TString"
| "type_of (FPart _) = TPart"
| "type_of (FArray bs) = TArray (length bs)"

text \<open>\<^verbatim>\<open>size()\<close> of a buffer, and the largest \<^verbatim>\<open>string_length_t\<close>.\<close>

definition bsize :: "bytes \<Rightarrow> u64" where
  "bsize bs = of_nat (length bs)"

definition string_length_max :: u64 where
  "string_length_max = 0xFFFFFFFF"

fun tsize :: "field \<Rightarrow> u64" where
  "tsize (FUInt8 _) = 1"
| "tsize (FUInt16 _) = 2"
| "tsize (FUInt32 _) = 4"
| "tsize (FUInt64 _) = 8"
| "tsize (FBool _) = 1"
| "tsize (FString s) = 4 + bsize s"
| "tsize (FPart s) = 4 + bsize s"
| "tsize (FArray s) = bsize s"

definition accessOutOfBoundary :: "bytes \<Rightarrow> u64 \<Rightarrow> u64 \<Rightarrow> bool" where
  "accessOutOfBoundary pm pos sz =
     (\<not> (pos \<le> bsize pm \<and> pos + sz \<ge> pos \<and> pos + sz \<le> bsize pm))"

definition throwCreateError :: "'a result" where
  "throwCreateError = Inl (Throw ZMQPartCreateFailed ''could not create multi part'' 0)"

definition throwAccessError :: "'a result" where
  "throwAccessError = Inl (Throw ZMQPartAccessFailed ''could not access multi part'' 0)"

text \<open>\<^verbatim>\<open>memcpy\<close> into a buffer at an offset.\<close>

definition write_at :: "nat \<Rightarrow> bytes \<Rightarrow> bytes \<Rightarrow> bytes" where
  "write_at i bs pm = take i pm @ bs @ drop (i + length bs) pm"

section \<open>Packing\<close>

definition pack_string :: "arch \<Rightarrow> bytes \<Rightarrow> u64 \<Rightarrow> bytes \<Rightarrow> bytes result" where
  "pack_string a pm pos s =
     (if bsize s > string_length_max then throwCreateError
      else let pm1 = write_at (unat pos) (memcpyWithEndian_put a (ucast (bsize s) :: u32)) pm
           in Inr (if bsize s > 0 then write_at (unat pos + 4) s pm1 else pm1))"

text \<open>
  \<^verbatim>\<open>pack2\<close> of one argument: the buffer afterwards and the size of the argument.
\<close>

definition pack2_one :: "arch \<Rightarrow> bytes \<Rightarrow> u64 \<Rightarrow> field \<Rightarrow> (bytes \<times> u64) result" where
  "pack2_one a pm pos part =
     (let sz = tsize part in
      if accessOutOfBoundary pm pos sz then throwCreateError
      else bindR (case part of
          FUInt8 v \<Rightarrow> Inr (write_at (unat pos) (memcpyWithEndian_put a v) pm)
        | FUInt16 v \<Rightarrow> Inr (write_at (unat pos) (memcpyWithEndian_put a v) pm)
        | FUInt32 v \<Rightarrow> Inr (write_at (unat pos) (memcpyWithEndian_put a v) pm)
        | FUInt64 v \<Rightarrow> Inr (write_at (unat pos) (memcpyWithEndian_put a v) pm)
        | FBool b \<Rightarrow> Inr (write_at (unat pos) (memcpyWithEndian a [if b then 1 else 0]) pm)
        | FString s \<Rightarrow> pack_string a pm pos s
        | FPart s \<Rightarrow> pack_string a pm pos s
        | FArray s \<Rightarrow> Inr (if bsize s > 0 then write_at (unat pos) s pm else pm))
      (\<lambda>pm'. Inr (pm', sz)))"

fun pack2 :: "arch \<Rightarrow> bytes \<Rightarrow> u64 \<Rightarrow> field list \<Rightarrow> (bytes \<times> u64) result" where
  "pack2 a pm pos [] = Inr (pm, 0)"
| "pack2 a pm pos [part] = pack2_one a pm pos part"
| "pack2 a pm pos (part # args) =
     bindR (pack2_one a pm pos part) (\<lambda>(pm', n). pack2 a pm' (pos + n) args)"

definition pack :: "allocator \<Rightarrow> arch \<Rightarrow> field list \<Rightarrow> Part result" where
  "pack mem a args =
     bindR (initMessageSize mem (unat (foldr (\<lambda>f n. tsize f + n) args 0))) (\<lambda>p.
     bindR (pack2 a (pt_data p) 0 args) (\<lambda>(d, _). Inr (p\<lparr>pt_data := d\<rparr>)))"

section \<open>Unpacking\<close>

definition slice :: "nat \<Rightarrow> nat \<Rightarrow> bytes \<Rightarrow> bytes" where
  "slice i n pm = take n (drop i pm)"

definition psize_int :: "bytes \<Rightarrow> u64 \<Rightarrow> u64 \<Rightarrow> u64 result" where
  "psize_int pm pos sz = (if accessOutOfBoundary pm pos sz then throwAccessError else Inr sz)"

definition psize_string :: "arch \<Rightarrow> bytes \<Rightarrow> u64 \<Rightarrow> u64 result" where
  "psize_string a pm pos =
     (if accessOutOfBoundary pm pos 4 then throwAccessError
      else let len = memcpyWithEndian_get a (slice (unat pos) 4 pm) :: u32; pos' = pos + 4
           in if accessOutOfBoundary pm pos' (ucast len) then throwAccessError
              else Inr (4 + ucast len))"

fun psize :: "arch \<Rightarrow> fty \<Rightarrow> bytes \<Rightarrow> u64 \<Rightarrow> u64 result" where
  "psize a TUInt8 pm pos = psize_int pm pos 1"
| "psize a TUInt16 pm pos = psize_int pm pos 2"
| "psize a TUInt32 pm pos = psize_int pm pos 4"
| "psize a TUInt64 pm pos = psize_int pm pos 8"
| "psize a TBool pm pos = psize_int pm pos 1"
| "psize a TString pm pos = psize_string a pm pos"
| "psize a TPart pm pos = psize_string a pm pos"
| "psize a (TArray n) pm pos =
     (if accessOutOfBoundary pm pos (of_nat n) then throwAccessError else Inr (of_nat n))"

text \<open>
  A \<^verbatim>\<open>Part\<close> extracted from the buffer is a message of its own, so it needs an allocation. A byte
  other than 0 read into a \<^verbatim>\<open>bool\<close> is taken for true.
\<close>

definition unpack1 :: "allocator \<Rightarrow> arch \<Rightarrow> fty \<Rightarrow> bytes \<Rightarrow> u64 \<Rightarrow> field result" where
  "unpack1 mem a t pm pos =
     bindR (psize a t pm pos) (\<lambda>len.
     let buf = (\<lambda>n. slice (unat pos) n pm);
         contents = slice (unat pos + 4) (unat (len - 4)) pm
     in case t of
          TUInt8 \<Rightarrow> Inr (FUInt8 (memcpyWithEndian_get a (buf 1)))
        | TUInt16 \<Rightarrow> Inr (FUInt16 (memcpyWithEndian_get a (buf 2)))
        | TUInt32 \<Rightarrow> Inr (FUInt32 (memcpyWithEndian_get a (buf 4)))
        | TUInt64 \<Rightarrow> Inr (FUInt64 (memcpyWithEndian_get a (buf 8)))
        | TBool \<Rightarrow> Inr (FBool (memcpyWithEndian a (buf 1) \<noteq> [0]))
        | TString \<Rightarrow> Inr (FString contents)
        | TPart \<Rightarrow> bindR (Part_bytes mem contents) (\<lambda>p. Inr (FPart (pt_data p)))
        | TArray _ \<Rightarrow> Inr (FArray (buf (unat len))))"

fun unpack2 :: "allocator \<Rightarrow> arch \<Rightarrow> fty list \<Rightarrow> bytes \<Rightarrow> u64 \<Rightarrow> field list result" where
  "unpack2 mem a [] pm pos = Inr []"
| "unpack2 mem a [t] pm pos = bindR (unpack1 mem a t pm pos) (\<lambda>f. Inr [f])"
| "unpack2 mem a (t # args) pm pos =
     bindR (unpack1 mem a t pm pos) (\<lambda>f.
     bindR (unpack2 mem a args pm (pos + tsize f)) (\<lambda>fs. Inr (f # fs)))"

definition unpack :: "allocator \<Rightarrow> arch \<Rightarrow> fty list \<Rightarrow> bytes \<Rightarrow> field list result" where
  "unpack mem a args pm = unpack2 mem a args pm 0"

section \<open>Iterable parts\<close>

text \<open>The first pass: total size and number of the items, both 32-bit, with their checks.\<close>

fun iter_size :: "field list \<Rightarrow> u32 \<Rightarrow> u32 \<Rightarrow> (u32 \<times> u32) result" where
  "iter_size [] sz count = Inr (sz, count)"
| "iter_size (item # items) sz count =
     (let n = tsize item in
      if ucast sz + n < ucast sz \<or> ucast sz + n > string_length_max then throwCreateError
      else if (ucast count :: u64) + 1 > string_length_max then throwCreateError
      else iter_size items (sz + ucast n) (count + 1))"

text \<open>The second pass writes the items one after the other.\<close>

fun pack_items :: "arch \<Rightarrow> bytes \<Rightarrow> u64 \<Rightarrow> field list \<Rightarrow> bytes result" where
  "pack_items a pm pos [] = Inr pm"
| "pack_items a pm pos (item # items) =
     bindR (pack2_one a pm pos item) (\<lambda>(pm', n). pack_items a pm' (pos + n) items)"

definition pack_iter :: "allocator \<Rightarrow> arch \<Rightarrow> field list \<Rightarrow> Part result" where
  "pack_iter mem a items =
     bindR (iter_size items (4 + 4) 0) (\<lambda>(sz, count).
     bindR (initMessageSize mem (unat sz)) (\<lambda>p.
     bindR (pack2_one a (pt_data p) 0 (FUInt32 sz)) (\<lambda>(d1, n1).
     bindR (pack2_one a d1 n1 (FUInt32 count)) (\<lambda>(d2, n2).
     bindR (pack_items a d2 (n1 + n2) items) (\<lambda>d3. Inr (p\<lparr>pt_data := d3\<rparr>))))))"

text \<open>
  Unpacking visits each item as soon as it is extracted: the items visited, and how the loop ended.
\<close>

fun unpack_items :: "allocator \<Rightarrow> arch \<Rightarrow> fty \<Rightarrow> bytes \<Rightarrow> u64 \<Rightarrow> nat \<Rightarrow> field list \<times> unit result" where
  "unpack_items mem a t pm pos 0 = ([], Inr ())"
| "unpack_items mem a t pm pos (Suc n) =
     (case unpack1 mem a t pm pos of
        Inl e \<Rightarrow> ([], Inl e)
      | Inr item \<Rightarrow>
          (let (items, r) = unpack_items mem a t pm (pos + tsize item) n in (item # items, r)))"

definition unpack_iter :: "allocator \<Rightarrow> arch \<Rightarrow> fty \<Rightarrow> bytes \<Rightarrow> field list \<times> unit result" where
  "unpack_iter mem a t pm =
     (case unpack2 mem a [TUInt32, TUInt32] pm 0 of
        Inr [FUInt32 sz, FUInt32 count] \<Rightarrow> unpack_items mem a t pm (4 + 4) (unat count)
      | Inr _ \<Rightarrow> ([], Inr ())
      | Inl e \<Rightarrow> ([], Inl e))"

section \<open>The encoding\<close>

text \<open>The bytes a field takes in the buffer.\<close>

definition string_bytes :: "arch \<Rightarrow> bytes \<Rightarrow> bytes" where
  "string_bytes a s = memcpyWithEndian_put a (of_nat (length s) :: u32) @ s"

fun field_bytes :: "arch \<Rightarrow> field \<Rightarrow> bytes" where
  "field_bytes a (FUInt8 v) = memcpyWithEndian_put a v"
| "field_bytes a (FUInt16 v) = memcpyWithEndian_put a v"
| "field_bytes a (FUInt32 v) = memcpyWithEndian_put a v"
| "field_bytes a (FUInt64 v) = memcpyWithEndian_put a v"
| "field_bytes a (FBool b) = [if b then 1 else 0]"
| "field_bytes a (FString s) = string_bytes a s"
| "field_bytes a (FPart s) = string_bytes a s"
| "field_bytes a (FArray s) = s"

text \<open>What fits in the address space, and what fits in the length header of a string.\<close>

fun field_ok :: "field \<Rightarrow> bool" where
  "field_ok (FString s) = (length s < 2 ^ 64 - 4)"
| "field_ok (FPart s) = (length s < 2 ^ 64 - 4)"
| "field_ok (FArray s) = (length s < 2 ^ 64)"
| "field_ok _ = True"

fun field_short :: "field \<Rightarrow> bool" where
  "field_short (FString s) = (length s < 2 ^ 32)"
| "field_short (FPart s) = (length s < 2 ^ 32)"
| "field_short (FArray s) = (length s < 2 ^ 64)"
| "field_short _ = True"

abbreviation fields_bytes :: "arch \<Rightarrow> field list \<Rightarrow> bytes" where
  "fields_bytes a fs \<equiv> concat (map (field_bytes a) fs)"

lemma unat_of_nat_64: "n < 2 ^ 64 \<Longrightarrow> unat (of_nat n :: u64) = n"
  by (simp add: unat_of_nat)

lemma unat_of_nat_32: "n < 2 ^ 32 \<Longrightarrow> unat (of_nat n :: u32) = n"
  by (simp add: unat_of_nat)

lemma unat_lt_32: "unat (w :: u32) < 2 ^ 32"
  using unsigned_less [of w] by simp

lemma unat_ucast_32_64 [simp]: "unat (ucast (w :: u32) :: u64) = unat w"
proof -
  have "unat w < 2 ^ 32" using unsigned_less [of w] by simp
  then show ?thesis by (simp add: unsigned_ucast_eq take_bit_eq_mod)
qed

lemma unat_bsize [simp]: "length bs < 2 ^ 64 \<Longrightarrow> unat (bsize bs) = length bs"
  by (simp add: bsize_def unat_of_nat)

lemma bsize_max_iff: "length s < 2 ^ 64 \<Longrightarrow> bsize s > string_length_max \<longleftrightarrow> 2 ^ 32 \<le> length s"
  by (auto simp: word_less_nat_alt string_length_max_def)

lemma memcpyWithEndian_singleton [simp]: "memcpyWithEndian a [x] = [x]"
  by (simp add: memcpyWithEndian_def)

lemma length_string_bytes [simp]: "length (string_bytes a s) = 4 + length s"
  by (simp add: string_bytes_def)

lemma tsize_bytes: "tsize f = bsize (field_bytes a f)"
  by (cases f) (simp_all add: bsize_def)

lemma field_bytes_length:
  "field_ok f \<Longrightarrow> length (field_bytes a f) < 2 ^ 64"
  by (cases f) simp_all

lemma unat_tsize: "field_ok f \<Longrightarrow> unat (tsize f) = length (field_bytes a f)"
  using unat_bsize [OF field_bytes_length] by (simp add: tsize_bytes [of f a])

lemma accessOutOfBoundary_iff:
  assumes "length pm < 2 ^ 64"
  shows "accessOutOfBoundary pm pos sz \<longleftrightarrow> \<not> unat pos + unat sz \<le> length pm"
proof -
  have "pos \<le> bsize pm \<longleftrightarrow> unat pos \<le> length pm"
    using assms by (simp add: word_le_nat_alt)
  moreover have "unat (pos + sz) = unat pos + unat sz" if "unat pos + unat sz < 2 ^ 64"
    using that by (simp add: unat_word_ariths)
  moreover have "\<not> pos \<le> pos + sz" if "\<not> unat pos + unat sz < 2 ^ 64"
  proof -
    have "unat pos < 2 ^ 64" and "unat sz < 2 ^ 64"
      using unsigned_less [of pos] unsigned_less [of sz] by simp_all
    then have "(unat pos + unat sz) mod 2 ^ 64 = unat pos + unat sz - 2 ^ 64"
      using that by (simp add: le_mod_geq)
    then have "unat (pos + sz) < unat pos"
      using \<open>unat sz < 2 ^ 64\<close> that by (simp add: unat_word_ariths)
    then show ?thesis by (simp add: word_le_nat_alt)
  qed
  ultimately show ?thesis
    using assms
    by (cases "unat pos + unat sz < 2 ^ 64") (auto simp: accessOutOfBoundary_def word_le_nat_alt)
qed

lemma length_write_at [simp]: "i + length bs \<le> length pm \<Longrightarrow> length (write_at i bs pm) = length pm"
  by (simp add: write_at_def)

lemma write_at_write_at:
  "i + length xs + length ys \<le> length pm \<Longrightarrow>
     write_at (i + length xs) ys (write_at i xs pm) = write_at i (xs @ ys) pm"
  by (cases xs) (auto simp: write_at_def min_def ac_simps)

lemma write_at_nil [simp]: "write_at i [] pm = pm"
  by (simp add: write_at_def)

lemma pack_string_eq:
  assumes "length s < 2 ^ 64 - 4" and room: "unat pos + (4 + length s) \<le> length pm"
  shows "pack_string a pm pos s =
    (if length s < 2 ^ 32 then Inr (write_at (unat pos) (string_bytes a s) pm) else throwCreateError)"
proof -
  have len: "length s < 2 ^ 64" using assms by simp
  have hdr: "ucast (bsize s) = (of_nat (length s) :: u32)"
    by (simp add: bsize_def word_unat_eq_iff unsigned_ucast_eq unat_of_nat take_bit_eq_mod mod_mod_cancel)
  have "bsize s > 0 \<longleftrightarrow> s \<noteq> []" using len by (auto simp: word_less_nat_alt)
  moreover have "write_at (unat pos + 4) s
      (write_at (unat pos) (memcpyWithEndian_put a (of_nat (length s) :: u32)) pm)
      = write_at (unat pos) (string_bytes a s) pm"
    using write_at_write_at [of "unat pos" "memcpyWithEndian_put a (of_nat (length s) :: u32)" s pm]
      room by (simp add: string_bytes_def ac_simps)
  ultimately show ?thesis
    using bsize_max_iff [OF len] by (auto simp: pack_string_def Let_def hdr string_bytes_def)
qed

text \<open>Packing one field: where it fits, its bytes are written; anything else is a create error.\<close>

lemma pack2_one_eq:
  assumes ok: "field_ok f" and pm: "length pm < 2 ^ 64"
  shows "pack2_one a pm pos f =
    (if unat pos + length (field_bytes a f) \<le> length pm \<and> field_short f
     then Inr (write_at (unat pos) (field_bytes a f) pm, tsize f) else throwCreateError)"
proof (cases "unat pos + length (field_bytes a f) \<le> length pm")
  case False
  then have "accessOutOfBoundary pm pos (tsize f)"
    using accessOutOfBoundary_iff [OF pm] unat_tsize [OF ok] by simp
  with False show ?thesis by (simp add: pack2_one_def Let_def)
next
  case room: True
  then have acc: "\<not> accessOutOfBoundary pm pos (tsize f)"
    using accessOutOfBoundary_iff [OF pm] unat_tsize [OF ok] by simp
  show ?thesis
  proof (cases f)
    case (FString s)
    then show ?thesis
      using pack_string_eq [of s pos pm a] acc ok room
      by (simp add: pack2_one_def Let_def throwCreateError_def)
  next
    case (FPart s)
    then show ?thesis
      using pack_string_eq [of s pos pm a] acc ok room
      by (simp add: pack2_one_def Let_def throwCreateError_def)
  next
    case (FArray s)
    then have "bsize s > 0 \<longleftrightarrow> s \<noteq> []"
      using ok unat_bsize [of s] by (auto simp: word_less_nat_alt)
    with FArray show ?thesis using acc ok room by (auto simp: pack2_one_def Let_def)
  qed (use acc room in \<open>simp_all add: pack2_one_def Let_def\<close>)
qed

lemma bindR_throwCreateError [simp]: "bindR throwCreateError f = throwCreateError"
  by (simp add: throwCreateError_def)

lemma throwCreateError_not_Inr [simp]: "throwCreateError \<noteq> Inr x" "Inr x \<noteq> throwCreateError"
  by (simp_all add: throwCreateError_def)

lemma throwAccessError_not_Inr [simp]: "throwAccessError \<noteq> Inr x" "Inr x \<noteq> throwAccessError"
  by (simp_all add: throwAccessError_def)

lemma unat_plus_tsize:
  assumes "field_ok f" and "unat pos + length (field_bytes a f) < 2 ^ 64"
  shows "unat (pos + tsize f) = unat pos + length (field_bytes a f)"
  using assms unat_tsize [OF assms(1), of a] by (simp add: unat_word_ariths)

lemma pack_items_eq:
  assumes "list_all field_ok fs" and "length pm < 2 ^ 64" and "unat pos \<le> length pm"
  shows "pack_items a pm pos fs =
    (if unat pos + length (fields_bytes a fs) \<le> length pm \<and> list_all field_short fs
     then Inr (write_at (unat pos) (fields_bytes a fs) pm) else throwCreateError)"
  using assms
proof (induction fs arbitrary: pm pos)
  case Nil
  then show ?case by simp
next
  case (Cons f fs)
  show ?case
  proof (cases "unat pos + length (field_bytes a f) \<le> length pm \<and> field_short f")
    case True
    let ?pm = "write_at (unat pos) (field_bytes a f) pm"
    have len: "length ?pm = length pm" using True by simp
    have pos: "unat (pos + tsize f) = unat pos + length (field_bytes a f)"
      using True Cons.prems by (intro unat_plus_tsize) auto
    have "pack_items a ?pm (pos + tsize f) fs =
      (if unat pos + length (field_bytes a f) + length (fields_bytes a fs) \<le> length pm \<and>
          list_all field_short fs
       then Inr (write_at (unat pos + length (field_bytes a f)) (fields_bytes a fs) ?pm)
       else throwCreateError)"
      using Cons.IH [of ?pm "pos + tsize f"] Cons.prems True pos len by simp
    then show ?thesis
      using True Cons.prems write_at_write_at [of "unat pos" "field_bytes a f" "fields_bytes a fs" pm]
      by (simp add: pack2_one_eq add.assoc)
  next
    case False
    then show ?thesis using Cons.prems by (auto simp: pack2_one_eq)
  qed
qed

lemma pack2_items: "bindR (pack2 a pm pos fs) (\<lambda>(d, _). Inr d) = pack_items a pm pos fs"
proof (induction a pm pos fs rule: pack2.induct)
  case (3 a pm pos f g fs)
  then show ?case by (cases "pack2_one a pm pos f") (auto split: prod.splits)
qed (simp_all add: bindR_def split: sum.split)

lemma fields_size: "foldr (\<lambda>f n. tsize f + n) fs 0 = bsize (fields_bytes a fs)"
  by (induction fs) (simp_all add: tsize_bytes [of _ a] bsize_def)

text \<open>
  When packing succeeds, and what it gives: a fresh message whose bytes are those of the fields.
\<close>

lemma pack_Inr_iff:
  assumes mem: "allocator_ok mem" and ok: "list_all field_ok fs"
  shows "pack mem a fs = Inr p \<longleftrightarrow>
    length (fields_bytes a fs) < 2 ^ 64 \<and> mem (length (fields_bytes a fs)) \<noteq> None \<and>
    list_all field_short fs \<and> p = zmq_msg_init\<lparr>pt_data := fields_bytes a fs\<rparr>"
    (is "?L \<longleftrightarrow> ?R")
proof -
  let ?T = "length (fields_bytes a fs)" and ?n = "unat (bsize (fields_bytes a fs))"
  have n: "?n = ?T mod 2 ^ 64" by (simp add: bsize_def unat_of_nat)
  show ?thesis
  proof (cases "mem ?n")
    case None
    then show ?thesis
      using n by (auto simp: pack_def fields_size [of fs a] initMessageSize_def zmq_msg_init_size_def)
  next
    case (Some junk)
    then have junk: "length junk = ?n"
      using mem by (auto simp: allocator_ok_def split: option.splits dest: spec [of _ ?n])
    then have lt: "length junk < 2 ^ 64" using n by simp
    have "?L \<longleftrightarrow> (\<exists>d. pack_items a junk 0 fs = Inr d \<and> p = zmq_msg_init\<lparr>pt_data := d\<rparr>)"
      using Some
      by (simp add: pack_def fields_size [of fs a] initMessageSize_def zmq_msg_init_size_def
          flip: pack2_items split: prod.splits) force
    also have "\<dots> \<longleftrightarrow> ?T \<le> length junk \<and> list_all field_short fs \<and>
        p = zmq_msg_init\<lparr>pt_data := write_at 0 (fields_bytes a fs) junk\<rparr>"
      using pack_items_eq [OF ok lt, of 0 a] by auto
    also have "\<dots> \<longleftrightarrow> ?R"
    proof (cases "?T < 2 ^ 64")
      case True
      then show ?thesis using junk n Some by (simp add: write_at_def)
    next
      case False
      then have "\<not> ?T \<le> length junk" using lt by linarith
      with False show ?thesis by simp
    qed
    finally show ?thesis .
  qed
qed

section \<open>Decoding\<close>

definition field_alloc :: "allocator \<Rightarrow> field \<Rightarrow> bool" where
  "field_alloc mem f = (case f of FPart s \<Rightarrow> mem (length s) \<noteq> None | _ \<Rightarrow> True)"

lemma Part_bytes_eq:
  "mem (length s) \<noteq> None \<Longrightarrow> Part_bytes mem s = Inr (zmq_msg_init\<lparr>pt_data := s\<rparr>)"
  by (auto simp: Part_bytes_def initMessageSize_def zmq_msg_init_size_def)

lemma slice_prefix:
  "drop i pm = xs @ rest \<Longrightarrow> length xs = n \<Longrightarrow> slice i n pm = xs"
  by (simp add: slice_def)

lemma slice_second:
  assumes "drop i pm = xs @ ys @ rest" and "length xs = m" and "length ys = n"
  shows "slice (i + m) n pm = ys"
proof -
  have "drop (i + m) pm = drop m (drop i pm)" by (simp add: add.commute)
  then show ?thesis using assms by (simp add: slice_def)
qed

lemma drop_room: "drop i pm = xs @ rest \<Longrightarrow> i \<le> length pm \<Longrightarrow> i + length xs \<le> length pm"
  by (metis add_left_mono le_add1 le_add_diff_inverse length_append length_drop)

text \<open>\<^verbatim>\<open>psize\<close> finds the length of a string that is in the buffer.\<close>

lemma psize_string_at:
  assumes at: "drop (unat pos) pm = string_bytes a s @ rest" and pm: "length pm < 2 ^ 64"
    and short: "length s < 2 ^ 32" and ord: "wire_order a = wire_order b"
    and room: "unat pos + (4 + length s) \<le> length pm"
  shows "psize_string b pm pos = Inr (4 + of_nat (length s))"
proof -
  have "slice (unat pos) 4 pm = memcpyWithEndian_put a (of_nat (length s) :: u32)"
    using at by (intro slice_prefix [where rest = "s @ rest"]) (simp_all add: string_bytes_def)
  then have len: "memcpyWithEndian_get b (slice (unat pos) 4 pm) = (of_nat (length s) :: u32)"
    using ord by (simp add: memcpyWithEndian_get_put)
  have uc: "ucast (of_nat (length s) :: u32) = (of_nat (length s) :: u64)"
    using short by (simp add: word_unat_eq_iff unsigned_ucast_eq unat_of_nat take_bit_eq_mod)
  have "unat (pos + 4) = unat pos + 4" using room pm by (simp add: unat_word_ariths)
  then show ?thesis
    using room short
    by (simp add: psize_string_def Let_def len uc accessOutOfBoundary_iff [OF pm] unat_of_nat)
qed

lemma unpack1_at:
  assumes at: "drop (unat pos) pm = field_bytes a f @ rest" and pm: "length pm < 2 ^ 64"
    and pos: "unat pos \<le> length pm"
    and short: "field_short f" and alloc: "field_alloc mem f" and ord: "wire_order a = wire_order b"
  shows "unpack1 mem b (type_of f) pm pos = Inr f"
proof -
  have room: "unat pos + length (field_bytes a f) \<le> length pm"
    using drop_room [OF at pos] .
  have acc: "\<not> accessOutOfBoundary pm pos sz" if "unat sz = length (field_bytes a f)" for sz
    using that room by (simp add: accessOutOfBoundary_iff [OF pm])
  have str: "psize_string b pm pos = Inr (4 + of_nat (length s))
      \<and> slice (unat pos + 4) (unat (of_nat (length s) :: u64)) pm = s"
    if "field_bytes a f = string_bytes a s" "length s < 2 ^ 32" for s
    using that at room psize_string_at [OF _ pm that(2) ord, of pos rest]
      slice_second [of "unat pos" pm "memcpyWithEndian_put a (of_nat (length s) :: u32)" s rest 4]
    by (simp add: string_bytes_def unat_of_nat)
  have buf: "slice (unat pos) (length (field_bytes a f)) pm = field_bytes a f"
    using at by (rule slice_prefix) simp
  show ?thesis
  proof (cases f)
    case (FString s)
    then show ?thesis using str [of s] short by (simp add: unpack1_def)
  next
    case (FPart s)
    then show ?thesis
      using str [of s] short alloc Part_bytes_eq [of mem s] by (simp add: unpack1_def field_alloc_def)
  next
    case (FArray s)
    then show ?thesis
      using acc [of "of_nat (length s)"] buf short by (simp add: unpack1_def unat_of_nat)
  qed (use acc buf ord in \<open>simp_all add: unpack1_def psize_int_def memcpyWithEndian_get_put\<close>)
qed

lemma unpack2_at:
  assumes "drop (unat pos) pm = fields_bytes a fs @ rest" and "length pm < 2 ^ 64"
    and "unat pos \<le> length pm"
    and "list_all field_short fs" and "list_all (field_alloc mem) fs"
    and "wire_order a = wire_order b" and "list_all field_ok fs"
  shows "unpack2 mem b (map type_of fs) pm pos = Inr fs"
  using assms
proof (induction fs arbitrary: pos)
  case Nil
  then show ?case by simp
next
  case (Cons f fs)
  have f: "unpack1 mem b (type_of f) pm pos = Inr f"
    using Cons.prems by (intro unpack1_at [where a = a and rest = "fields_bytes a fs @ rest"]) auto
  have room: "unat pos + length (field_bytes a f) \<le> length pm"
    using Cons.prems(1,3) drop_room [of "unat pos" pm "field_bytes a f"] by simp
  then have pos: "unat (pos + tsize f) = unat pos + length (field_bytes a f)"
    using Cons.prems by (intro unat_plus_tsize) auto
  have "drop (unat (pos + tsize f)) pm = drop (length (field_bytes a f)) (drop (unat pos) pm)"
    by (simp add: pos add.commute)
  then have "drop (unat (pos + tsize f)) pm = fields_bytes a fs @ rest"
    using Cons.prems(1) by simp
  then have fs: "unpack2 mem b (map type_of fs) pm (pos + tsize f) = Inr fs"
    using Cons.IH [of "pos + tsize f"] Cons.prems room pos by simp
  show ?case using f fs by (cases fs) simp_all
qed

text \<open>The round trip, between platforms that agree on the wire order.\<close>

lemma unpack_pack_gen:
  assumes "allocator_ok mem" and "list_all field_ok fs" and "pack mem a fs = Inr p"
    and "list_all (field_alloc mem') fs" and "wire_order a = wire_order b"
  shows "unpack mem' b (map type_of fs) (pt_data p) = Inr fs"
proof -
  have "length (fields_bytes a fs) < 2 ^ 64" and "list_all field_short fs"
    and "pt_data p = fields_bytes a fs"
    using assms by (simp_all add: pack_Inr_iff)
  then show ?thesis
    using assms unpack2_at [of 0 "pt_data p" a fs "[]" mem' b] by (simp add: unpack_def)
qed

section \<open>Iterable parts, encoded and decoded\<close>

definition iter_bytes :: "arch \<Rightarrow> field list \<Rightarrow> bytes" where
  "iter_bytes a items =
     fields_bytes a [FUInt32 (of_nat (8 + length (fields_bytes a items))), FUInt32 (of_nat (length items))]
     @ fields_bytes a items"

lemma iter_size_step:
  assumes "field_ok f" and "m = length (field_bytes a f)"
  shows "(ucast sz + tsize f < (ucast sz :: u64) \<or> ucast sz + tsize f > string_length_max) \<longleftrightarrow>
    2 ^ 32 \<le> unat (sz :: u32) + m"
    and "unat sz + m < 2 ^ 32 \<Longrightarrow> unat (sz + ucast (tsize f)) = unat sz + m"
proof -
  have m: "unat (tsize f) = m" using unat_tsize [OF assms(1)] assms(2) by simp
  have sz: "unat (ucast sz :: u64) = unat sz" by simp
  have szlt: "unat sz < 2 ^ 32" using unsigned_less [of sz] by simp
  have mlt: "m < 2 ^ 64" using field_bytes_length [OF assms(1)] assms(2) by simp
  show "(ucast sz + tsize f < (ucast sz :: u64) \<or> ucast sz + tsize f > string_length_max) \<longleftrightarrow>
      2 ^ 32 \<le> unat sz + m"
  proof (cases "unat sz + m < 2 ^ 64")
    case True
    then have "unat (ucast sz + tsize f :: u64) = unat sz + m" using m sz by (simp add: unat_word_ariths)
    then show ?thesis using sz by (auto simp: word_less_nat_alt string_length_max_def)
  next
    case False
    then have "unat (ucast sz + tsize f :: u64) = unat sz + m - 2 ^ 64"
      using m sz szlt mlt by (simp add: unat_word_ariths le_mod_geq)
    then have "ucast sz + tsize f < (ucast sz :: u64)" using False mlt sz by (simp add: word_less_nat_alt)
    then show ?thesis using False by simp
  qed
  assume "unat sz + m < 2 ^ 32"
  then show "unat (sz + ucast (tsize f)) = unat sz + m"
    using m by (simp add: unat_word_ariths unsigned_ucast_eq take_bit_eq_mod)
qed

lemma iter_size_eq:
  assumes "list_all field_ok fs" and "unat sz + length (fields_bytes a fs) < 2 ^ 32"
    and "unat count + length fs < 2 ^ 32"
  shows "iter_size fs sz count =
    Inr (sz + of_nat (length (fields_bytes a fs)), count + of_nat (length fs))"
  using assms
proof (induction fs arbitrary: sz count)
  case Nil
  then show ?case by simp
next
  case (Cons f fs)
  let ?m = "length (field_bytes a f)"
  have f: "field_ok f" and lt: "unat sz + ?m < 2 ^ 32" using Cons.prems by simp_all
  have sz: "unat (sz + ucast (tsize f)) = unat sz + ?m"
    using iter_size_step(2) [OF f refl lt] .
  have count: "unat (count + 1) = unat count + 1"
    using Cons.prems(3) by (simp add: unat_word_ariths)
  have "\<not> (ucast count :: u64) + 1 > string_length_max"
    using Cons.prems(3) by (simp add: word_less_nat_alt unat_word_ariths string_length_max_def)
  moreover have "ucast (tsize f) = (of_nat ?m :: u32)"
    using unat_tsize [OF f, of a] lt
    by (simp add: word_unat_eq_iff unsigned_ucast_eq unat_of_nat take_bit_eq_mod)
  ultimately show ?case
    using Cons.IH [of "sz + ucast (tsize f)" "count + 1"] Cons.prems sz count
      iter_size_step(1) [OF f refl, of sz a] lt
    by (simp add: Let_def add.assoc)
qed

lemma iter_size_Inr:
  assumes "list_all field_ok fs" and "iter_size fs sz count = Inr r"
  shows "unat sz + length (fields_bytes a fs) < 2 ^ 32 \<and> unat count + length fs < 2 ^ 32"
  using assms
proof (induction fs arbitrary: sz count)
  case Nil
  then show ?case using unat_lt_32 [of sz] unat_lt_32 [of count] by simp
next
  case (Cons f fs)
  let ?m = "length (field_bytes a f)"
  have f: "field_ok f" using Cons.prems by simp
  have ok: "\<not> (ucast sz + tsize f < (ucast sz :: u64) \<or> ucast sz + tsize f > string_length_max)"
    and cnt: "\<not> (ucast count :: u64) + 1 > string_length_max"
    and rest: "iter_size fs (sz + ucast (tsize f)) (count + 1) = Inr r"
    using Cons.prems(2) by (auto simp: Let_def throwCreateError_def split: if_splits)
  have "unat sz + ?m < 2 ^ 32" using ok iter_size_step(1) [OF f refl, of sz a] by simp
  then have "unat (sz + ucast (tsize f)) = unat sz + ?m" by (rule iter_size_step(2) [OF f refl])
  moreover have "unat count + 1 < 2 ^ 32"
    using cnt unat_lt_32 [of count]
    by (simp add: word_less_nat_alt unat_word_ariths string_length_max_def)
  then have "unat (count + 1) = unat count + 1" by (simp add: unat_word_ariths)
  ultimately show ?case using Cons.IH [OF _ rest] Cons.prems(1) by simp
qed

lemma pack_iter_eq:
  assumes mem: "allocator_ok mem" and ok: "list_all field_ok fs"
    and T: "8 + length (fields_bytes a fs) < 2 ^ 32" and n: "length fs < 2 ^ 32"
    and alloc: "mem (8 + length (fields_bytes a fs)) \<noteq> None"
  shows "pack_iter mem a fs =
    (if list_all field_short fs then Inr (zmq_msg_init\<lparr>pt_data := iter_bytes a fs\<rparr>) else throwCreateError)"
proof -
  let ?T = "length (fields_bytes a fs)"
  have sz: "iter_size fs 8 0 = Inr (8 + of_nat ?T, of_nat (length fs))"
    using iter_size_eq [OF ok, of 8 a 0] T n by simp
  have usz: "unat (8 + of_nat ?T :: u32) = 8 + ?T"
    using T by (simp add: unat_word_ariths unat_of_nat)
  obtain junk where junk: "mem (8 + ?T) = Some junk" using alloc by blast
  then have len: "length junk = 8 + ?T"
    using mem by (auto simp: allocator_ok_def split: option.splits dest: spec [of _ "8 + ?T"])
  let ?h1 = "memcpyWithEndian_put a (8 + of_nat ?T :: u32)"
  let ?h2 = "memcpyWithEndian_put a (of_nat (length fs) :: u32)"
  have lt: "length junk < 2 ^ 64" using len T by simp
  have w: "write_at 8 (fields_bytes a fs) (write_at 4 ?h2 (write_at 0 ?h1 junk))
      = ?h1 @ ?h2 @ fields_bytes a fs"
    using len by (simp add: write_at_def)
  have "pack_items a (write_at 4 ?h2 (write_at 0 ?h1 junk)) 8 fs =
      (if list_all field_short fs then Inr (iter_bytes a fs) else throwCreateError)"
    using pack_items_eq [OF ok, of "write_at 4 ?h2 (write_at 0 ?h1 junk)" 8 a] len lt w
    by (simp add: iter_bytes_def)
  then show ?thesis
    using junk usz len lt
    by (auto simp: pack_iter_def sz initMessageSize_def zmq_msg_init_size_def pack2_one_eq throwCreateError_def)
qed

lemma pack_iter_Inr_iff:
  assumes mem: "allocator_ok mem" and ok: "list_all field_ok fs"
  shows "pack_iter mem a fs = Inr p \<longleftrightarrow>
    8 + length (fields_bytes a fs) < 2 ^ 32 \<and> length fs < 2 ^ 32 \<and>
    mem (8 + length (fields_bytes a fs)) \<noteq> None \<and>
    list_all field_short fs \<and> p = zmq_msg_init\<lparr>pt_data := iter_bytes a fs\<rparr>" (is "?L \<longleftrightarrow> ?R")
proof
  let ?T = "length (fields_bytes a fs)"
  assume pk: ?L
  then obtain r where r: "iter_size fs 8 0 = Inr r" by (auto simp: pack_iter_def)
  have T: "8 + ?T < 2 ^ 32" "length fs < 2 ^ 32" using iter_size_Inr [OF ok r, of a] by simp_all
  then have "iter_size fs 8 0 = Inr (8 + of_nat ?T, of_nat (length fs))"
    using iter_size_eq [OF ok, of 8 a 0] by simp
  moreover have "unat (8 + of_nat ?T :: u32) = 8 + ?T"
    using T by (simp add: unat_word_ariths unat_of_nat)
  ultimately have alloc: "mem (8 + ?T) \<noteq> None"
    using pk by (auto simp: pack_iter_def initMessageSize_def zmq_msg_init_size_def split: option.splits)
  show ?R
    using pk T alloc pack_iter_eq [OF mem ok T alloc] by (auto simp: throwCreateError_def split: if_splits)
next
  assume ?R
  then show ?L using pack_iter_eq [OF mem ok] by simp
qed

lemma pack_iter_Inr:
  assumes "allocator_ok mem" and "list_all field_ok fs" and "pack_iter mem a fs = Inr p"
  shows "8 + length (fields_bytes a fs) < 2 ^ 32" and "length fs < 2 ^ 32"
    and "list_all field_short fs" and "pt_data p = iter_bytes a fs"
  using assms by (simp_all add: pack_iter_Inr_iff)

lemma unpack_items_at:
  assumes "drop (unat pos) pm = fields_bytes a fs @ rest" and "length pm < 2 ^ 64"
    and "unat pos \<le> length pm" and "list_all (\<lambda>f. type_of f = t) fs"
    and "list_all field_short fs" and "list_all (field_alloc mem) fs"
    and "wire_order a = wire_order b" and "list_all field_ok fs"
  shows "unpack_items mem b t pm pos (length fs) = (fs, Inr ())"
  using assms
proof (induction fs arbitrary: pos)
  case Nil
  then show ?case by simp
next
  case (Cons f fs)
  have "unpack1 mem b (type_of f) pm pos = Inr f"
    using Cons.prems by (intro unpack1_at [where a = a and rest = "fields_bytes a fs @ rest"]) auto
  then have f: "unpack1 mem b t pm pos = Inr f" using Cons.prems by simp
  have room: "unat pos + length (field_bytes a f) \<le> length pm"
    using Cons.prems(1,3) drop_room [of "unat pos" pm "field_bytes a f"] by simp
  then have pos: "unat (pos + tsize f) = unat pos + length (field_bytes a f)"
    using Cons.prems by (intro unat_plus_tsize) auto
  have "drop (unat (pos + tsize f)) pm = drop (length (field_bytes a f)) (drop (unat pos) pm)"
    by (simp add: pos add.commute)
  then have "drop (unat (pos + tsize f)) pm = fields_bytes a fs @ rest"
    using Cons.prems(1) by simp
  then have "unpack_items mem b t pm (pos + tsize f) (length fs) = (fs, Inr ())"
    using Cons.IH [of "pos + tsize f"] Cons.prems room pos by simp
  with f show ?case by simp
qed

lemma unpack_pack_iter_gen:
  assumes mem: "allocator_ok mem" and ok: "list_all field_ok fs" and pk: "pack_iter mem a fs = Inr p"
    and ty: "list_all (\<lambda>f. type_of f = t) fs"
    and alloc: "list_all (field_alloc mem') fs" and ord: "wire_order a = wire_order b"
  shows "unpack_iter mem' b t (pt_data p) = (fs, Inr ())"
proof -
  note p = pack_iter_Inr [OF mem ok pk]
  let ?hd = "[FUInt32 (of_nat (8 + length (fields_bytes a fs))), FUInt32 (of_nat (length fs))]"
  have len: "length (pt_data p) = 8 + length (fields_bytes a fs)" using p(4) by (simp add: iter_bytes_def)
  then have lt: "length (pt_data p) < 2 ^ 64" using p(1) by simp
  have "unpack2 mem' b (map type_of ?hd) (pt_data p) 0 = Inr ?hd"
    using p(4) lt ord
    by (intro unpack2_at [where a = a and rest = "fields_bytes a fs"])
      (simp_all add: iter_bytes_def field_alloc_def)
  moreover have "unpack_items mem' b t (pt_data p) 8 (length fs) = (fs, Inr ())"
    using p(3,4) lt ord ok alloc ty len
    by (intro unpack_items_at [where a = a and rest = "[]"]) (simp_all add: iter_bytes_def)
  moreover have "unat (of_nat (length fs) :: u32) = length fs" using p(2) by (rule unat_of_nat_32)
  ultimately show ?thesis by (simp add: unpack_iter_def)
qed

section \<open>Decoding arbitrary bytes\<close>

lemma memcpyWithEndian_put_get:
  assumes "length bs = sizeof TYPE('a::len word)" and "8 * sizeof TYPE('a word) \<le> LENGTH('a)"
  shows "memcpyWithEndian_put a (memcpyWithEndian_get a bs :: 'a word) = bs"
  using assms by (simp add: memcpyWithEndian_put_wire memcpyWithEndian_get_wire le_bytes_le_value)

lemma length_slice: "i + n \<le> length pm \<Longrightarrow> length (slice i n pm) = n"
  by (simp add: slice_def)

lemma slice_append: "slice i m pm @ slice (i + m) n pm = slice i (m + n) pm"
  by (simp add: slice_def take_add ac_simps)

fun fty_ok :: "fty \<Rightarrow> bool" where
  "fty_ok (TArray n) = (n < 2 ^ 64)"
| "fty_ok _ = True"

text \<open>A string that is found is inside the buffer.\<close>

lemma psize_string_sound:
  assumes pm: "length pm < 2 ^ 64" and len: "psize_string a pm pos = Inr n"
  shows "\<exists>s. slice (unat pos + 4) (unat (n - 4)) pm = s \<and> length s < 2 ^ 32 \<and>
    unat pos + (4 + length s) \<le> length pm \<and> slice (unat pos) (4 + length s) pm = string_bytes a s"
proof -
  define w :: u32 where "w = memcpyWithEndian_get a (slice (unat pos) 4 pm)"
  have r1: "unat pos + 4 \<le> length pm" and n: "n = 4 + ucast w"
    and r2: "\<not> accessOutOfBoundary pm (pos + 4) (ucast w)"
    using len unfolding psize_string_def
    by (auto simp: accessOutOfBoundary_iff [OF pm] w_def Let_def throwAccessError_def split: if_splits)
  have "unat (pos + 4) = unat pos + 4" using r1 pm by (simp add: unat_word_ariths)
  then have r3: "unat pos + 4 + unat w \<le> length pm" using r2 by (simp add: accessOutOfBoundary_iff [OF pm])
  let ?s = "slice (unat pos + 4) (unat w) pm"
  have s: "length ?s = unat w" using r3 by (simp add: length_slice)
  have "memcpyWithEndian_put a (of_nat (length ?s) :: u32) = slice (unat pos) 4 pm"
    unfolding s using r1 by (simp add: w_def memcpyWithEndian_put_get length_slice)
  then have "slice (unat pos) (4 + length ?s) pm = string_bytes a ?s"
    using slice_append [of "unat pos" 4 pm "unat w"] s by (simp add: string_bytes_def)
  then show ?thesis using s r3 n unat_lt_32 [of w] by simp
qed

lemma unpack1_sound:
  assumes pm: "length pm < 2 ^ 64" and "fty_ok t" and un: "unpack1 mem a t pm pos = Inr f"
  shows "type_of f = t \<and> field_short f \<and> field_ok f \<and> unat pos + length (field_bytes a f) \<le> length pm \<and>
    (t = TBool \<or> slice (unat pos) (length (field_bytes a f)) pm = field_bytes a f)"
proof (cases t)
  case TString
  then obtain n where "psize_string a pm pos = Inr n" "f = FString (slice (unat pos + 4) (unat (n - 4)) pm)"
    using un by (auto simp: unpack1_def Let_def)
  with psize_string_sound [OF pm this(1)] TString show ?thesis by auto
next
  case TPart
  then obtain n where n: "psize_string a pm pos = Inr n"
      "bindR (Part_bytes mem (slice (unat pos + 4) (unat (n - 4)) pm)) (\<lambda>p. Inr (FPart (pt_data p))) = Inr f"
    using un by (auto simp: unpack1_def Let_def)
  then have "f = FPart (slice (unat pos + 4) (unat (n - 4)) pm)"
    by (auto simp: Part_bytes_def initMessageSize_def zmq_msg_init_size_def split: option.splits)
  with psize_string_sound [OF pm n(1)] TPart show ?thesis by auto
next
  case (TArray n)
  then show ?thesis
    using un assms(2)
    by (auto simp: unpack1_def accessOutOfBoundary_iff [OF pm] unat_of_nat throwAccessError_def
        length_slice split: if_splits)
qed (use un in \<open>auto simp: unpack1_def psize_int_def accessOutOfBoundary_iff [OF pm] throwAccessError_def
       length_slice memcpyWithEndian_put_get split: if_splits\<close>)

lemma unpack2_sound:
  assumes "length pm < 2 ^ 64" and "list_all fty_ok ts" and "TBool \<notin> set ts"
    and "unpack2 mem a ts pm pos = Inr fs" and "unat pos \<le> length pm"
  shows "map type_of fs = ts \<and> list_all field_short fs \<and>
    unat pos + length (fields_bytes a fs) \<le> length pm \<and>
    slice (unat pos) (length (fields_bytes a fs)) pm = fields_bytes a fs"
  using assms
proof (induction ts arbitrary: pos fs)
  case Nil
  then show ?case by (simp add: slice_def)
next
  case (Cons t ts)
  obtain f gs where f: "unpack1 mem a t pm pos = Inr f" and fs: "fs = f # gs"
    and gs: "unpack2 mem a ts pm (pos + tsize f) = Inr gs"
    using Cons.prems(4) by (cases ts) auto
  note s = unpack1_sound [OF Cons.prems(1) _ f]
  have pos: "unat (pos + tsize f) = unat pos + length (field_bytes a f)"
    using s Cons.prems(1,2) unat_tsize [of f a] by (simp add: unat_word_ariths)
  have "map type_of gs = ts \<and> list_all field_short gs \<and>
      unat (pos + tsize f) + length (fields_bytes a gs) \<le> length pm \<and>
      slice (unat (pos + tsize f)) (length (fields_bytes a gs)) pm = fields_bytes a gs"
    using Cons.prems s pos by (intro Cons.IH [OF _ _ _ gs]) auto
  then show ?case
    using s Cons.prems(2,3) fs pos
      slice_append [of "unat pos" "length (field_bytes a f)" pm "length (fields_bytes a gs)"]
    by auto
qed

text \<open>The only errors are the documented ones.\<close>

lemma unpack1_error:
  "unpack1 mem a t pm pos = Inl e \<Longrightarrow> e = Throw ZMQPartAccessFailed ''could not access multi part'' 0 \<or>
     (\<exists>s. e = Throw ZMQPartCreateFailed s 0)"
  by (cases t)
    (auto simp: unpack1_def psize_int_def psize_string_def throwAccessError_def Let_def Part_bytes_def
      initMessageSize_def zmq_msg_init_size_def split: if_splits option.splits)

lemma unpack2_error:
  "unpack2 mem a ts pm pos = Inl e \<Longrightarrow> e = Throw ZMQPartAccessFailed ''could not access multi part'' 0 \<or>
     (\<exists>s. e = Throw ZMQPartCreateFailed s 0)"
proof (induction ts arbitrary: pos)
  case Nil
  then show ?case by simp
next
  case (Cons t ts)
  show ?case
  proof (cases "unpack1 mem a t pm pos")
    case (Inl e')
    then show ?thesis using Cons.prems unpack1_error [of mem a t pm pos e'] by (cases ts) auto
  next
    case (Inr f)
    then have "unpack2 mem a ts pm (pos + tsize f) = Inl e"
      using Cons.prems by (cases ts) (auto simp: bindR_def split: sum.splits)
    then show ?thesis by (rule Cons.IH)
  qed
qed

section \<open>Properties\<close>

text \<open>What packing writes. For fields that fit in memory, packing succeeds exactly when the total
  fits in 64 bits, the buffer can be allocated and no string or part is longer than the 32-bit
  length header can say; the result is then the fields' bytes one after the other.\<close>

theorem pack_spec:
  assumes "allocator_ok mem" and "list_all field_ok fs"
  shows "pack mem a fs = Inr p \<longleftrightarrow>
    length (fields_bytes a fs) < 2 ^ 64 \<and> mem (length (fields_bytes a fs)) \<noteq> None \<and>
    list_all field_short fs \<and> p = zmq_msg_init\<lparr>pt_data := fields_bytes a fs\<rparr>"
  using assms by (rule pack_Inr_iff)

lemma pack_spec_witness:
  "pack calloc big [FUInt16 1, FString [65, 66]] = Inr (zmq_msg_init\<lparr>pt_data := [1, 0, 2, 0, 0, 0, 65, 66]\<rparr>)"
proof -
  have "field_bytes big (FUInt16 1) = [1, 0]" "field_bytes big (FString [65, 66]) = [2, 0, 0, 0, 65, 66]"
    by code_simp+
  then show ?thesis
    using pack_spec [of calloc "[FUInt16 1, FString [65, 66]]" big
        "zmq_msg_init\<lparr>pt_data := [1, 0, 2, 0, 0, 0, 65, 66]\<rparr>"] by simp
qed

text \<open>C9: Round trip. Whatever was packed on one host unpacks to the same fields on every host with the
  same wire order, given memory for the parts inside.\<close>

theorem unpack_pack:
  assumes "allocator_ok mem" and "list_all field_ok fs" and "pack mem a fs = Inr p"
    and "list_all (field_alloc mem') fs" and "wire_order a = wire_order b"
  shows "unpack mem' b (map type_of fs) (pt_data p) = Inr fs"
  using assms by (rule unpack_pack_gen)

lemma unpack_pack_witness:
  "\<exists>p. pack calloc little [FUInt64 7, FBool True, FPart [1]] = Inr p \<and>
     unpack calloc big [TUInt64, TBool, TPart] (pt_data p) = Inr [FUInt64 7, FBool True, FPart [1]]"
proof -
  let ?fs = "[FUInt64 7, FBool True, FPart [1]]"
  obtain p where p: "pack calloc little ?fs = Inr p"
    using pack_Inr_iff [of calloc ?fs little] by (auto simp: field_alloc_def)
  then show ?thesis
    using unpack_pack [of calloc ?fs little p calloc big] by (simp add: field_alloc_def little_def big_def)
qed

text \<open>Round trip of iterable parts. Packing a sequence succeeds exactly when the total and the count
  fit in their 32-bit headers, every string fits in its own and the buffer can be allocated; and
  unpacking the result visits the same items in the same order.\<close>

theorem unpack_pack_iter:
  assumes "allocator_ok mem" and "list_all field_ok fs" and "list_all (\<lambda>f. type_of f = t) fs"
    and "list_all (field_alloc mem') fs" and "wire_order a = wire_order b"
  shows "(pack_iter mem a fs = Inr p \<longleftrightarrow>
      8 + length (fields_bytes a fs) < 2 ^ 32 \<and> length fs < 2 ^ 32 \<and>
      mem (8 + length (fields_bytes a fs)) \<noteq> None \<and>
      list_all field_short fs \<and> p = zmq_msg_init\<lparr>pt_data := iter_bytes a fs\<rparr>) \<and>
    (pack_iter mem a fs = Inr p \<longrightarrow> unpack_iter mem' b t (pt_data p) = (fs, Inr ()))"
  using assms pack_iter_Inr_iff unpack_pack_iter_gen by blast

lemma unpack_pack_iter_witness:
  "\<exists>p. pack_iter calloc big [FString [1, 2], FString []] = Inr p \<and>
     unpack_iter calloc little TString (pt_data p) = ([FString [1, 2], FString []], Inr ())"
proof -
  let ?fs = "[FString [1, 2], FString []]"
  let ?p = "zmq_msg_init\<lparr>pt_data := iter_bytes big ?fs\<rparr>"
  have "wire_order big = wire_order little" by (simp add: little_def big_def)
  then have "pack_iter calloc big ?fs = Inr ?p \<and> unpack_iter calloc little TString (pt_data ?p) = (?fs, Inr ())"
    using unpack_pack_iter [of calloc ?fs TString calloc big little ?p] by (simp add: field_alloc_def)
  then show ?thesis by blast
qed



end
