(* ===== verification/Fuurin_Messages.thy ===== *)
theory Fuurin_Messages
  imports Fuurin_PartMulti
begin

text \<open>
  The values that travel between the sockets: \<^verbatim>\<open>Uuid\<close>, \<^verbatim>\<open>Topic\<close>, \<^verbatim>\<open>Event\<close>,
  \<^verbatim>\<open>Operation\<close>, \<^verbatim>\<open>WorkerConfig\<close> and \<^verbatim>\<open>BrokerConfig\<close>, each with its
  \<^verbatim>\<open>toPart\<close> and \<^verbatim>\<open>fromPart\<close>. What the rest of the program relies on is the locale
  \<open>part_codec\<close>: decoding gives back what was encoded.
\<close>

section \<open>Uuid\<close>

text \<open>A uuid is its sixteen bytes; comparison and hashing look at nothing else.\<close>

type_synonym uuid = bytes

definition uuid_ok :: "uuid \<Rightarrow> bool" where
  "uuid_ok u = (length u = 16)"

definition Uuid_null :: uuid where
  "Uuid_null = replicate 16 0"

definition Uuid_isNull :: "uuid \<Rightarrow> bool" where
  "Uuid_isNull u = list_all (\<lambda>b. b = 0) u"

definition Uuid_toPart :: "allocator \<Rightarrow> arch \<Rightarrow> uuid \<Rightarrow> Part result" where
  "Uuid_toPart mem a u = pack mem a [FArray u]"

definition Uuid_fromPart :: "allocator \<Rightarrow> arch \<Rightarrow> Part \<Rightarrow> uuid result" where
  "Uuid_fromPart mem a p =
     bindR (unpack mem a [TArray 16] (pt_data p)) (\<lambda>fs.
     case fs of [FArray b] \<Rightarrow> Inr b | _ \<Rightarrow> throwAccessError)"

section \<open>Topic\<close>

text \<open>\<^verbatim>\<open>Topic::Name\<close>: an array of 256 characters, null terminated, and the size in use.\<close>

record Name =
  nm_sz :: nat
  nm_dd :: bytes

definition Name_array :: nat where
  "Name_array = 256"

definition Name_capacity :: nat where
  "Name_capacity = Name_array - 1"

definition Name_new :: "bytes \<Rightarrow> Name" where
  "Name_new s =
     (let sz = min Name_capacity (length s)
      in \<lparr>nm_sz = sz, nm_dd = take sz s @ replicate (Name_array - sz) 0\<rparr>)"

definition Name_empty_new :: Name where
  "Name_empty_new = \<lparr>nm_sz = 0, nm_dd = replicate Name_array 0\<rparr>"

definition Name_empty :: "Name \<Rightarrow> bool" where
  "Name_empty n = (nm_sz n = 0)"

text \<open>The conversion to a string view.\<close>

definition Name_str :: "Name \<Rightarrow> bytes" where
  "Name_str n = take (nm_sz n) (nm_dd n)"

definition Name_eq :: "Name \<Rightarrow> Name \<Rightarrow> bool" where
  "Name_eq n m = (nm_sz n = nm_sz m \<and> nm_dd n = nm_dd m)"

definition name_ok :: "Name \<Rightarrow> bool" where
  "name_ok n \<longleftrightarrow> nm_sz n \<le> Name_capacity \<and> length (nm_dd n) = Name_array \<and>
     (\<forall>b\<in>set (drop (nm_sz n) (nm_dd n)). b = 0)"

datatype Topic_Type = State | Event

fun Topic_Type_int :: "Topic_Type \<Rightarrow> u8" where
  "Topic_Type_int State = 0"
| "Topic_Type_int Event = 1"

definition Topic_Type_of :: "u8 \<Rightarrow> Topic_Type" where
  "Topic_Type_of i = (if i = 0 then State else Event)"

record Topic =
  tp_broker :: uuid
  tp_worker :: uuid
  tp_seqn :: u64
  tp_name :: Name
  tp_data :: Part
  tp_type :: Topic_Type

definition Topic_empty :: Topic where
  "Topic_empty = \<lparr>tp_broker = Uuid_null, tp_worker = Uuid_null, tp_seqn = 0,
     tp_name = Name_empty_new, tp_data = zmq_msg_init, tp_type = State\<rparr>"

text \<open>The constructor copies the data, and so do both overloads of it.\<close>

definition Topic_new ::
  "allocator \<Rightarrow> uuid \<Rightarrow> uuid \<Rightarrow> u64 \<Rightarrow> Name \<Rightarrow> Part \<Rightarrow> Topic_Type \<Rightarrow> Topic result" where
  "Topic_new mem broker worker seqn name data ty =
     bindR (Part_copy mem data) (\<lambda>d.
     Inr \<lparr>tp_broker = broker, tp_worker = worker, tp_seqn = seqn, tp_name = name, tp_data = d,
          tp_type = ty\<rparr>)"

definition withBroker :: "uuid \<Rightarrow> Topic \<Rightarrow> Topic" where
  "withBroker v t = t\<lparr>tp_broker := v\<rparr>"

definition withWorker :: "uuid \<Rightarrow> Topic \<Rightarrow> Topic" where
  "withWorker v t = t\<lparr>tp_worker := v\<rparr>"

definition withSeqNum :: "u64 \<Rightarrow> Topic \<Rightarrow> Topic" where
  "withSeqNum v t = t\<lparr>tp_seqn := v\<rparr>"

definition withType :: "Topic_Type \<Rightarrow> Topic \<Rightarrow> Topic" where
  "withType v t = t\<lparr>tp_type := v\<rparr>"

definition withName :: "Name \<Rightarrow> Topic \<Rightarrow> Topic" where
  "withName v t = t\<lparr>tp_name := v\<rparr>"

definition withData :: "allocator \<Rightarrow> Part \<Rightarrow> (Topic, unit) action" where
  "withData mem v t = (let (r, d) = Part_assign mem v (tp_data t) in (r, t\<lparr>tp_data := d\<rparr>))"

definition Topic_eq :: "Topic \<Rightarrow> Topic \<Rightarrow> bool" where
  "Topic_eq t u =
     (tp_broker t = tp_broker u \<and> tp_worker t = tp_worker u \<and> tp_seqn t = tp_seqn u \<and>
      Name_eq (tp_name t) (tp_name u) \<and> Part_eq (tp_data t) (tp_data u))"

definition Topic_toPart :: "allocator \<Rightarrow> arch \<Rightarrow> Topic \<Rightarrow> Part result" where
  "Topic_toPart mem a t =
     (let ty = Topic_Type_int (tp_type t) in
      bindR (ASSERT (ty \<ge> Topic_Type_int State \<and> ty \<le> Topic_Type_int Event)
        ''Topic::toPart: bad topic type'') (\<lambda>_.
      pack mem a [FUInt64 (tp_seqn t), FUInt8 ty, FArray (tp_broker t), FArray (tp_worker t),
        FString (Name_str (tp_name t)), FPart (pt_data (tp_data t))]))"

definition Topic_types :: "fty list" where
  "Topic_types = [TUInt64, TUInt8, TArray 16, TArray 16, TString, TPart]"

definition Topic_fromPart :: "allocator \<Rightarrow> arch \<Rightarrow> Part \<Rightarrow> Topic result" where
  "Topic_fromPart mem a p =
     bindR (unpack mem a Topic_types (pt_data p)) (\<lambda>fs.
     case fs of
       [FUInt64 seqn, FUInt8 ty, FArray brok, FArray work, FString name, FPart data] \<Rightarrow>
         bindR (ASSERT (ty \<ge> Topic_Type_int State \<and> ty \<le> Topic_Type_int Event)
           ''Topic::fromPart: bad topic type'') (\<lambda>_.
         Topic_new mem brok work seqn (Name_new name) (zmq_msg_init\<lparr>pt_data := data\<rparr>)
           (Topic_Type_of ty))
     | _ \<Rightarrow> throwAccessError)"

text \<open>Patching the sequence number of a packed topic, without unpacking it.\<close>

definition Topic_part_withSeqNum :: "allocator \<Rightarrow> arch \<Rightarrow> Part \<Rightarrow> u64 \<Rightarrow> Part result" where
  "Topic_part_withSeqNum mem a part val =
     bindR (Part_uint mem a val) (\<lambda>buf.
     if length (pt_data part) < length (pt_data buf)
     then Inl (Throw ZMQPartAccessFailed ''could not access topic multi part seqn field'' 0)
     else Inr (part\<lparr>pt_data := write_at 0 (pt_data buf) (pt_data part)\<rparr>))"

section \<open>Event\<close>

datatype Event_Notification = EvDiscard | EvTimeout | EvSuccess

datatype Event_Type =
    EvInvalid
  | EvStarted
  | EvStopped
  | EvOffline
  | EvOnline
  | EvDelivery
  | EvSyncRequest
  | EvSyncBegin
  | EvSyncElement
  | EvSyncSuccess
  | EvSyncError
  | EvSyncDownloadOn
  | EvSyncDownloadOff

definition Event_Notifications :: "Event_Notification list" where
  "Event_Notifications = [EvDiscard, EvTimeout, EvSuccess]"

definition Event_Types :: "Event_Type list" where
  "Event_Types = [EvInvalid, EvStarted, EvStopped, EvOffline, EvOnline, EvDelivery, EvSyncRequest,
     EvSyncBegin, EvSyncElement, EvSyncSuccess, EvSyncError, EvSyncDownloadOn, EvSyncDownloadOff]"

text \<open>
  The integer of an enumerator is its position in the declaration; \<^verbatim>\<open>COUNT\<close> is their number.
\<close>

fun index_of :: "'a list \<Rightarrow> 'a \<Rightarrow> nat" where
  "index_of [] x = 0"
| "index_of (y # ys) x = (if x = y then 0 else Suc (index_of ys x))"

definition enum_int :: "'a list \<Rightarrow> 'a \<Rightarrow> u8" where
  "enum_int l x = of_nat (index_of l x)"

definition enum_count :: "'a list \<Rightarrow> u8" where
  "enum_count l = of_nat (length l)"

definition enum_of :: "'a list \<Rightarrow> u8 \<Rightarrow> 'a" where
  "enum_of l i = l ! unat i"

record Event =
  ev_type :: Event_Type
  ev_notif :: Event_Notification
  ev_payload :: Part

definition Event_toPart :: "allocator \<Rightarrow> arch \<Rightarrow> Event \<Rightarrow> Part result" where
  "Event_toPart mem a e =
     (let ty = enum_int Event_Types (ev_type e); nt = enum_int Event_Notifications (ev_notif e) in
      bindR (ASSERT (ty \<ge> 0 \<and> ty < enum_count Event_Types) ''Event::toPart: bad operation type'') (\<lambda>_.
      bindR (ASSERT (nt \<ge> 0 \<and> nt < enum_count Event_Notifications)
        ''Event::toPart: bad operation notification'') (\<lambda>_.
      pack mem a [FUInt8 ty, FUInt8 nt, FPart (pt_data (ev_payload e))])))"

definition Event_fromPart :: "allocator \<Rightarrow> arch \<Rightarrow> Part \<Rightarrow> Event result" where
  "Event_fromPart mem a p =
     bindR (unpack mem a [TUInt8, TUInt8, TPart] (toString p)) (\<lambda>fs.
     case fs of
       [FUInt8 ty, FUInt8 nt, FPart payload] \<Rightarrow>
         bindR (ASSERT (ty \<ge> 0 \<and> ty < enum_count Event_Types) ''Event::fromPart: bad operation type'') (\<lambda>_.
         bindR (ASSERT (nt \<ge> 0 \<and> nt < enum_count Event_Notifications)
           ''Event::fromPart: bad operation notification'') (\<lambda>_.
         Inr \<lparr>ev_type = enum_of Event_Types ty, ev_notif = enum_of Event_Notifications nt,
              ev_payload = zmq_msg_init\<lparr>pt_data := payload\<rparr>\<rparr>))
     | _ \<Rightarrow> throwAccessError)"

section \<open>Operation\<close>

datatype Operation_Notification = OpDiscard | OpSuccess

datatype Operation_Type = OpInvalid | OpStart | OpStop | OpDispatch | OpSync

definition Operation_Notifications :: "Operation_Notification list" where
  "Operation_Notifications = [OpDiscard, OpSuccess]"

definition Operation_Types :: "Operation_Type list" where
  "Operation_Types = [OpInvalid, OpStart, OpStop, OpDispatch, OpSync]"

record Operation =
  op_type :: Operation_Type
  op_notif :: Operation_Notification
  op_payload :: Part

definition Operation_toPart :: "allocator \<Rightarrow> arch \<Rightarrow> Operation \<Rightarrow> Part result" where
  "Operation_toPart mem a e =
     (let ty = enum_int Operation_Types (op_type e);
          nt = enum_int Operation_Notifications (op_notif e) in
      bindR (ASSERT (ty \<ge> 0 \<and> ty < enum_count Operation_Types)
        ''Operation::toPart: bad operation type'') (\<lambda>_.
      bindR (ASSERT (nt \<ge> 0 \<and> nt < enum_count Operation_Notifications)
        ''Operation::toPart: bad operation notification'') (\<lambda>_.
      pack mem a [FUInt8 ty, FUInt8 nt, FPart (pt_data (op_payload e))])))"

definition Operation_fromPart :: "allocator \<Rightarrow> arch \<Rightarrow> Part \<Rightarrow> Operation result" where
  "Operation_fromPart mem a p =
     bindR (unpack mem a [TUInt8, TUInt8, TPart] (pt_data p)) (\<lambda>fs.
     case fs of
       [FUInt8 ty, FUInt8 nt, FPart payload] \<Rightarrow>
         bindR (ASSERT (ty \<ge> 0 \<and> ty < enum_count Operation_Types)
           ''Operation::fromPart: bad operation type'') (\<lambda>_.
         bindR (ASSERT (nt \<ge> 0 \<and> nt < enum_count Operation_Notifications)
           ''Operation::fromPart: bad operation notification'') (\<lambda>_.
         Inr \<lparr>op_type = enum_of Operation_Types ty, op_notif = enum_of Operation_Notifications nt,
              op_payload = zmq_msg_init\<lparr>pt_data := payload\<rparr>\<rparr>))
     | _ \<Rightarrow> throwAccessError)"

section \<open>Configurations\<close>

record WorkerConfig =
  wc_uuid :: uuid
  wc_seqNum :: u64
  wc_topicsAll :: bool
  wc_topicsNames :: "Name list"
  wc_endpDelivery :: "bytes list"
  wc_endpDispatch :: "bytes list"
  wc_endpSnapshot :: "bytes list"

record BrokerConfig =
  bc_uuid :: uuid
  bc_endpDelivery :: "bytes list"
  bc_endpDispatch :: "bytes list"
  bc_endpSnapshot :: "bytes list"

definition pack_strings :: "allocator \<Rightarrow> arch \<Rightarrow> bytes list \<Rightarrow> bytes result" where
  "pack_strings mem a l = bindR (pack_iter mem a (map FString l)) (\<lambda>p. Inr (pt_data p))"

text \<open>Unpacking an iterable of strings into a container: an error leaves through the caller.\<close>

fun field_string :: "field \<Rightarrow> bytes" where
  "field_string (FString s) = s"
| "field_string _ = []"

definition unpack_strings :: "allocator \<Rightarrow> arch \<Rightarrow> bytes \<Rightarrow> bytes list result" where
  "unpack_strings mem a pm =
     (case unpack_iter mem a TString pm of
        (items, Inr _) \<Rightarrow> Inr (map field_string items)
      | (items, Inl e) \<Rightarrow> Inl e)"

definition WorkerConfig_toPart :: "allocator \<Rightarrow> arch \<Rightarrow> WorkerConfig \<Rightarrow> Part result" where
  "WorkerConfig_toPart mem a wc =
     bindR (pack_strings mem a (map Name_str (wc_topicsNames wc))) (\<lambda>subscr.
     bindR (pack_strings mem a (wc_endpDelivery wc)) (\<lambda>endp1.
     bindR (pack_strings mem a (wc_endpDispatch wc)) (\<lambda>endp2.
     bindR (pack_strings mem a (wc_endpSnapshot wc)) (\<lambda>endp3.
     pack mem a [FArray (wc_uuid wc), FUInt64 (wc_seqNum wc), FBool (wc_topicsAll wc),
       FPart subscr, FPart endp1, FPart endp2, FPart endp3]))))"

definition WorkerConfig_fromPart :: "allocator \<Rightarrow> arch \<Rightarrow> Part \<Rightarrow> WorkerConfig result" where
  "WorkerConfig_fromPart mem a p =
     bindR (unpack mem a [TArray 16, TUInt64, TBool, TPart, TPart, TPart, TPart] (pt_data p)) (\<lambda>fs.
     case fs of
       [FArray u, FUInt64 seqNum, FBool getall, FPart subscr, FPart endp1, FPart endp2, FPart endp3] \<Rightarrow>
         bindR (unpack_strings mem a subscr) (\<lambda>names.
         bindR (unpack_strings mem a endp1) (\<lambda>delivery.
         bindR (unpack_strings mem a endp2) (\<lambda>dispatch.
         bindR (unpack_strings mem a endp3) (\<lambda>snapshot.
         Inr \<lparr>wc_uuid = u, wc_seqNum = seqNum, wc_topicsAll = getall,
              wc_topicsNames = map Name_new names, wc_endpDelivery = delivery,
              wc_endpDispatch = dispatch, wc_endpSnapshot = snapshot\<rparr>))))
     | _ \<Rightarrow> throwAccessError)"

definition BrokerConfig_toPart :: "allocator \<Rightarrow> arch \<Rightarrow> BrokerConfig \<Rightarrow> Part result" where
  "BrokerConfig_toPart mem a cc =
     bindR (pack_strings mem a (bc_endpDelivery cc)) (\<lambda>endp1.
     bindR (pack_strings mem a (bc_endpDispatch cc)) (\<lambda>endp2.
     bindR (pack_strings mem a (bc_endpSnapshot cc)) (\<lambda>endp3.
     pack mem a [FArray (bc_uuid cc), FPart endp1, FPart endp2, FPart endp3])))"

definition BrokerConfig_fromPart :: "allocator \<Rightarrow> arch \<Rightarrow> Part \<Rightarrow> BrokerConfig result" where
  "BrokerConfig_fromPart mem a p =
     bindR (unpack mem a [TArray 16, TPart, TPart, TPart] (pt_data p)) (\<lambda>fs.
     case fs of
       [FArray u, FPart endp1, FPart endp2, FPart endp3] \<Rightarrow>
         bindR (unpack_strings mem a endp1) (\<lambda>delivery.
         bindR (unpack_strings mem a endp2) (\<lambda>dispatch.
         bindR (unpack_strings mem a endp3) (\<lambda>snapshot.
         Inr \<lparr>bc_uuid = u, bc_endpDelivery = delivery, bc_endpDispatch = dispatch,
              bc_endpSnapshot = snapshot\<rparr>)))
     | _ \<Rightarrow> throwAccessError)"

section \<open>Names\<close>

lemma name_ok_new [simp, intro]: "name_ok (Name_new s)"
  by (auto simp: name_ok_def Name_new_def Let_def Name_capacity_def Name_array_def)

lemma Name_str_new: "Name_str (Name_new s) = take Name_capacity s"
  by (auto simp: Name_str_def Name_new_def Let_def min_def)

lemma zeros_replicate: "(\<forall>b\<in>set xs. b = 0) \<longleftrightarrow> xs = replicate (length xs) (0 :: byte)"
  by (metis in_set_replicate replicate_eqI)

lemma Name_new_str [simp]:
  assumes "name_ok n"
  shows "Name_new (Name_str n) = n"
proof -
  have sz: "nm_sz n \<le> 255" and len: "length (nm_dd n) = 256"
    and zs: "drop (nm_sz n) (nm_dd n) = replicate (256 - nm_sz n) 0"
    using assms zeros_replicate [of "drop (nm_sz n) (nm_dd n)"]
    by (auto simp: name_ok_def Name_capacity_def Name_array_def)
  have "take (nm_sz n) (nm_dd n) @ replicate (256 - nm_sz n) 0 = nm_dd n"
    using zs append_take_drop_id by metis
  then show ?thesis
    using sz len
    by (simp add: Name_new_def Name_str_def Let_def Name_capacity_def Name_array_def min_def)
qed

lemma length_Name_str: "name_ok n \<Longrightarrow> length (Name_str n) = nm_sz n \<and> nm_sz n \<le> 255"
  by (auto simp: name_ok_def Name_str_def Name_capacity_def Name_array_def)

lemma Name_str_inj: "name_ok n \<Longrightarrow> name_ok m \<Longrightarrow> Name_str n = Name_str m \<longleftrightarrow> n = m"
  by (metis Name_new_str)

section \<open>Enumerations\<close>

lemma index_of_nth: "x \<in> set l \<Longrightarrow> index_of l x < length l \<and> l ! index_of l x = x"
  by (induction l) auto

lemma enum_of_int:
  assumes "x \<in> set l" and "length l < 256"
  shows "enum_of l (enum_int l x) = x" and "enum_int l x < enum_count l"
proof -
  have i: "index_of l x < length l" "l ! index_of l x = x" using index_of_nth [OF assms(1)] by auto
  then have u: "unat (of_nat (index_of l x) :: u8) = index_of l x"
    using assms(2) by (simp add: unat_of_nat)
  then show "enum_of l (enum_int l x) = x" using i by (simp add: enum_of_def enum_int_def)
  have "unat (of_nat (length l) :: u8) = length l" using assms(2) by (simp add: unat_of_nat)
  then show "enum_int l x < enum_count l"
    using u i by (simp add: enum_int_def enum_count_def word_less_nat_alt)
qed

lemma Event_Types_complete [simp]: "x \<in> set Event_Types" "length Event_Types < 256"
  by (cases x; simp add: Event_Types_def) (simp add: Event_Types_def)

lemma Event_Notifications_complete [simp]:
  "x \<in> set Event_Notifications" "length Event_Notifications < 256"
  by (cases x; simp add: Event_Notifications_def) (simp add: Event_Notifications_def)

lemma Operation_Types_complete [simp]: "x \<in> set Operation_Types" "length Operation_Types < 256"
  by (cases x; simp add: Operation_Types_def) (simp add: Operation_Types_def)

lemma Operation_Notifications_complete [simp]:
  "x \<in> set Operation_Notifications" "length Operation_Notifications < 256"
  by (cases x; simp add: Operation_Notifications_def) (simp add: Operation_Notifications_def)

lemma Topic_Type_of_int [simp]: "Topic_Type_of (Topic_Type_int t) = t"
  by (cases t) (simp_all add: Topic_Type_of_def)

lemma Topic_Type_int_le [simp]: "Topic_Type_int t \<le> 1"
  by (cases t) simp_all

section \<open>The codec interface\<close>

text \<open>
  Encoder and decoder of a value, each with its own allocator and platform. \<open>ok\<close> is what the C++
  types guarantee of a value, \<open>norm\<close> the value without the routing id and the group its payload may
  carry (they are not encoded), \<open>sizes\<close> the buffers a decoder allocates.
\<close>

locale part_codec =
  fixes enc :: "allocator \<Rightarrow> arch \<Rightarrow> 'a \<Rightarrow> Part result"
    and dec :: "allocator \<Rightarrow> arch \<Rightarrow> Part \<Rightarrow> 'a result"
    and ok :: "'a \<Rightarrow> bool" and norm :: "'a \<Rightarrow> 'a" and sizes :: "'a \<Rightarrow> nat list"
  assumes dec_enc: "allocator_ok mem \<Longrightarrow> wire_order a = wire_order b \<Longrightarrow> ok x \<Longrightarrow>
      \<forall>n\<in>set (sizes x). mem' n \<noteq> None \<Longrightarrow> enc mem a x = Inr p \<Longrightarrow> dec mem' b p = Inr (norm x)"
    and dec_data: "pt_data p = pt_data q \<Longrightarrow> dec mem' b p = dec mem' b q"
begin

text \<open>Routing id, group and the more flag do not disturb the decoder.\<close>

lemma dec_transport:
  assumes "allocator_ok mem" and "wire_order a = wire_order b" and "ok x"
    and "\<forall>n\<in>set (sizes x). mem' n \<noteq> None" and "enc mem a x = Inr p"
  shows "dec mem' b (p\<lparr>pt_routing := r, pt_group := g, pt_more := m\<rparr>) = Inr (norm x)"
  using dec_enc [OF assms] dec_data [of "p\<lparr>pt_routing := r, pt_group := g, pt_more := m\<rparr>" p] by simp

text \<open>Values with the same bytes are the same up to \<open>norm\<close>.\<close>

lemma enc_inj:
  assumes "allocator_ok mem" and "wire_order a = wire_order b" and "ok x" and "ok y"
    and "enc mem a x = Inr p" and "enc mem b y = Inr q" and "Part_eq p q"
  shows "norm x = norm y"
proof -
  have "dec (\<lambda>n. Some (replicate n 0)) b p = Inr (norm x)"
    using assms by (intro dec_enc) auto
  moreover have "dec (\<lambda>n. Some (replicate n 0)) b q = Inr (norm y)"
    using assms by (intro dec_enc [where a = b]) auto
  moreover have "dec (\<lambda>n. Some (replicate n 0)) b p = dec (\<lambda>n. Some (replicate n 0)) b q"
    using assms by (intro dec_data) (simp add: Part_eq_def)
  ultimately show ?thesis by simp
qed

end

definition part_norm :: "Part \<Rightarrow> Part" where
  "part_norm p = zmq_msg_init\<lparr>pt_data := pt_data p\<rparr>"

lemma part_norm_simps [simp]:
  "pt_data (part_norm p) = pt_data p" "part_norm (part_norm p) = part_norm p"
  "part_norm (p\<lparr>pt_data := d\<rparr>) = zmq_msg_init\<lparr>pt_data := d\<rparr>"
  by (simp_all add: part_norm_def)

lemma Part_copy_norm [simp]:
  "mem (length (pt_data p)) \<noteq> None \<Longrightarrow> Part_copy mem (part_norm p) = Inr (part_norm p)"
  by (auto simp: Part_copy_def part_norm_def initMessageSize_def zmq_msg_init_size_def
      zmq_msg_init_def zmq_msg_group_def)

text \<open>Topics.\<close>

definition topic_ok :: "Topic \<Rightarrow> bool" where
  "topic_ok t \<longleftrightarrow> uuid_ok (tp_broker t) \<and> uuid_ok (tp_worker t) \<and> name_ok (tp_name t) \<and>
     length (pt_data (tp_data t)) < 2 ^ 64 - 4"

definition topic_norm :: "Topic \<Rightarrow> Topic" where
  "topic_norm t = t\<lparr>tp_data := part_norm (tp_data t)\<rparr>"

definition topic_fields :: "Topic \<Rightarrow> field list" where
  "topic_fields t = [FUInt64 (tp_seqn t), FUInt8 (Topic_Type_int (tp_type t)), FArray (tp_broker t),
     FArray (tp_worker t), FString (Name_str (tp_name t)), FPart (pt_data (tp_data t))]"

lemma Topic_toPart_fields: "Topic_toPart mem a t = pack mem a (topic_fields t)"
  by (cases "tp_type t") (simp_all add: Topic_toPart_def topic_fields_def Let_def)

lemma topic_fields_ok: "topic_ok t \<Longrightarrow> list_all field_ok (topic_fields t)"
  using length_Name_str [of "tp_name t"] by (simp add: topic_ok_def topic_fields_def uuid_ok_def)

lemma Topic_fromPart_toPart:
  assumes mem: "allocator_ok mem" and ord: "wire_order a = wire_order b" and ok: "topic_ok t"
    and alloc: "mem' (length (pt_data (tp_data t))) \<noteq> None" and enc: "Topic_toPart mem a t = Inr p"
  shows "Topic_fromPart mem' b p = Inr (topic_norm t)"
proof -
  have ty: "map type_of (topic_fields t) = Topic_types"
    using ok by (simp add: topic_fields_def Topic_types_def topic_ok_def uuid_ok_def)
  have "list_all (field_alloc mem') (topic_fields t)"
    using alloc by (simp add: topic_fields_def field_alloc_def)
  then have "unpack mem' b Topic_types (pt_data p) = Inr (topic_fields t)"
    using unpack_pack_gen [OF mem topic_fields_ok [OF ok] _ _ ord] enc ty
    by (simp add: Topic_toPart_fields)
  then show ?thesis
    using ok alloc
    by (simp add: Topic_fromPart_def topic_fields_def Topic_new_def topic_norm_def topic_ok_def
        flip: part_norm_def)
qed

lemma Topic_fromPart_data: "pt_data p = pt_data q \<Longrightarrow> Topic_fromPart mem a p = Topic_fromPart mem a q"
  by (simp add: Topic_fromPart_def)

interpretation topic: part_codec Topic_toPart Topic_fromPart topic_ok topic_norm
  "\<lambda>t. [length (pt_data (tp_data t))]"
  by unfold_locales (auto intro: Topic_fromPart_toPart Topic_fromPart_data)

text \<open>Events and operations share their layout.\<close>

lemma enum_part_round:
  assumes mem: "allocator_ok mem" and ord: "wire_order a = wire_order b"
    and len: "length (pt_data q) < 2 ^ 64 - 4"
    and alloc: "mem' (length (pt_data q)) \<noteq> None"
    and enc: "pack mem a [FUInt8 x, FUInt8 y, FPart (pt_data q)] = Inr p"
  shows "unpack mem' b [TUInt8, TUInt8, TPart] (pt_data p) = Inr [FUInt8 x, FUInt8 y, FPart (pt_data q)]"
  using unpack_pack_gen [OF mem _ enc _ ord, of mem'] len alloc by (simp add: field_alloc_def)

definition event_ok :: "Event \<Rightarrow> bool" where
  "event_ok e \<longleftrightarrow> length (pt_data (ev_payload e)) < 2 ^ 64 - 4"

definition event_norm :: "Event \<Rightarrow> Event" where
  "event_norm e = e\<lparr>ev_payload := part_norm (ev_payload e)\<rparr>"

lemma Event_fromPart_toPart:
  assumes mem: "allocator_ok mem" and ord: "wire_order a = wire_order b" and ok: "event_ok e"
    and alloc: "mem' (length (pt_data (ev_payload e))) \<noteq> None" and enc: "Event_toPart mem a e = Inr p"
  shows "Event_fromPart mem' b p = Inr (event_norm e)"
  using enum_part_round [OF mem ord, of "ev_payload e" mem' _ _ p] alloc ok enc
  by (simp add: Event_toPart_def Event_fromPart_def Let_def enum_of_int event_ok_def event_norm_def
      toString_def part_norm_def)

lemma Event_fromPart_data: "pt_data p = pt_data q \<Longrightarrow> Event_fromPart mem a p = Event_fromPart mem a q"
  by (simp add: Event_fromPart_def toString_def)

interpretation event: part_codec Event_toPart Event_fromPart event_ok event_norm
  "\<lambda>e. [length (pt_data (ev_payload e))]"
  by unfold_locales (auto intro: Event_fromPart_toPart Event_fromPart_data)

definition operation_ok :: "Operation \<Rightarrow> bool" where
  "operation_ok e \<longleftrightarrow> length (pt_data (op_payload e)) < 2 ^ 64 - 4"

definition operation_norm :: "Operation \<Rightarrow> Operation" where
  "operation_norm e = e\<lparr>op_payload := part_norm (op_payload e)\<rparr>"

lemma Operation_fromPart_toPart:
  assumes mem: "allocator_ok mem" and ord: "wire_order a = wire_order b" and ok: "operation_ok e"
    and alloc: "mem' (length (pt_data (op_payload e))) \<noteq> None"
    and enc: "Operation_toPart mem a e = Inr p"
  shows "Operation_fromPart mem' b p = Inr (operation_norm e)"
  using enum_part_round [OF mem ord, of "op_payload e" mem' _ _ p] alloc ok enc
  by (simp add: Operation_toPart_def Operation_fromPart_def Let_def enum_of_int operation_ok_def
      operation_norm_def part_norm_def)

lemma Operation_fromPart_data: "pt_data p = pt_data q \<Longrightarrow> Operation_fromPart mem a p = Operation_fromPart mem a q"
  by (simp add: Operation_fromPart_def)

interpretation operation: part_codec Operation_toPart Operation_fromPart operation_ok operation_norm
  "\<lambda>e. [length (pt_data (op_payload e))]"
  by unfold_locales (auto intro: Operation_fromPart_toPart Operation_fromPart_data)

text \<open>Uuids.\<close>

lemma Uuid_fromPart_toPart:
  assumes "allocator_ok mem" and "wire_order a = wire_order b" and "uuid_ok u"
    and "Uuid_toPart mem a u = Inr p"
  shows "Uuid_fromPart mem' b p = Inr u"
  using unpack_pack_gen [OF assms(1), of "[FArray u]" a p mem' b] assms(2-)
  by (simp add: Uuid_toPart_def Uuid_fromPart_def uuid_ok_def field_alloc_def)

lemma Uuid_fromPart_data: "pt_data p = pt_data q \<Longrightarrow> Uuid_fromPart mem a p = Uuid_fromPart mem a q"
  by (simp add: Uuid_fromPart_def)

interpretation uuid: part_codec Uuid_toPart Uuid_fromPart uuid_ok "\<lambda>u. u" "\<lambda>u. []"
  by unfold_locales (auto intro: Uuid_fromPart_toPart Uuid_fromPart_data)

text \<open>Configurations: parts inside the part.\<close>

definition strings_size :: "bytes list \<Rightarrow> nat" where
  "strings_size l = 8 + (\<Sum>s\<leftarrow>l. 4 + length s)"

lemma pack_strings_Inr:
  assumes mem: "allocator_ok mem" and ok: "\<forall>s\<in>set l. length s < 2 ^ 64 - 4"
    and pk: "pack_strings mem a l = Inr d"
  shows "length d = strings_size l" and "length d < 2 ^ 32"
    and "wire_order a = wire_order b \<Longrightarrow> unpack_strings mem' b d = Inr l"
proof -
  obtain p where p: "pack_iter mem a (map FString l) = Inr p" "d = pt_data p"
    using pk by (auto simp: pack_strings_def)
  have fok: "list_all field_ok (map FString l)" using ok by (simp add: list_all_iff)
  have "length (fields_bytes a (map FString l)) = (\<Sum>s\<leftarrow>l. 4 + length s)"
    by (induction l) (simp_all add: string_bytes_def)
  then show "length d = strings_size l" and "length d < 2 ^ 32"
    using pack_iter_Inr [OF mem fok p(1)] p(2) by (simp_all add: strings_size_def iter_bytes_def)
  have str: "map field_string (map FString l) = l" by (induction l) simp_all
  assume "wire_order a = wire_order b"
  then have "unpack_iter mem' b TString d = (map FString l, Inr ())"
    using unpack_pack_iter_gen [OF mem fok p(1), of TString mem' b] p(2)
    by (simp add: list_all_iff field_alloc_def)
  then show "unpack_strings mem' b d = Inr l" by (simp add: unpack_strings_def str del: map_map)
qed

abbreviation strings_ok :: "bytes list \<Rightarrow> bool" where
  "strings_ok l \<equiv> \<forall>s\<in>set l. length s < 2 ^ 64 - 4"

definition worker_config_ok :: "WorkerConfig \<Rightarrow> bool" where
  "worker_config_ok wc \<longleftrightarrow> uuid_ok (wc_uuid wc) \<and> (\<forall>n\<in>set (wc_topicsNames wc). name_ok n) \<and>
     strings_ok (wc_endpDelivery wc) \<and> strings_ok (wc_endpDispatch wc) \<and> strings_ok (wc_endpSnapshot wc)"

definition worker_config_sizes :: "WorkerConfig \<Rightarrow> nat list" where
  "worker_config_sizes wc = [strings_size (map Name_str (wc_topicsNames wc)),
     strings_size (wc_endpDelivery wc), strings_size (wc_endpDispatch wc), strings_size (wc_endpSnapshot wc)]"

lemma names_strings_ok: "\<forall>n\<in>set l. name_ok n \<Longrightarrow> strings_ok (map Name_str l)"
  using length_Name_str by fastforce

lemma names_round: "\<forall>n\<in>set l. name_ok n \<Longrightarrow> map (Name_new \<circ> Name_str) l = l"
  by (induction l) simp_all

lemma WorkerConfig_fromPart_toPart:
  assumes mem: "allocator_ok mem" and ord: "wire_order a = wire_order b" and ok: "worker_config_ok wc"
    and alloc: "\<forall>n\<in>set (worker_config_sizes wc). mem' n \<noteq> None"
    and enc: "WorkerConfig_toPart mem a wc = Inr p"
  shows "WorkerConfig_fromPart mem' b p = Inr wc"
proof -
  obtain d0 d1 d2 d3 where
      d0: "pack_strings mem a (map Name_str (wc_topicsNames wc)) = Inr d0"
    and d1: "pack_strings mem a (wc_endpDelivery wc) = Inr d1"
    and d2: "pack_strings mem a (wc_endpDispatch wc) = Inr d2"
    and d3: "pack_strings mem a (wc_endpSnapshot wc) = Inr d3"
    and pk: "pack mem a [FArray (wc_uuid wc), FUInt64 (wc_seqNum wc), FBool (wc_topicsAll wc),
       FPart d0, FPart d1, FPart d2, FPart d3] = Inr p"
    using enc by (auto simp: WorkerConfig_toPart_def)
  have names: "\<forall>n\<in>set (wc_topicsNames wc). name_ok n" using ok by (simp add: worker_config_ok_def)
  note r0 = pack_strings_Inr [OF mem names_strings_ok [OF names] d0]
  note r1 = pack_strings_Inr [OF mem _ d1] and r2 = pack_strings_Inr [OF mem _ d2]
    and r3 = pack_strings_Inr [OF mem _ d3]
  have "unpack mem' b [TArray 16, TUInt64, TBool, TPart, TPart, TPart, TPart] (pt_data p) =
      Inr [FArray (wc_uuid wc), FUInt64 (wc_seqNum wc), FBool (wc_topicsAll wc),
        FPart d0, FPart d1, FPart d2, FPart d3]"
    using unpack_pack_gen [OF mem _ pk _ ord, of mem'] ok alloc r0(1,2) r1(1,2) r2(1,2) r3(1,2)
    by (simp add: worker_config_ok_def uuid_ok_def field_alloc_def worker_config_sizes_def)
  then show ?thesis
    using ok r0(3) [OF ord] r1(3) [OF _ ord] r2(3) [OF _ ord] r3(3) [OF _ ord] names_round [OF names]
    by (simp add: WorkerConfig_fromPart_def worker_config_ok_def)
qed

lemma WorkerConfig_fromPart_data:
  "pt_data p = pt_data q \<Longrightarrow> WorkerConfig_fromPart mem a p = WorkerConfig_fromPart mem a q"
  by (simp add: WorkerConfig_fromPart_def)

interpretation worker_config: part_codec WorkerConfig_toPart WorkerConfig_fromPart worker_config_ok
  "\<lambda>wc. wc" worker_config_sizes
  by unfold_locales (auto intro: WorkerConfig_fromPart_toPart WorkerConfig_fromPart_data)

definition broker_config_ok :: "BrokerConfig \<Rightarrow> bool" where
  "broker_config_ok cc \<longleftrightarrow> uuid_ok (bc_uuid cc) \<and>
     strings_ok (bc_endpDelivery cc) \<and> strings_ok (bc_endpDispatch cc) \<and> strings_ok (bc_endpSnapshot cc)"

definition broker_config_sizes :: "BrokerConfig \<Rightarrow> nat list" where
  "broker_config_sizes cc =
     [strings_size (bc_endpDelivery cc), strings_size (bc_endpDispatch cc), strings_size (bc_endpSnapshot cc)]"

lemma BrokerConfig_fromPart_toPart:
  assumes mem: "allocator_ok mem" and ord: "wire_order a = wire_order b" and ok: "broker_config_ok cc"
    and alloc: "\<forall>n\<in>set (broker_config_sizes cc). mem' n \<noteq> None"
    and enc: "BrokerConfig_toPart mem a cc = Inr p"
  shows "BrokerConfig_fromPart mem' b p = Inr cc"
proof -
  obtain d1 d2 d3 where
      d1: "pack_strings mem a (bc_endpDelivery cc) = Inr d1"
    and d2: "pack_strings mem a (bc_endpDispatch cc) = Inr d2"
    and d3: "pack_strings mem a (bc_endpSnapshot cc) = Inr d3"
    and pk: "pack mem a [FArray (bc_uuid cc), FPart d1, FPart d2, FPart d3] = Inr p"
    using enc by (auto simp: BrokerConfig_toPart_def)
  note r1 = pack_strings_Inr [OF mem _ d1] and r2 = pack_strings_Inr [OF mem _ d2]
    and r3 = pack_strings_Inr [OF mem _ d3]
  have "unpack mem' b [TArray 16, TPart, TPart, TPart] (pt_data p) =
      Inr [FArray (bc_uuid cc), FPart d1, FPart d2, FPart d3]"
    using unpack_pack_gen [OF mem _ pk _ ord, of mem'] ok alloc r1(1,2) r2(1,2) r3(1,2)
    by (simp add: broker_config_ok_def uuid_ok_def field_alloc_def broker_config_sizes_def)
  then show ?thesis
    using ok r1(3) [OF _ ord] r2(3) [OF _ ord] r3(3) [OF _ ord]
    by (simp add: BrokerConfig_fromPart_def broker_config_ok_def)
qed

lemma BrokerConfig_fromPart_data:
  "pt_data p = pt_data q \<Longrightarrow> BrokerConfig_fromPart mem a p = BrokerConfig_fromPart mem a q"
  by (simp add: BrokerConfig_fromPart_def)

interpretation broker_config: part_codec BrokerConfig_toPart BrokerConfig_fromPart broker_config_ok
  "\<lambda>cc. cc" broker_config_sizes
  by unfold_locales (auto intro: BrokerConfig_fromPart_toPart BrokerConfig_fromPart_data)

section \<open>Patching a packed topic\<close>

lemma Topic_patched:
  assumes mem: "allocator_ok mem" and ok: "topic_ok t" and enc: "Topic_toPart mem a t = Inr p"
  shows "Topic_part_withSeqNum mem a p n = Topic_toPart mem a (withSeqNum n t)"
proof -
  let ?rest = "fields_bytes a (tl (topic_fields t))"
  note pk = pack_Inr_iff [OF mem topic_fields_ok [OF ok], of a p]
  have ok': "topic_ok (withSeqNum n t)" using ok by (simp add: topic_ok_def withSeqNum_def)
  have d: "pt_data p = memcpyWithEndian_put a (tp_seqn t) @ ?rest"
    using pk enc by (simp add: Topic_toPart_fields topic_fields_def)
  have new: "fields_bytes a (topic_fields (withSeqNum n t)) = memcpyWithEndian_put a n @ ?rest"
    by (simp add: topic_fields_def withSeqNum_def)
  have len: "length (fields_bytes a (topic_fields (withSeqNum n t))) =
      length (fields_bytes a (topic_fields t))"
    by (simp add: topic_fields_def withSeqNum_def)
  have short: "list_all field_short (topic_fields (withSeqNum n t)) = list_all field_short (topic_fields t)"
    by (simp add: topic_fields_def withSeqNum_def)
  have "Topic_toPart mem a (withSeqNum n t) =
      Inr (zmq_msg_init\<lparr>pt_data := memcpyWithEndian_put a n @ ?rest\<rparr>)"
    using pk enc pack_Inr_iff [OF mem topic_fields_ok [OF ok']] len short new
    by (simp add: Topic_toPart_fields)
  moreover have "Topic_part_withSeqNum mem a p n =
      Inr (zmq_msg_init\<lparr>pt_data := memcpyWithEndian_put a n @ ?rest\<rparr>)"
    using pk enc d Part_uint_eq [OF mem, of a n]
    by (simp add: Topic_part_withSeqNum_def Topic_toPart_fields write_at_def max_vsm_size_def)
  ultimately show ?thesis by simp
qed

lemma Topic_patched_returns:
  assumes mem: "allocator_ok mem" and ok: "topic_ok t" and enc: "Topic_toPart mem a t = Inr p"
  shows "\<exists>q. Topic_part_withSeqNum mem a p n = Inr q"
proof -
  have "8 \<le> length (pt_data p)"
    using pack_Inr_iff [OF mem topic_fields_ok [OF ok], of a p] enc
    by (simp add: Topic_toPart_fields topic_fields_def)
  then show ?thesis
    using Part_uint_eq [OF mem, of a n] by (simp add: Topic_part_withSeqNum_def max_vsm_size_def)
qed

section \<open>Properties\<close>

text \<open>C24: A topic survives the wire. What one host packs, another with the same wire order decodes to an
  equal topic of the same type, whatever routing id, group and more flag the message carries.\<close>

theorem topic_round_trip:
  assumes "allocator_ok mem" and "wire_order a = wire_order b" and "topic_ok t"
    and "mem' (length (pt_data (tp_data t))) \<noteq> None" and "Topic_toPart mem a t = Inr p"
  shows "\<exists>u. Topic_fromPart mem' b (p\<lparr>pt_routing := r, pt_group := g, pt_more := m\<rparr>) = Inr u \<and>
    Topic_eq u t \<and> tp_type u = tp_type t"
  using topic.dec_transport [OF assms(1-3) _ assms(5), where mem' = mem' and r = r and g = g and m = m] assms(4)
  by (simp add: Topic_eq_def topic_norm_def Name_eq_def Part_eq_def)

definition sample_topic :: Topic where
  "sample_topic = \<lparr>tp_broker = replicate 16 1, tp_worker = replicate 16 2, tp_seqn = 3,
     tp_name = Name_new [116, 49], tp_data = zmq_msg_init\<lparr>pt_data := [7, 8]\<rparr>, tp_type = State\<rparr>"

lemma sample_topic_ok: "topic_ok sample_topic"
  by (simp add: topic_ok_def sample_topic_def uuid_ok_def)

lemma sample_topic_packs: "\<exists>p. Topic_toPart calloc a sample_topic = Inr p"
  using pack_Inr_iff [OF calloc_ok(1) topic_fields_ok [OF sample_topic_ok], of a]
  by (simp add: Topic_toPart_fields topic_fields_def sample_topic_def Name_str_new Name_capacity_def Name_array_def)

lemma topic_round_trip_witness:
  "\<exists>p u. Topic_toPart calloc little sample_topic = Inr p \<and> Topic_fromPart calloc big p = Inr u \<and>
     Topic_eq u sample_topic"
proof -
  obtain p where p: "Topic_toPart calloc little sample_topic = Inr p" using sample_topic_packs by blast
  moreover have "p\<lparr>pt_routing := pt_routing p, pt_group := pt_group p, pt_more := pt_more p\<rparr> = p" by simp
  moreover have "wire_order little = wire_order big" by (simp add: little_def big_def)
  ultimately show ?thesis
    using topic_round_trip [OF calloc_ok(1) _ sample_topic_ok _ p, where mem' = calloc and b = big
        and r = "pt_routing p" and g = "pt_group p" and m = "pt_more p"] by auto
qed

text \<open>Events and operations survive the wire: type, notification and payload are decoded as they
  were encoded.\<close>

theorem event_operation_round_trip:
  assumes "allocator_ok mem" and "wire_order a = wire_order b" and "event_ok e" and "operation_ok op"
    and "mem' (length (pt_data (ev_payload e))) \<noteq> None" and "mem' (length (pt_data (op_payload op))) \<noteq> None"
    and "Event_toPart mem a e = Inr p" and "Operation_toPart mem a op = Inr q"
  shows "(\<exists>e'. Event_fromPart mem' b p = Inr e' \<and> ev_type e' = ev_type e \<and> ev_notif e' = ev_notif e \<and>
      Part_eq (ev_payload e') (ev_payload e)) \<and>
    (\<exists>op'. Operation_fromPart mem' b q = Inr op' \<and> op_type op' = op_type op \<and> op_notif op' = op_notif op \<and>
      Part_eq (op_payload op') (op_payload op))"
  using event.dec_enc [OF assms(1-3) _ assms(7), of mem'] operation.dec_enc [OF assms(1,2,4) _ assms(8), of mem']
    assms(5,6)
  by (simp add: event_norm_def operation_norm_def Part_eq_def)

lemma event_operation_round_trip_witness:
  "\<exists>p e. Event_toPart calloc little \<lparr>ev_type = EvOnline, ev_notif = EvSuccess, ev_payload = zmq_msg_init\<rparr> = Inr p \<and>
     Event_fromPart calloc little p = Inr e \<and> ev_type e = EvOnline"
proof -
  let ?e = "\<lparr>ev_type = EvOnline, ev_notif = EvSuccess, ev_payload = zmq_msg_init\<rparr>"
  let ?o = "\<lparr>op_type = OpStart, op_notif = OpSuccess, op_payload = zmq_msg_init\<rparr>"
  have ok: "event_ok ?e" "operation_ok ?o" by (simp_all add: event_ok_def operation_ok_def zmq_msg_init_def)
  obtain p where p: "Event_toPart calloc little ?e = Inr p"
    using pack_Inr_iff [of calloc "[FUInt8 4, FUInt8 2, FPart []]" little]
    by (simp add: Event_toPart_def enum_int_def enum_count_def Event_Types_def Event_Notifications_def
        zmq_msg_init_def)
  obtain q where q: "Operation_toPart calloc little ?o = Inr q"
    using pack_Inr_iff [of calloc "[FUInt8 1, FUInt8 1, FPart []]" little]
    by (simp add: Operation_toPart_def enum_int_def enum_count_def Operation_Types_def
        Operation_Notifications_def zmq_msg_init_def)
  then show ?thesis
    using event_operation_round_trip [OF calloc_ok(1) refl ok _ _ p, where mem' = calloc] p by auto
qed

text \<open>Configurations survive the wire, with every endpoint list and topic name in order: they are
  parts that hold packed sequences of strings.\<close>

theorem config_round_trip:
  assumes "allocator_ok mem" and "wire_order a = wire_order b"
    and "worker_config_ok wc" and "\<forall>n\<in>set (worker_config_sizes wc). mem' n \<noteq> None"
    and "WorkerConfig_toPart mem a wc = Inr p"
    and "broker_config_ok bc" and "\<forall>n\<in>set (broker_config_sizes bc). mem' n \<noteq> None"
    and "BrokerConfig_toPart mem a bc = Inr q"
  shows "WorkerConfig_fromPart mem' b p = Inr wc \<and> BrokerConfig_fromPart mem' b q = Inr bc"
  using worker_config.dec_enc [OF assms(1-5)] broker_config.dec_enc [OF assms(1,2,6-8)] by simp

definition sample_worker_config :: WorkerConfig where
  "sample_worker_config = \<lparr>wc_uuid = replicate 16 2, wc_seqNum = 5, wc_topicsAll = False,
     wc_topicsNames = [Name_new [65]], wc_endpDelivery = [[66]], wc_endpDispatch = [], wc_endpSnapshot = [[67, 68]]\<rparr>"

definition sample_broker_config :: BrokerConfig where
  "sample_broker_config =
     \<lparr>bc_uuid = replicate 16 1, bc_endpDelivery = [[66]], bc_endpDispatch = [], bc_endpSnapshot = [[67, 68]]\<rparr>"

lemma sample_configs_ok: "worker_config_ok sample_worker_config" "broker_config_ok sample_broker_config"
  by (simp_all add: worker_config_ok_def broker_config_ok_def sample_worker_config_def sample_broker_config_def
      uuid_ok_def)

lemma pack_strings_calloc:
  assumes "8 + (\<Sum>s\<leftarrow>l. 4 + length s) < 2 ^ 32" and "length l < 2 ^ 32"
  shows "\<exists>d. pack_strings calloc a l = Inr d \<and> length d = strings_size l"
proof -
  have small: "length s < 2 ^ 32 - 12" if "s \<in> set l" for s
    using member_le_sum_list [of "4 + length s" "map (\<lambda>s. 4 + length s) l"] that assms(1) by auto
  have ok: "list_all field_ok (map FString l)" "list_all field_short (map FString l)"
    using small by (fastforce simp: list_all_iff)+
  have "length (fields_bytes a (map FString l)) = (\<Sum>s\<leftarrow>l. 4 + length s)" by (induction l) simp_all
  then show ?thesis
    using pack_iter_Inr_iff [OF calloc_ok(1) ok(1), of a] ok(2) assms
    by (simp add: pack_strings_def strings_size_def iter_bytes_def)
qed

lemma sample_configs_pack:
  "\<exists>p. WorkerConfig_toPart calloc a sample_worker_config = Inr p \<and> group_ok p \<and> length (pt_data p) = 89"
  "\<exists>q. BrokerConfig_toPart calloc a sample_broker_config = Inr q"
  "\<exists>p. WorkerConfig_toPart calloc a (sample_worker_config\<lparr>wc_seqNum := n\<rparr>) = Inr p \<and> group_ok p \<and> length (pt_data p) = 89"
proof -
  obtain d0 d1 d2 d3 where d: "pack_strings calloc a [[65]] = Inr d0" "pack_strings calloc a [[66]] = Inr d1"
      "pack_strings calloc a [] = Inr d2" "pack_strings calloc a [[67, 68]] = Inr d3"
    and l: "length d0 = 13" "length d1 = 13" "length d2 = 8" "length d3 = 14"
    using pack_strings_calloc [of "[[65]]" a] pack_strings_calloc [of "[[66]]" a]
      pack_strings_calloc [of "[]" a] pack_strings_calloc [of "[[67, 68]]" a]
    by (auto simp: strings_size_def)
  have w: "\<exists>p. WorkerConfig_toPart calloc a (sample_worker_config\<lparr>wc_seqNum := n\<rparr>) = Inr p \<and> group_ok p \<and> length (pt_data p) = 89"
    for n
    using pack_Inr_iff [of calloc "[FArray (replicate 16 2), FUInt64 n, FBool False, FPart d0, FPart d1, FPart d2, FPart d3]" a] d l
    by (simp add: WorkerConfig_toPart_def sample_worker_config_def Name_str_new Name_capacity_def Name_array_def
        group_ok_def zmq_msg_init_def zmq_msg_group_def)
  then show "\<exists>p. WorkerConfig_toPart calloc a (sample_worker_config\<lparr>wc_seqNum := n\<rparr>) = Inr p \<and> group_ok p \<and> length (pt_data p) = 89" .
  have "sample_worker_config\<lparr>wc_seqNum := 5\<rparr> = sample_worker_config" by (simp add: sample_worker_config_def)
  then show "\<exists>p. WorkerConfig_toPart calloc a sample_worker_config = Inr p \<and> group_ok p \<and> length (pt_data p) = 89"
    using w [of 5] by simp
  show "\<exists>q. BrokerConfig_toPart calloc a sample_broker_config = Inr q"
    using pack_Inr_iff [of calloc "[FArray (replicate 16 1), FPart d1, FPart d2, FPart d3]" a] d l
    by (simp add: BrokerConfig_toPart_def sample_broker_config_def)
qed

lemma config_round_trip_witness:
  "\<exists>p. WorkerConfig_toPart calloc big sample_worker_config = Inr p \<and>
     WorkerConfig_fromPart calloc big p = Inr sample_worker_config"
proof -
  obtain p q where "WorkerConfig_toPart calloc big sample_worker_config = Inr p"
    "BrokerConfig_toPart calloc big sample_broker_config = Inr q"
    using sample_configs_pack by blast
  then show ?thesis
    using config_round_trip [OF calloc_ok(1) refl sample_configs_ok(1) _ _ sample_configs_ok(2), where mem' = calloc]
    by auto
qed

text \<open>Patching the sequence number of a packed topic gives exactly the bytes of the topic packed with
  that sequence number, so the worker never has to unpack what it dispatches.\<close>

theorem topic_patch:
  assumes "allocator_ok mem" and "topic_ok t" and "Topic_toPart mem a t = Inr p"
  shows "Topic_part_withSeqNum mem a p n = Topic_toPart mem a (withSeqNum n t)"
  using assms by (rule Topic_patched)

lemma topic_patch_witness:
  "\<exists>p. Topic_toPart calloc little sample_topic = Inr p \<and>
     Topic_part_withSeqNum calloc little p 9 = Topic_toPart calloc little (withSeqNum 9 sample_topic)"
  using topic_patch [OF calloc_ok(1) sample_topic_ok, of little _ 9] sample_topic_packs [of little] by auto

lemma c_str_zeros: "c_str (xs @ replicate n 0) = c_str xs"
  by (induction xs; cases n) (simp_all add: c_str_def)

text \<open>Topic names. A name keeps the first 255 bytes of the string it is made from, always leaves room
  for the terminator, is determined by its string, and is always accepted as the group of a
  message, which is how a topic reaches the workers that joined it.\<close>

theorem topic_name_group:
  assumes "pt_group p = SGroup g"
  shows "Name_str (Name_new s) = take 255 s \<and> name_ok (Name_new s) \<and>
    (Name_eq (Name_new s) (Name_new s') \<longleftrightarrow> take 255 s = take 255 s') \<and>
    (\<exists>q. withGroup (Some (nm_dd (Name_new s))) p = Inr q \<and> zmq_msg_group q = c_str (take 255 s) \<and>
       pt_data q = pt_data p \<and> pt_routing q = pt_routing p)"
proof -
  have str: "Name_str (Name_new s) = take 255 s" for s
    by (simp add: Name_str_new Name_capacity_def Name_array_def)
  have "Name_eq (Name_new s) (Name_new s') \<longleftrightarrow> take 255 s = take 255 s'"
    using Name_str_inj [of "Name_new s" "Name_new s'"] str by (auto simp: Name_eq_def intro: Name.equality)
  moreover have c: "c_str (nm_dd (Name_new s)) = c_str (take 255 s)"
    using c_str_zeros [of "take 255 s" 1] c_str_zeros [of s]
    by (simp add: Name_new_def Let_def Name_capacity_def Name_array_def min_def)
  moreover have "length (c_str (take 255 s)) \<le> 255"
    using length_takeWhile_le [of "\<lambda>b. b \<noteq> 0" "take 255 s"] by (simp add: c_str_def)
  then have "\<exists>q. withGroup (Some (nm_dd (Name_new s))) p = Inr q \<and> zmq_msg_group q = c_str (take 255 s) \<and>
       pt_data q = pt_data p \<and> pt_routing q = pt_routing p"
    using setGroup_spec [of "nm_dd (Name_new s)" p] assms c by (auto simp: withGroup_def)
  ultimately show ?thesis using str by simp
qed

lemma topic_name_group_witness:
  "\<exists>q. withGroup (Some (nm_dd (Name_new [65, 66]))) zmq_msg_init = Inr q \<and> zmq_msg_group q = [65, 66]"
  using topic_name_group [of zmq_msg_init _ "[65, 66]" "[]"] by (auto simp: zmq_msg_init_def c_str_def)

text \<open>A topic type out of range. The byte for the type is the only part of a topic that is checked by
  an assertion: bytes that unpack with a type other than 0 and 1 abort the process instead of
  raising an error, so a peer that sends them stops the receiver.\<close>

theorem topic_bad_type_aborts:
  assumes "allocator_ok mem" and "list_all field_ok fs"
    and "fs = [FUInt64 n, FUInt8 ty, FArray b, FArray w, FString nm, FPart d]" and "uuid_ok b" and "uuid_ok w"
    and "mem' (length d) \<noteq> None" and "wire_order a = wire_order a'" and "pack mem a fs = Inr p"
  shows "(\<exists>m. Topic_fromPart mem' a' p = Inl (Abort m)) \<longleftrightarrow> 1 < ty"
proof -
  have "unpack mem' a' (map type_of fs) (pt_data p) = Inr fs"
    using assms by (intro unpack_pack_gen [OF assms(1,2,8)]) (simp_all add: field_alloc_def)
  then have "unpack mem' a' Topic_types (pt_data p) = Inr fs"
    using assms(3-5) by (simp add: Topic_types_def uuid_ok_def)
  moreover have "Part_copy mem' (zmq_msg_init\<lparr>pt_data := d\<rparr>) = Inr (zmq_msg_init\<lparr>pt_data := d\<rparr>)"
    using assms(6) Part_copy_norm [of mem' "zmq_msg_init\<lparr>pt_data := d\<rparr>"] by (simp add: part_norm_def)
  ultimately show ?thesis
    using assms(3) by (auto simp: Topic_fromPart_def Topic_new_def ASSERT_def)
qed

lemma topic_bad_type_aborts_witness:
  "\<exists>p m. pack calloc little [FUInt64 1, FUInt8 2, FArray (replicate 16 0), FArray (replicate 16 0), FString [], FPart []]
      = Inr p \<and> Topic_fromPart calloc little p = Inl (Abort m)"
proof -
  let ?fs = "[FUInt64 1, FUInt8 2, FArray (replicate 16 0), FArray (replicate 16 0), FString [], FPart []]"
  have ok: "list_all field_ok ?fs" by simp
  obtain p where p: "pack calloc little ?fs = Inr p"
    using pack_Inr_iff [OF calloc_ok(1) ok, of little] by simp
  then show ?thesis
    using topic_bad_type_aborts [OF calloc_ok(1) ok refl _ _ calloc_ok(2) refl p] by (simp add: uuid_ok_def)
qed

end
