(* ===== verification/Fuurin_Timer.thy ===== *)
theory Fuurin_Timer
  imports Fuurin_Prelude
begin

text \<open>
  Timers: \<^verbatim>\<open>src/zmqtimer.cpp\<close> and the half that runs in the I/O thread,
  \<^verbatim>\<open>src/zmqiotimer.cpp\<close>. A timer owns a promise that the I/O half fulfils when it is over, and
  a pair of conflated sockets on which an expiry leaves at most one notification. The I/O thread
  executes what is posted to it in order.
\<close>

section \<open>The I/O half\<close>

text \<open>
  \<open>io_waits\<close>: an asynchronous wait is outstanding, its handler is yet to run; \<open>io_min\<close>: the expiry
  time was set to the minimum by a cancel; \<open>io_promise\<close>: the promise has been fulfilled.
\<close>

record IOSteadyTimer =
  io_interval :: int
  io_singleshot :: bool
  io_waits :: bool
  io_min :: bool
  io_promise :: bool

definition makeIOSteadyTimer :: "int \<Rightarrow> bool \<Rightarrow> IOSteadyTimer" where
  "makeIOSteadyTimer interval singleshot =
     \<lparr>io_interval = interval, io_singleshot = singleshot, io_waits = False, io_min = False,
      io_promise = False\<rparr>"

definition timerStart :: "IOSteadyTimer \<Rightarrow> IOSteadyTimer" where
  "timerStart io = io\<lparr>io_min := False, io_waits := True\<rparr>"

definition timerCancel :: "IOSteadyTimer \<Rightarrow> IOSteadyTimer" where
  "timerCancel io = io\<lparr>io_min := True\<rparr>"

text \<open>
  The handler of the wait, with the error code of the wait; whether it sent a notification. The
  scope guard fulfils the promise unless the timer was armed again.
\<close>

definition timerFired :: "bool \<Rightarrow> IOSteadyTimer \<Rightarrow> bool \<times> IOSteadyTimer" where
  "timerFired ec io =
     (if ec then (False, io\<lparr>io_waits := False, io_promise := True\<rparr>)
      else if io_min io then (False, io\<lparr>io_waits := False, io_promise := True\<rparr>)
      else if io_singleshot io then (True, io\<lparr>io_waits := False, io_promise := True\<rparr>)
      else (True, io\<lparr>io_waits := True\<rparr>))"

section \<open>The timer\<close>

datatype future = FInvalid | FValid

record Timer =
  tm_interval :: int
  tm_singleshot :: bool
  tm_io :: "IOSteadyTimer option"
  tm_future :: future
  tm_pending :: bool

definition Timer_new :: Timer where
  "Timer_new = \<lparr>tm_interval = 0, tm_singleshot = False, tm_io = None, tm_future = FInvalid,
     tm_pending = False\<rparr>"

definition Timer_setInterval :: "int \<Rightarrow> Timer \<Rightarrow> Timer" where
  "Timer_setInterval v t = t\<lparr>tm_interval := if v < 0 then 0 else v\<rparr>"

definition Timer_setSingleShot :: "bool \<Rightarrow> Timer \<Rightarrow> Timer" where
  "Timer_setSingleShot v t = t\<lparr>tm_singleshot := v\<rparr>"

text \<open>
  What the I/O thread does when the cancel is posted: the wait, if one is outstanding, is cancelled
  and its handler runs, with the error of the cancel or, when it was already queued, without.
\<close>

definition io_cancelled :: "bool \<Rightarrow> IOSteadyTimer \<Rightarrow> IOSteadyTimer" where
  "io_cancelled queued io =
     (let io' = timerCancel io in if io_waits io' then snd (timerFired (\<not> queued) io') else io')"

text \<open>
  \<^verbatim>\<open>stop\<close> returns only when the promise is fulfilled, see \<open>Timer_stop_returns\<close>; a notification
  that is already in the socket stays there.
\<close>

definition Timer_stop :: "Timer \<Rightarrow> Timer" where
  "Timer_stop t =
     (case tm_io t of
        None \<Rightarrow> t
      | Some io \<Rightarrow> t\<lparr>tm_future := FInvalid, tm_io := None\<rparr>)"

definition Timer_start :: "Timer \<Rightarrow> Timer" where
  "Timer_start t =
     (let t1 = Timer_stop t;
          io = makeIOSteadyTimer (tm_interval t1) (tm_singleshot t1)
      in t1\<lparr>tm_future := FValid, tm_io := Some (timerStart io)\<rparr>)"

definition Timer_consume :: "Timer \<Rightarrow> Timer" where
  "Timer_consume t = t\<lparr>tm_pending := False\<rparr>"

definition Timer_isExpired :: "Timer \<Rightarrow> bool" where
  "Timer_isExpired t = tm_pending t"

definition Timer_isActive :: "Timer \<Rightarrow> bool" where
  "Timer_isActive t =
     (tm_future t = FValid \<and> (case tm_io t of None \<Rightarrow> False | Some io \<Rightarrow> \<not> io_promise io))"

text \<open>The clock: the wait of a running timer ends, and the handler runs in the I/O thread.\<close>

definition Timer_fire :: "Timer \<Rightarrow> Timer" where
  "Timer_fire t =
     (case tm_io t of
        None \<Rightarrow> t
      | Some io \<Rightarrow>
          if io_waits io
          then (let (sent, io') = timerFired False io
                in t\<lparr>tm_io := Some io', tm_pending := (tm_pending t \<or> sent)\<rparr>)
          else t)"

text \<open>What the machines do first when told that a timer fired.\<close>

definition Timer_take :: "Timer \<Rightarrow> Timer" where
  "Timer_take t = (if Timer_isExpired t then Timer_consume t else t)"

section \<open>Invariant\<close>

text \<open>
  While there is an I/O half, either its wait is outstanding or the promise is fulfilled, and a
  fulfilled promise of a timer that is not being stopped means that a single shot went off.
\<close>

definition timer_inv :: "Timer \<Rightarrow> bool" where
  "timer_inv t =
     (case tm_io t of
        None \<Rightarrow> tm_future t = FInvalid
      | Some io \<Rightarrow> tm_future t = FValid \<and> \<not> io_min io \<and> (io_waits io \<longleftrightarrow> \<not> io_promise io) \<and>
                   (io_promise io \<longrightarrow> io_singleshot io) \<and> io_singleshot io = tm_singleshot t)"

named_theorems timer_defs \<open>unfolding of the timer operations\<close>

lemmas timer_op_defs [timer_defs] =
  Timer_stop_def Timer_start_def Timer_consume_def Timer_isExpired_def Timer_isActive_def
  Timer_fire_def Timer_take_def timerFired_def timerStart_def makeIOSteadyTimer_def

lemma timer_inv_new [simp]: "timer_inv Timer_new"
  by (simp add: timer_inv_def Timer_new_def)

lemma timer_inv_ops [simp, intro]:
  assumes "timer_inv t"
  shows "timer_inv (Timer_start t)" "timer_inv (Timer_stop t)" "timer_inv (Timer_consume t)"
    "timer_inv (Timer_take t)" "timer_inv (Timer_fire t)" "timer_inv (Timer_setInterval v t)"
    and "tm_io t = None \<Longrightarrow> timer_inv (Timer_setSingleShot b t)"
  using assms
  by (auto simp: timer_inv_def timer_defs Timer_setInterval_def Timer_setSingleShot_def Let_def
      split: option.splits)

text \<open>Waiting for the promise in \<^verbatim>\<open>stop\<close> always ends, whichever way the handler is run.\<close>

lemma Timer_stop_returns:
  "timer_inv t \<Longrightarrow> tm_io t = Some io \<Longrightarrow> io_promise (io_cancelled queued io)"
  by (auto simp: timer_inv_def io_cancelled_def timerCancel_def timerFired_def Let_def)

lemma Timer_active_simps [simp]:
  "Timer_isActive (Timer_start t)"
  "Timer_isActive (Timer_take t) = Timer_isActive t"
  "Timer_isExpired (Timer_start t) = Timer_isExpired t"
  "Timer_isExpired (Timer_stop t) = Timer_isExpired t"
  "\<not> Timer_isExpired (Timer_take t)"
  by (auto simp: timer_defs Let_def split: option.splits)

lemma Timer_stop_inactive [simp]: "timer_inv t \<Longrightarrow> \<not> Timer_isActive (Timer_stop t)"
  by (auto simp: timer_inv_def timer_defs split: option.splits)

lemma Timer_singleshot_simps [simp]:
  "tm_singleshot (Timer_start t) = tm_singleshot t" "tm_singleshot (Timer_stop t) = tm_singleshot t"
  "tm_singleshot (Timer_take t) = tm_singleshot t" "tm_singleshot (Timer_fire t) = tm_singleshot t"
  by (auto simp: timer_defs Let_def split: option.splits)

text \<open>An expiry leaves a notification; a periodic timer stays active, a single shot does not.\<close>

lemma Timer_fire_active:
  assumes "timer_inv t" and "Timer_isActive t"
  shows "Timer_isExpired (Timer_fire t)" and "Timer_isActive (Timer_fire t) \<longleftrightarrow> \<not> tm_singleshot t"
  using assms by (auto simp: timer_inv_def timer_defs split: option.splits)

lemma Timer_fire_inactive:
  "timer_inv t \<Longrightarrow> \<not> Timer_isActive t \<Longrightarrow> Timer_fire t = t"
  by (auto simp: timer_inv_def timer_defs split: option.splits)

section \<open>Properties\<close>

text \<open>Stopping a timer ends. The wait for the promise in stop returns whether the cancel reaches the
  wait in time or finds its handler already queued; a running timer that expires leaves a
  notification and, when periodic, goes on running.\<close>

theorem timer_stop_ends:
  assumes "timer_inv t"
  shows "(\<forall>io queued. tm_io t = Some io \<longrightarrow> io_promise (io_cancelled queued io)) \<and>
    \<not> Timer_isActive (Timer_stop t) \<and> timer_inv (Timer_stop t) \<and> timer_inv (Timer_start t) \<and>
    Timer_isActive (Timer_start t) \<and>
    (Timer_isActive t \<longrightarrow> Timer_isExpired (Timer_fire t) \<and> (Timer_isActive (Timer_fire t) \<longleftrightarrow> \<not> tm_singleshot t))"
  using assms Timer_stop_returns Timer_fire_active by auto

lemma timer_stop_ends_witness:
  "io_promise (io_cancelled True (the (tm_io (Timer_start Timer_new))))"
proof -
  have "tm_io (Timer_start Timer_new) = Some (the (tm_io (Timer_start Timer_new)))"
    by (simp add: Timer_start_def Let_def)
  then show ?thesis
    using timer_stop_ends [OF timer_inv_ops(1) [OF timer_inv_new]] by blast
qed

end
