(* ===== verification/Fuurin_Net.thy ===== *)
theory Fuurin_Net
  imports Fuurin_Messages Fuurin_Timer
begin

text \<open>
  The sockets of \<^verbatim>\<open>src/zmqsocket.cpp\<close> as the sessions use them: endpoints and groups are set,
  the socket is opened (connected or bound) and closed, parts are sent with or without blocking.
  What the network answers is a parameter, indexed by the number of calls made so far; the parts
  that were taken are recorded in order.
\<close>

section \<open>Constants\<close>

definition BrokerHugz :: bytes where "BrokerHugz = str ''HUGZ''"
definition WorkerHugz :: bytes where "WorkerHugz = str ''HUGZ''"
definition BrokerUpdt :: bytes where "BrokerUpdt = str ''UPDT''"
definition WorkerUpdt :: bytes where "WorkerUpdt = str ''UPDT''"
definition BrokerSyncReqst :: bytes where "BrokerSyncReqst = str ''SYNC''"
definition BrokerSyncBegin :: bytes where "BrokerSyncBegin = str ''BEGN''"
definition BrokerSyncElemn :: bytes where "BrokerSyncElemn = str ''ELEM''"
definition BrokerSyncCompl :: bytes where "BrokerSyncCompl = str ''SONC''"
definition GROUP_EVENTS :: bytes where "GROUP_EVENTS = str ''EVN''"

definition ENOTSOCK :: int where "ENOTSOCK = 88"

lemmas session_env = BrokerHugz_def WorkerHugz_def BrokerUpdt_def WorkerUpdt_def
  BrokerSyncReqst_def BrokerSyncBegin_def BrokerSyncElemn_def BrokerSyncCompl_def GROUP_EVENTS_def

section \<open>The network\<close>

datatype send_result = Sent | WouldBlock | SendError int

text \<open>The answer to the n-th send and to the n-th opening of a socket.\<close>

record net =
  nt_send :: "nat \<Rightarrow> send_result"
  nt_open :: "nat \<Rightarrow> fault option"

datatype chan = ChSnapshot | ChDispatch | ChEvents | ChSeqs | ChFin | ChOps | ChPool

record io =
  io_sends :: nat
  io_opens :: nat
  io_sent :: "(chan \<times> Part) list"

definition io_init :: io where
  "io_init = \<lparr>io_sends = 0, io_opens = 0, io_sent = []\<rparr>"

section \<open>Sockets\<close>

record Socket =
  sk_endpoints :: "bytes list"
  sk_groups :: "bytes list"
  sk_open :: bool

definition Socket_new :: Socket where
  "Socket_new = \<lparr>sk_endpoints = [], sk_groups = [], sk_open = False\<rparr>"

text \<open>
  \<^verbatim>\<open>Socket::open\<close>: a socket that fails to open is closed again before the error leaves.
\<close>

definition Socket_open :: "net \<Rightarrow> Socket \<Rightarrow> io \<Rightarrow> unit result \<times> Socket \<times> io" where
  "Socket_open net s i =
     (if sk_open s then (Inl (Throw ZMQSocketCreateFailed ''could not open socket'' 0), s, i)
      else let i' = i\<lparr>io_opens := Suc (io_opens i)\<rparr> in
        (case nt_open net (io_opens i) of
           Some e \<Rightarrow> (Inl e, s, i')
         | None \<Rightarrow> (Inr (), s\<lparr>sk_open := True\<rparr>, i')))"

definition Socket_close :: "Socket \<Rightarrow> Socket" where
  "Socket_close s = s\<lparr>sk_open := False\<rparr>"

text \<open>
  Sending one part, \<^verbatim>\<open>sendMessagePart\<close>: an error other than \<^verbatim>\<open>EAGAIN\<close> is thrown, that one is
  the result -1. Sending on a closed socket is an error of the library.
\<close>

definition sendMessagePart :: "net \<Rightarrow> chan \<Rightarrow> bool \<Rightarrow> Part \<Rightarrow> (io, int) action" where
  "sendMessagePart net ch isopen p i =
     (if \<not> isopen
      then (Inl (Throw ZMQSocketSendFailed ''could not send message part'' ENOTSOCK), i)
      else let i' = i\<lparr>io_sends := Suc (io_sends i)\<rparr> in
        (case nt_send net (io_sends i) of
           Sent \<Rightarrow> (Inr (int (length (pt_data p))), i'\<lparr>io_sent := io_sent i @ [(ch, p)]\<rparr>)
         | WouldBlock \<Rightarrow> (Inr (- 1), i')
         | SendError e \<Rightarrow>
             (Inl (Throw ZMQSocketSendFailed ''could not send message part'' e), i')))"

text \<open>
  Receiving one part, \<^verbatim>\<open>recvMessagePart\<close>: the number of bytes and the part, which is left as it was
  when there is no message and the result is -1.
\<close>

datatype recv_result = Received Part | NoMessage | RecvError int

definition recvMessagePart :: "recv_result \<Rightarrow> Part \<Rightarrow> (int \<times> Part) result" where
  "recvMessagePart ans p =
     (case ans of
        Received q \<Rightarrow> Inr (int (length (pt_data q)), q)
      | NoMessage \<Rightarrow> Inr (- 1, p)
      | RecvError e \<Rightarrow> Inl (Throw ZMQSocketRecvFailed ''could not recv message part'' e))"

section \<open>Session events\<close>

text \<open>The parameters of a session: memory, platform and network.\<close>

record env =
  en_mem :: allocator
  en_arch :: arch
  en_net :: net

text \<open>
  The constructors of an event are \<^verbatim>\<open>noexcept\<close>: an error while copying the payload ends the
  process.
\<close>

definition Event_new :: "env \<Rightarrow> Event_Type \<Rightarrow> Event_Notification \<Rightarrow> Part \<Rightarrow> Event result" where
  "Event_new P ty nt pay =
     (case Part_copy (en_mem P) pay of
        Inl e \<Rightarrow> Inl (Abort ''exception in a noexcept function'')
      | Inr d \<Rightarrow> Inr \<lparr>ev_type = ty, ev_notif = nt, ev_payload = d\<rparr>)"

text \<open>\<^verbatim>\<open>Session::sendEvent\<close>: token and event in one part, in the group of events.\<close>

definition event_part :: "env \<Rightarrow> u8 \<Rightarrow> Event_Type \<Rightarrow> Part \<Rightarrow> Part result" where
  "event_part P tok ev pay =
     bindR (Event_new P ev EvSuccess pay) (\<lambda>e0.
     bindR (Event_toPart (en_mem P) (en_arch P) e0) (\<lambda>e.
     bindR (pack (en_mem P) (en_arch P) [FUInt8 tok, FPart (pt_data e)]) (\<lambda>p.
     withGroup (Some GROUP_EVENTS) p)))"

definition session_sendEvent :: "env \<Rightarrow> u8 \<Rightarrow> Event_Type \<Rightarrow> Part \<Rightarrow> (io, unit) action" where
  "session_sendEvent P tok ev pay =
     bindA (liftA (event_part P tok ev pay)) (\<lambda>p.
     thenA (sendMessagePart (en_net P) ChEvents True p) (retA ()))"

text \<open>
  \<^verbatim>\<open>Session::recvOperation\<close>, on the two parts received: an operation of another token is to be
  discarded. It does not throw: an exception is a fatal log, which ends the process.
\<close>

definition Operation_empty :: Operation where
  "Operation_empty = \<lparr>op_type = OpInvalid, op_notif = OpDiscard, op_payload = zmq_msg_init\<rparr>"

definition recvOperation :: "env \<Rightarrow> u8 \<Rightarrow> Part \<Rightarrow> Part \<Rightarrow> Operation result" where
  "recvOperation P token tok oper =
     (case Operation_fromPart (en_mem P) (en_arch P) oper of
        Inr o1 \<Rightarrow> Inr (o1\<lparr>op_notif := if toUint8 (en_arch P) tok = token then OpSuccess else OpDiscard\<rparr>)
      | Inl (Abort msg) \<Rightarrow> Inl (Abort msg)
      | Inl (Throw _ _ _) \<Rightarrow> LOG_FATAL ''operation recv threw exception'')"

text \<open>An environment for the examples: memory, and a network that takes everything.\<close>

definition sample_env :: env where
  "sample_env = \<lparr>en_mem = calloc, en_arch = little, en_net = \<lparr>nt_send = (\<lambda>_. Sent), nt_open = (\<lambda>_. None)\<rparr>\<rparr>"

lemma sample_env_simps [simp]:
  "en_mem sample_env = calloc" "en_arch sample_env = little" "nt_send (en_net sample_env) n = Sent"
  "nt_open (en_net sample_env) n = None"
  by (simp_all add: sample_env_def)

section \<open>Events on the wire\<close>

text \<open>
  What a session sends as an event is decoded as its token, its type and its payload; and it can be
  sent when there is memory.
\<close>

lemma event_part_decode:
  assumes mem: "allocator_ok (en_mem P)" and ord: "wire_order (en_arch P) = wire_order b"
    and grp: "group_ok pay" and len: "length (pt_data pay) < 2 ^ 32" and p: "event_part P tok ev pay = Inr p"
    and alloc: "mem' (length (pt_data pay)) \<noteq> None"
  obtains d where "zmq_msg_group p = GROUP_EVENTS" "group_ok p"
    "unpack mem' b [TUInt8, TString] (pt_data p) = Inr [FUInt8 tok, FString d]"
    "Event_fromPart mem' b (zmq_msg_init\<lparr>pt_data := d\<rparr>) =
       Inr \<lparr>ev_type = ev, ev_notif = EvSuccess, ev_payload = zmq_msg_init\<lparr>pt_data := pt_data pay\<rparr>\<rparr>"
proof -
  obtain e0 e q where e0: "Event_new P ev EvSuccess pay = Inr e0" and e: "Event_toPart (en_mem P) (en_arch P) e0 = Inr e"
    and q: "pack (en_mem P) (en_arch P) [FUInt8 tok, FPart (pt_data e)] = Inr q"
    and g: "withGroup (Some GROUP_EVENTS) q = Inr p"
    using p by (auto simp: event_part_def)
  have pay: "ev_type e0 = ev" "ev_notif e0 = EvSuccess" "pt_data (ev_payload e0) = pt_data pay"
    using e0 Part_copy_spec [OF grp] by (auto simp: Event_new_def split: sum.splits)
  have elen: "length (pt_data e) < 2 ^ 64 - 4"
    using e len pay pack_Inr_iff [OF mem, of "[FUInt8 _, FUInt8 _, FPart (pt_data (ev_payload e0))]" "en_arch P" e]
    by (auto simp: Event_toPart_def Let_def)
  have qd: "pack (en_mem P) (en_arch P) [FUInt8 tok, FString (pt_data e)] = Inr q" "pt_group q = SGroup []"
    using q elen pack_Inr_iff [OF mem, of "[FUInt8 tok, FPart (pt_data e)]" "en_arch P" q]
      pack_Inr_iff [OF mem, of "[FUInt8 tok, FString (pt_data e)]" "en_arch P" q]
    by (auto simp: zmq_msg_init_def)
  have p': "zmq_msg_group p = GROUP_EVENTS" "group_ok p" "pt_data p = pt_data q"
    using setGroup_spec [of GROUP_EVENTS q] qd(2) g
    by (auto simp: withGroup_def session_env str_def c_str_def)
  have u: "unpack mem' b [TUInt8, TString] (pt_data p) = Inr [FUInt8 tok, FString (pt_data e)]"
    using unpack_pack_gen [OF mem _ qd(1) _ ord, of mem'] elen p'(3) by (simp add: field_alloc_def)
  have "Event_fromPart mem' b e = Inr (event_norm e0)"
    using event.dec_enc [OF mem ord _ _ e, of mem'] pay len alloc by (simp add: event_ok_def)
  then have "Event_fromPart mem' b (zmq_msg_init\<lparr>pt_data := pt_data e\<rparr>) = Inr (event_norm e0)"
    using Event_fromPart_data [of "zmq_msg_init\<lparr>pt_data := pt_data e\<rparr>" e] by simp
  moreover have "event_norm e0 = \<lparr>ev_type = ev, ev_notif = EvSuccess, ev_payload = zmq_msg_init\<lparr>pt_data := pt_data pay\<rparr>\<rparr>"
    using pay by (cases e0) (simp add: event_norm_def part_norm_def)
  ultimately show thesis using that [OF p'(1,2) u] by simp
qed

lemma event_part_returns:
  assumes mem: "allocator_ok (en_mem P)" and all: "\<forall>n. en_mem P n \<noteq> None"
    and grp: "group_ok pay" and len: "length (pt_data pay) < 2 ^ 31"
  shows "\<exists>p. event_part P tok ev pay = Inr p"
proof -
  obtain q where q: "Part_copy (en_mem P) pay = Inr q" using Part_copy_returns [OF grp, of "en_mem P"] all by blast
  have qd: "pt_data q = pt_data pay" using Part_copy_spec [OF grp q] by simp
  let ?e = "\<lparr>ev_type = ev, ev_notif = EvSuccess, ev_payload = q\<rparr>"
  have e0: "Event_new P ev EvSuccess pay = Inr ?e" using q by (simp add: Event_new_def)
  obtain e where e: "Event_toPart (en_mem P) (en_arch P) ?e = Inr e" and el: "length (pt_data e) = 6 + length (pt_data pay)"
    using pack_Inr_iff [OF mem, of "[FUInt8 (enum_int Event_Types ev), FUInt8 (enum_int Event_Notifications EvSuccess), FPart (pt_data q)]" "en_arch P"] len all qd
    by (cases ev) (auto simp: Event_toPart_def Let_def enum_int_def enum_count_def Event_Types_def Event_Notifications_def)
  obtain r where r: "pack (en_mem P) (en_arch P) [FUInt8 tok, FPart (pt_data e)] = Inr r" "pt_group r = SGroup []"
    using pack_Inr_iff [OF mem, of "[FUInt8 tok, FPart (pt_data e)]" "en_arch P"] el len all
    by (auto simp: zmq_msg_init_def)
  obtain p where "withGroup (Some GROUP_EVENTS) r = Inr p"
    using setGroup_spec [of GROUP_EVENTS r] r(2) by (auto simp: withGroup_def session_env str_def c_str_def)
  then show ?thesis using e0 e r(1) by (simp add: event_part_def)
qed

text \<open>The same for the two parts of an operation.\<close>

lemma operation_part_returns:
  assumes mem: "allocator_ok mem" and all: "\<forall>n. mem n \<noteq> None" and len: "length (pt_data (op_payload o1)) < 2 ^ 31"
  shows "\<exists>p. Operation_toPart mem a o1 = Inr p"
  using pack_Inr_iff [OF mem, of "[FUInt8 (enum_int Operation_Types (op_type o1)),
      FUInt8 (enum_int Operation_Notifications (op_notif o1)), FPart (pt_data (op_payload o1))]" a] len all
  by (cases "op_type o1"; cases "op_notif o1")
    (auto simp: Operation_toPart_def Let_def enum_int_def enum_count_def Operation_Types_def
      Operation_Notifications_def)

lemma recvOperation_decode:
  assumes "allocator_ok mem" and "wire_order a = wire_order (en_arch P)"
    and "length (pt_data (op_payload o1)) < 2 ^ 32" and "en_mem P (length (pt_data (op_payload o1))) \<noteq> None"
    and "Operation_toPart mem a o1 = Inr p" and "Part_uint mem a (tok' :: u8) = Inr t"
  shows "recvOperation P tok t p = Inr \<lparr>op_type = op_type o1, op_notif = if tok' = tok then OpSuccess else OpDiscard,
    op_payload = part_norm (op_payload o1)\<rparr>"
proof -
  have "Operation_fromPart (en_mem P) (en_arch P) p = Inr (operation_norm o1)"
    using operation.dec_enc [OF assms(1,2) _ _ assms(5), of "en_mem P"] assms(3,4) by (simp add: operation_ok_def)
  moreover have "toUint8 (en_arch P) t = tok'"
    by (rule Part_uint8_read [OF assms(1,6)])
  ultimately show ?thesis by (cases o1) (auto simp: recvOperation_def operation_norm_def)
qed

end
