(* ===== verification/Fuurin_Tokenpool.thy ===== *)
theory Fuurin_Tokenpool
  imports Fuurin_Net
begin

text \<open>
  The pool of tokens of \<^verbatim>\<open>src/tokenpool.cpp\<close>: tokens are put into one end of an inter-thread channel
  and got from the other, in the order in which they were put. The state is what was sent and how much
  of it was received.
\<close>

section \<open>Operations\<close>

record TokenPool =
  tk_io :: io
  tk_read :: nat

definition TokenPool_new :: TokenPool where
  "TokenPool_new = \<lparr>tk_io = io_init, tk_read = 0\<rparr>"

definition tk_unread :: "TokenPool \<Rightarrow> Part list" where
  "tk_unread s = drop (tk_read s) (map snd (io_sent (tk_io s)))"

text \<open>What the receiving end gets.\<close>

definition tk_next :: "TokenPool \<Rightarrow> recv_result" where
  "tk_next s = (case tk_unread s of [] \<Rightarrow> NoMessage | p # _ \<Rightarrow> Received p)"

definition TokenPool_put :: "env \<Rightarrow> u32 \<Rightarrow> (TokenPool, unit) action" where
  "TokenPool_put P tid =
     bindA (liftA (Part_uint (en_mem P) (en_arch P) tid)) (\<lambda>p s.
     case sendMessagePart (en_net P) ChPool True p (tk_io s) of
       (Inl e, i) \<Rightarrow> (Inl e, s\<lparr>tk_io := i\<rparr>)
     | (Inr _, i) \<Rightarrow> (Inr (), s\<lparr>tk_io := i\<rparr>))"

text \<open>
  The constructor with a range of tokens: the counter is a 32-bit integer, the loop may go on forever.
\<close>

partial_function (option) put_range :: "env \<Rightarrow> u32 \<Rightarrow> u32 \<Rightarrow> TokenPool \<Rightarrow> (unit result \<times> TokenPool) option" where
  "put_range P tid idMax s =
     (if tid \<le> idMax
      then (case TokenPool_put P tid s of
              (Inl e, s') \<Rightarrow> Some (Inl e, s')
            | (Inr _, s') \<Rightarrow> put_range P (tid + 1) idMax s')
      else Some (Inr (), s))"

definition TokenPool_range :: "env \<Rightarrow> u32 \<Rightarrow> u32 \<Rightarrow> (unit result \<times> TokenPool) option" where
  "TokenPool_range P idMin idMax = put_range P idMin idMax TokenPool_new"

text \<open>\<^verbatim>\<open>get\<close> waits for a token: \<^term>\<open>None\<close> while there is none.\<close>

definition TokenPool_get :: "env \<Rightarrow> TokenPool \<Rightarrow> (u32 result \<times> TokenPool) option" where
  "TokenPool_get P s =
     (case tk_next s of
        NoMessage \<Rightarrow> None
      | ans \<Rightarrow>
          Some (case recvMessagePart ans zmq_msg_init of
                  Inl e \<Rightarrow> (Inl e, s)
                | Inr (r, tid) \<Rightarrow>
                    (bindR (ASSERT (r = 4) ''TokenPool::get(), bad received bytes count'') (\<lambda>_.
                       Inr (toUint32 (en_arch P) tid)), s\<lparr>tk_read := Suc (tk_read s)\<rparr>)))"

definition TokenPool_tryGet :: "env \<Rightarrow> (TokenPool, u32 option) action" where
  "TokenPool_tryGet P s =
     (case recvMessagePart (tk_next s) zmq_msg_init of
        Inl e \<Rightarrow> (Inl e, s)
      | Inr (r, tid) \<Rightarrow>
          if r = - 1 then (Inr None, s)
          else (bindR (ASSERT (r = 4) ''TokenPool::tryGet(), bad received bytes count'') (\<lambda>_.
                  Inr (Some (toUint32 (en_arch P) tid))), s\<lparr>tk_read := Suc (tk_read s)\<rparr>))"

section \<open>Putting and getting\<close>

definition tk_sent :: "Part \<Rightarrow> TokenPool \<Rightarrow> TokenPool" where
  "tk_sent p s = s\<lparr>tk_io := (tk_io s)\<lparr>io_sends := Suc (io_sends (tk_io s)), io_sent := io_sent (tk_io s) @ [(ChPool, p)]\<rparr>\<rparr>"

definition token_part :: "arch \<Rightarrow> u32 \<Rightarrow> Part" where
  "token_part a tid = zmq_msg_init\<lparr>pt_data := memcpyWithEndian_put a tid\<rparr>"

lemma token_part_eq: "allocator_ok mem \<Longrightarrow> Part_uint mem a (tid :: u32) = Inr (token_part a tid)"
  by (simp add: Part_uint_eq token_part_def max_vsm_size_def)

lemma length_token_part [simp]: "length (pt_data (token_part a tid)) = 4"
  by (simp add: token_part_def)

lemma TokenPool_put_eq:
  assumes "allocator_ok (en_mem P)" and "\<forall>k. nt_send (en_net P) k = Sent"
  shows "TokenPool_put P tid s = (Inr (), tk_sent (token_part (en_arch P) tid) s)"
  using assms
  by (simp add: TokenPool_put_def token_part_eq bindA_def liftA_def sendMessagePart_def tk_sent_def Let_def)

lemma tk_unread_sent: "tk_read s \<le> length (io_sent (tk_io s)) \<Longrightarrow> tk_unread (tk_sent p s) = tk_unread s @ [p]"
  by (simp add: tk_unread_def tk_sent_def)

lemma put_range_step:
  assumes "allocator_ok (en_mem P)" and "\<forall>k. nt_send (en_net P) k = Sent"
  shows "put_range P tid idMax s =
    (if tid \<le> idMax then put_range P (tid + 1) idMax (tk_sent (token_part (en_arch P) tid) s) else Some (Inr (), s))"
  by (subst put_range.simps) (simp add: TokenPool_put_eq [OF assms])

lemma max_unat: "unat (- 1 :: u32) = 2 ^ 32 - 1"
  by (simp add: unsigned_minus_1_eq_mask mask_eq_exp_minus_1)

lemma put_range_ends:
  assumes "allocator_ok (en_mem P)" and "\<forall>k. nt_send (en_net P) k = Sent" and "idMax < - 1"
    and "unat tid + n = Suc (unat idMax)"
  shows "put_range P tid idMax s =
    Some (Inr (), fold (\<lambda>i. tk_sent (token_part (en_arch P) (tid + of_nat i))) [0..<n] s)"
  using assms(4)
proof (induction n arbitrary: tid s)
  case 0
  then have "\<not> tid \<le> idMax" by (simp add: word_le_nat_alt)
  then show ?case by (subst put_range_step [OF assms(1,2)]) simp
next
  case (Suc n)
  have le: "tid \<le> idMax" using Suc.prems by (simp add: word_le_nat_alt)
  have "unat (tid + 1) = Suc (unat tid)"
    using le assms(3) max_unat by (simp add: word_le_nat_alt word_less_nat_alt unat_word_ariths)
  then have u: "unat (tid + 1) + n = Suc (unat idMax)" using Suc.prems by simp
  have "put_range P tid idMax s = put_range P (tid + 1) idMax (tk_sent (token_part (en_arch P) tid) s)"
    using le by (subst put_range_step [OF assms(1,2)]) simp
  also have "\<dots> = Some (Inr (), fold (\<lambda>i. tk_sent (token_part (en_arch P) (tid + 1 + of_nat i))) [0..<n]
      (tk_sent (token_part (en_arch P) tid) s))"
    by (rule Suc.IH [OF u])
  also have "\<dots> = Some (Inr (), fold (\<lambda>i. tk_sent (token_part (en_arch P) (tid + of_nat i))) [0..<Suc n] s)"
    by (simp add: upt_conv_Cons map_Suc_upt [symmetric] fold_map o_def add_ac del: upt_Suc)
  finally show ?case .
qed

text \<open>A loop up to the largest integer does not return: the counter wraps around.\<close>

lemma put_range_returns:
  assumes "put_range Q tid idMax s = Some y" and "allocator_ok (en_mem Q)" and "\<forall>k. nt_send (en_net Q) k = Sent"
  shows "idMax \<noteq> - 1"
proof -
  let ?I = "\<lambda>x y. case x of (((Q, tid), idMax), s) \<Rightarrow>
      allocator_ok (en_mem Q) \<longrightarrow> (\<forall>k. nt_send (en_net Q) k = Sent) \<longrightarrow> idMax \<noteq> (- 1 :: u32)"
  have "?I (((Q, tid), idMax), s) y"
  proof (rule put_range.raw_induct [OF _ assms(1)])
    fix f Q tid idMax s y
    assume IH: "\<And>Q tid idMax s y. f Q tid idMax s = Some y \<Longrightarrow> ?I (((Q, tid), idMax), s) y"
      and f: "(if tid \<le> idMax then (case TokenPool_put Q tid s of (Inl e, s') \<Rightarrow> Some (Inl e, s')
          | (Inr _, s') \<Rightarrow> f Q (tid + 1) idMax s') else Some (Inr (), s)) = Some y"
    have "f Q (tid + 1) idMax (tk_sent (token_part (en_arch Q) tid) s) = Some y"
      if "allocator_ok (en_mem Q)" "\<forall>k. nt_send (en_net Q) k = Sent" "idMax = - 1"
      using f that by (simp add: TokenPool_put_eq)
    then show "?I (((Q, tid), idMax), s) y" using IH by fastforce
  qed
  then show ?thesis using assms by simp
qed

lemma tk_sent_simps [simp]:
  "tk_read (tk_sent p s) = tk_read s" "length (io_sent (tk_io (tk_sent p s))) = Suc (length (io_sent (tk_io s)))"
  by (simp_all add: tk_sent_def)

lemma put_range_parts:
  assumes "tk_read s \<le> length (io_sent (tk_io s))"
  shows "tk_unread (fold (\<lambda>i. tk_sent (f i)) xs s) = tk_unread s @ map f xs"
  using assms by (induction xs arbitrary: s) (auto simp: tk_unread_sent)

section \<open>Properties\<close>

text \<open>C40: A pool built with a range of tokens. When the range ends below the largest 32-bit integer the
  constructor returns, with one part for every token of the range, in order; when it ends at it, the
  counter wraps around and the constructor never returns.\<close>

theorem token_pool_range:
  assumes "allocator_ok (en_mem P)" and "\<forall>k. nt_send (en_net P) k = Sent" and "idMin \<le> idMax"
  shows "(idMax \<noteq> - 1 \<longrightarrow> (\<exists>s. TokenPool_range P idMin idMax = Some (Inr (), s) \<and>
      tk_unread s = map (\<lambda>i. token_part (en_arch P) (idMin + of_nat i)) [0..<Suc (unat idMax - unat idMin)])) \<and>
    (idMax = - 1 \<longrightarrow> TokenPool_range P idMin idMax = None)"
proof (intro conjI impI)
  assume "idMax \<noteq> - 1"
  then have lt: "idMax < - 1" by (simp add: order.not_eq_order_implies_strict)
  have n: "unat idMin + Suc (unat idMax - unat idMin) = Suc (unat idMax)"
    using assms(3) by (simp add: word_le_nat_alt)
  show "\<exists>s. TokenPool_range P idMin idMax = Some (Inr (), s) \<and>
      tk_unread s = map (\<lambda>i. token_part (en_arch P) (idMin + of_nat i)) [0..<Suc (unat idMax - unat idMin)]"
    unfolding TokenPool_range_def put_range_ends [OF assms(1,2) lt n]
    using put_range_parts [of TokenPool_new] by (simp add: TokenPool_new_def tk_unread_def io_init_def del: upt_Suc)
next
  assume "idMax = - 1"
  then show "TokenPool_range P idMin idMax = None"
    using put_range_returns [OF _ assms(1,2), of idMin idMax TokenPool_new]
    by (cases "TokenPool_range P idMin idMax") (auto simp: TokenPool_range_def)
qed

lemma token_pool_range_witness:
  "TokenPool_range sample_env 5 (- 1) = None \<and> (\<exists>s. TokenPool_range sample_env 5 6 = Some (Inr (), s))"
  using token_pool_range [of sample_env 5 "- 1"] token_pool_range [of sample_env 5 6] calloc_ok(1) by auto

text \<open>Tokens are got in the order in which they were put, each once, and a get waits when there is none.
  What is got is the token that was put exactly when \<^verbatim>\<open>char\<close> is unsigned or no byte of it but the
  highest has its sign bit set.\<close>

theorem token_pool_get:
  assumes "allocator_ok (en_mem P)" and "tk_unread s = map (token_part (en_arch P)) (tid # ids)"
  shows "\<exists>v s'. TokenPool_get P s = Some (Inr v, s') \<and> TokenPool_tryGet P s = (Inr (Some v), s') \<and>
      tk_unread s' = map (token_part (en_arch P)) ids \<and> (v = tid \<longleftrightarrow> (char_signed (en_arch P) \<longrightarrow> sign_clear tid)) \<and>
      (ids = [] \<longrightarrow> TokenPool_get P s' = None \<and> TokenPool_tryGet P s' = (Inr None, s'))"
proof -
  let ?p = "token_part (en_arch P) tid" and ?s = "s\<lparr>tk_read := Suc (tk_read s)\<rparr>"
  have nxt: "tk_next s = Received ?p" using assms(2) by (simp add: tk_next_def)
  have rest: "tk_unread ?s = map (token_part (en_arch P)) ids"
    using arg_cong [OF assms(2), of tl] by (simp add: tk_unread_def tl_drop drop_Suc)
  have v: "toUint32 (en_arch P) ?p = tid \<longleftrightarrow> (char_signed (en_arch P) \<longrightarrow> sign_clear tid)"
    by (rule Part_uint32_read [OF assms(1) token_part_eq [OF assms(1)]])
  have "TokenPool_get P s = Some (Inr (toUint32 (en_arch P) ?p), ?s)"
    "TokenPool_tryGet P s = (Inr (Some (toUint32 (en_arch P) ?p)), ?s)"
    using nxt by (simp_all add: TokenPool_get_def TokenPool_tryGet_def recvMessagePart_def)
  moreover have "TokenPool_get P ?s = None \<and> TokenPool_tryGet P ?s = (Inr None, ?s)" if "ids = []"
    using rest that by (simp add: TokenPool_get_def TokenPool_tryGet_def tk_next_def recvMessagePart_def)
  ultimately show ?thesis using rest v by blast
qed

lemma token_pool_get_witness:
  "\<exists>v s'. TokenPool_get sample_env (tk_sent (token_part little 128) TokenPool_new) = Some (Inr v, s') \<and> v \<noteq> 128"
proof -
  have "tk_unread (tk_sent (token_part little 128) TokenPool_new) = map (token_part (en_arch sample_env)) [128]"
    by (simp add: tk_unread_def tk_sent_def TokenPool_new_def io_init_def)
  from token_pool_get [OF _ this] calloc_ok(1) not_sign_clear_128 show ?thesis by (auto simp: little_def)
qed

end
