(* ===== verification/Fuurin_Multipart.thy ===== *)
theory Fuurin_Multipart
  imports Fuurin_Net
begin

text \<open>
  Messages of several parts: the templates \<^verbatim>\<open>send\<close>, \<^verbatim>\<open>trySend\<close>, \<^verbatim>\<open>recv\<close> and \<^verbatim>\<open>tryRecv\<close> of
  \<^verbatim>\<open>include/fuurin/zmqsocket.h\<close> and the members they call. The parts are variables of the caller, named by
  numbers: a part that was sent is empty afterwards, and the same variable may be passed twice. Each
  part travels as a frame with its flags, and a message is delivered with its last frame. The blocking
  templates add the results of two calls in one expression. C++ does not say which operand of an
  addition is evaluated first, so the order is a parameter, \<open>lr\<close> for left to right.
\<close>

section \<open>The calls for one part\<close>

datatype zmq_flag = DONTWAIT | SNDMORE

type_synonym frame = "Part \<times> zmq_flag set"

text \<open>The variables, the number of sends, the frames sent and the answers to the next receptions.\<close>

record multi =
  mu_parts :: "nat \<Rightarrow> Part"
  mu_sends :: nat
  mu_frames :: "frame list"
  mu_answers :: "recv_result list"

definition frame_send :: "net \<Rightarrow> zmq_flag set \<Rightarrow> nat \<Rightarrow> (multi, int) action" where
  "frame_send net flags i s =
     (let s' = s\<lparr>mu_sends := Suc (mu_sends s)\<rparr>; p = mu_parts s i in
      case nt_send net (mu_sends s) of
        Sent \<Rightarrow> (Inr (int (length (pt_data p))),
                 s'\<lparr>mu_frames := mu_frames s @ [(p, flags)], mu_parts := (mu_parts s)(i := zmq_msg_init)\<rparr>)
      | WouldBlock \<Rightarrow> (Inr (- 1), s')
      | SendError e \<Rightarrow> (Inl (Throw ZMQSocketSendFailed ''could not send message part'' e), s'))"

definition sendMessageMore :: "net \<Rightarrow> nat \<Rightarrow> (multi, int) action" where
  "sendMessageMore net i = frame_send net {SNDMORE} i"

definition sendMessageLast :: "net \<Rightarrow> nat \<Rightarrow> (multi, int) action" where
  "sendMessageLast net i = frame_send net {} i"

definition sendMessageTryMore :: "net \<Rightarrow> nat \<Rightarrow> (multi, int) action" where
  "sendMessageTryMore net i = frame_send net {DONTWAIT, SNDMORE} i"

definition sendMessageTryLast :: "net \<Rightarrow> nat \<Rightarrow> (multi, int) action" where
  "sendMessageTryLast net i = frame_send net {DONTWAIT} i"

text \<open>
  The four members that receive a part differ in \<^verbatim>\<open>ZMQ_DONTWAIT\<close> only, which decides whether the answer can
  be that there is no message. Without further answers there is none.
\<close>

definition frame_recv :: "nat \<Rightarrow> (multi, int) action" where
  "frame_recv i s =
     (let ans = (case mu_answers s of [] \<Rightarrow> NoMessage | a # _ \<Rightarrow> a);
          s' = s\<lparr>mu_answers := tl (mu_answers s)\<rparr> in
      case recvMessagePart ans (mu_parts s i) of
        Inl e \<Rightarrow> (Inl e, s')
      | Inr (n, p) \<Rightarrow> (Inr n, s'\<lparr>mu_parts := (mu_parts s)(i := p)\<rparr>))"

section \<open>The templates\<close>

definition addA :: "bool \<Rightarrow> ('s, int) action \<Rightarrow> ('s, int) action \<Rightarrow> ('s, int) action" where
  "addA lr f g =
     (if lr then bindA f (\<lambda>m. bindA g (\<lambda>n. retA (m + n)))
      else bindA g (\<lambda>n. bindA f (\<lambda>m. retA (m + n))))"

fun Socket_send :: "bool \<Rightarrow> net \<Rightarrow> nat \<Rightarrow> nat list \<Rightarrow> (multi, int) action" where
  "Socket_send lr net i [] = sendMessageLast net i"
| "Socket_send lr net i (j # js) = addA lr (sendMessageMore net i) (Socket_send lr net j js)"

fun Socket_trySend :: "net \<Rightarrow> nat \<Rightarrow> nat list \<Rightarrow> (multi, int) action" where
  "Socket_trySend net i [] = sendMessageTryLast net i"
| "Socket_trySend net i (j # js) =
     bindA (sendMessageTryMore net i) (\<lambda>n1. if n1 = - 1 then retA (- 1)
     else bindA (Socket_trySend net j js) (\<lambda>n2. if n2 = - 1 then retA (- 1) else retA (n1 + n2)))"

fun Socket_recv :: "bool \<Rightarrow> nat \<Rightarrow> nat list \<Rightarrow> (multi, int) action" where
  "Socket_recv lr i [] = frame_recv i"
| "Socket_recv lr i (j # js) = addA lr (frame_recv i) (Socket_recv lr j js)"

fun Socket_tryRecv :: "nat \<Rightarrow> nat list \<Rightarrow> (multi, int) action" where
  "Socket_tryRecv i [] = frame_recv i"
| "Socket_tryRecv i (j # js) =
     bindA (frame_recv i) (\<lambda>n1. if n1 = - 1 then retA (- 1)
     else bindA (Socket_tryRecv j js) (\<lambda>n2. if n2 = - 1 then retA (- 1) else retA (n1 + n2)))"

section \<open>Complete messages\<close>

text \<open>What a peer gets: the frames up to one without \<^verbatim>\<open>ZMQ_SNDMORE\<close>, again and again.\<close>

fun collect :: "Part list \<Rightarrow> frame list \<Rightarrow> Part list list" where
  "collect acc [] = []"
| "collect acc ((p, flags) # fs) =
     (if SNDMORE \<in> flags then collect (acc @ [p]) fs else (acc @ [p]) # collect [] fs)"

definition delivered :: "frame list \<Rightarrow> Part list list" where
  "delivered fs = collect [] fs"

text \<open>No message is half sent.\<close>

definition whole :: "frame list \<Rightarrow> bool" where
  "whole fs \<longleftrightarrow> fs = [] \<or> SNDMORE \<notin> snd (last fs)"

lemma collect_append:
  "fs \<noteq> [] \<Longrightarrow> SNDMORE \<notin> snd (last fs) \<Longrightarrow> collect acc (fs @ gs) = collect acc fs @ collect [] gs"
  by (induction acc fs rule: collect.induct) (auto split: if_splits)

lemma delivered_append: "whole fs \<Longrightarrow> delivered (fs @ gs) = delivered fs @ delivered gs"
  by (cases "fs = []") (auto simp: whole_def delivered_def collect_append)

lemma collect_more: "\<forall>f\<in>set fs. SNDMORE \<in> snd f \<Longrightarrow> collect acc (fs @ gs) = collect (acc @ map fst fs) gs"
  by (induction fs arbitrary: acc) auto

lemma delivered_more:
  assumes "\<forall>f\<in>set fs. SNDMORE \<in> snd f"
  shows "delivered fs = []"
  using collect_more [OF assms, of "[]" "[]"] by (simp add: delivered_def)

lemma delivered_message:
  "\<forall>f\<in>set fs. SNDMORE \<in> snd f \<Longrightarrow> SNDMORE \<notin> flags \<Longrightarrow> delivered (fs @ [(p, flags)]) = [map fst fs @ [p]]"
  by (simp add: delivered_def collect_more)

definition part_size :: "Part \<Rightarrow> int" where
  "part_size p = int (length (pt_data p))"

section \<open>Sending\<close>

text \<open>The frames a call of \<^verbatim>\<open>send\<close> makes, in the order of evaluation.\<close>

fun send_frames :: "bool \<Rightarrow> (nat \<Rightarrow> Part) \<Rightarrow> nat \<Rightarrow> nat list \<Rightarrow> frame list" where
  "send_frames lr f i [] = [(f i, {})]"
| "send_frames lr f i (j # js) =
     (if lr then (f i, {SNDMORE}) # send_frames lr f j js else send_frames lr f j js @ [(f i, {SNDMORE})])"

definition clear :: "nat list \<Rightarrow> (nat \<Rightarrow> Part) \<Rightarrow> nat \<Rightarrow> Part" where
  "clear js f = (\<lambda>i. if i \<in> set js then zmq_msg_init else f i)"

lemma clear_single: "clear [i] f = f(i := zmq_msg_init)"
  by (auto simp: clear_def)

lemma send_frames_cong: "\<forall>k\<in>set (i # js). f k = g k \<Longrightarrow> send_frames lr f i js = send_frames lr g i js"
  by (induction js arbitrary: i) auto

lemma frame_send_Sent:
  "nt_send net (mu_sends s) = Sent \<Longrightarrow> frame_send net flags i s =
     (Inr (int (length (pt_data (mu_parts s i)))),
      s\<lparr>mu_sends := Suc (mu_sends s), mu_frames := mu_frames s @ [(mu_parts s i, flags)],
        mu_parts := (mu_parts s)(i := zmq_msg_init)\<rparr>)"
  by (simp add: frame_send_def Let_def)

lemma Socket_send_result:
  assumes net: "\<forall>k. nt_send net k = Sent"
  shows "distinct (i # js) \<Longrightarrow> Socket_send lr net i js s =
     (Inr (sum_list (map (part_size \<circ> mu_parts s) (i # js))),
      s\<lparr>mu_sends := mu_sends s + Suc (length js), mu_frames := mu_frames s @ send_frames lr (mu_parts s) i js,
        mu_parts := clear (i # js) (mu_parts s)\<rparr>)"
proof (induction js arbitrary: i s)
  case Nil
  then show ?case by (simp add: sendMessageLast_def frame_send_def Let_def net part_size_def clear_single fun_upd_def)
next
  case (Cons j js)
  have d: "distinct (j # js)" and ij: "i \<noteq> j" "i \<notin> set js" using Cons.prems by auto
  have f: "send_frames lr ((mu_parts s)(i := zmq_msg_init)) j js = send_frames lr (mu_parts s) j js"
    using ij by (intro send_frames_cong) auto
  have m: "map (\<lambda>a. int (length (pt_data (if a = i then zmq_msg_init else mu_parts s a)))) js =
      map (\<lambda>a. int (length (pt_data (mu_parts s a)))) js"
    using ij by auto
  have c: "clear (j # js) ((mu_parts s)(i := zmq_msg_init)) = clear (i # j # js) (mu_parts s)"
    "(clear (j # js) (mu_parts s))(i := zmq_msg_init) = clear (i # j # js) (mu_parts s)"
    "clear (j # js) (mu_parts s) i = mu_parts s i"
    using ij by (auto simp: clear_def)
  show ?case
  proof (cases lr)
    case True
    then show ?thesis using ij by (simp add: addA_def bindA_def retA_def sendMessageMore_def frame_send_Sent net
      Cons.IH [OF d, unfolded eqTrueI [OF True]] f [unfolded eqTrueI [OF True]] m c part_size_def)
  next
    case False
    then have e: "lr = False" by simp
    show ?thesis using False ij by (simp add: addA_def bindA_def retA_def sendMessageMore_def frame_send_Sent net
      Cons.IH [OF d, unfolded e] m c part_size_def)
  qed
qed

lemma send_frames_left: "send_frames True f i js =
    map (\<lambda>k. (f k, {SNDMORE})) (butlast (i # js)) @ [(f (last (i # js)), {})]"
  by (induction js arbitrary: i) auto

lemma send_frames_right: "send_frames False f i js =
    (f (last (i # js)), {}) # map (\<lambda>k. (f k, {SNDMORE})) (rev (butlast (i # js)))"
  by (induction js arbitrary: i) auto

lemma delivered_left: "delivered (send_frames True f i js) = [map f (i # js)]"
proof -
  have "delivered (send_frames True f i js) = [map f (butlast (i # js)) @ [f (last (i # js))]]"
    unfolding send_frames_left by (subst delivered_message) (auto simp: comp_def)
  also have "\<dots> = [map f (butlast (i # js) @ [last (i # js)])]" by simp
  finally show ?thesis by (simp only: append_butlast_last_id list.distinct not_False_eq_True)
qed

lemma delivered_right: "delivered (send_frames False f i js) = [[f (last (i # js))]]"
proof -
  let ?gs = "map (\<lambda>k. (f k, {SNDMORE})) (rev (butlast (i # js)))"
  have "delivered ([(f (last (i # js)), {})] @ ?gs) = delivered [(f (last (i # js)), {})] @ delivered ?gs"
    by (rule delivered_append) (simp add: whole_def)
  moreover have "delivered ?gs = []" by (rule delivered_more) auto
  ultimately show ?thesis unfolding send_frames_right by (simp add: delivered_def)
qed

section \<open>Sending without blocking\<close>

fun try_frames :: "(nat \<Rightarrow> Part) \<Rightarrow> nat \<Rightarrow> nat list \<Rightarrow> frame list" where
  "try_frames f i [] = [(f i, {DONTWAIT})]"
| "try_frames f i (j # js) = (f i, {DONTWAIT, SNDMORE}) # try_frames f j js"

lemma try_frames_cong: "\<forall>k\<in>set (i # js). f k = g k \<Longrightarrow> try_frames f i js = try_frames g i js"
  by (induction js arbitrary: i) auto

lemma try_frames_eq: "try_frames f i js =
    map (\<lambda>k. (f k, {DONTWAIT, SNDMORE})) (butlast (i # js)) @ [(f (last (i # js)), {DONTWAIT})]"
  by (induction js arbitrary: i) auto

text \<open>Whatever the network answers, a prefix of the frames is sent, and all of them when the call succeeds.\<close>

definition try_outcome :: "nat \<Rightarrow> nat list \<Rightarrow> multi \<Rightarrow> int result \<Rightarrow> multi \<Rightarrow> nat \<Rightarrow> bool" where
  "try_outcome i js s r s' k \<longleftrightarrow>
     mu_frames s' = mu_frames s @ take k (try_frames (mu_parts s) i js) \<and>
     (if k = Suc (length js) then r = Inr (sum_list (map (part_size \<circ> mu_parts s) (i # js)))
      else k \<le> length js \<and> (r = Inr (- 1) \<or> (\<exists>e. r = Inl e)))"

lemma sizes_nonneg: "sum_list (map (part_size \<circ> f) js) \<noteq> - 1" "0 \<le> sum_list (map (part_size \<circ> f) js)"
proof -
  show "0 \<le> sum_list (map (part_size \<circ> f) js)" by (rule sum_list_nonneg) (auto simp: part_size_def)
  then show "sum_list (map (part_size \<circ> f) js) \<noteq> - 1" by linarith
qed

lemma Socket_trySend_outcome:
  "distinct (i # js) \<Longrightarrow> \<exists>k. try_outcome i js s (fst (Socket_trySend net i js s)) (snd (Socket_trySend net i js s)) k"
proof (induction js arbitrary: i s)
  case Nil
  show ?case
  proof (cases "nt_send net (mu_sends s)")
    case Sent
    then show ?thesis by (intro exI [of _ 1])
      (simp add: try_outcome_def sendMessageTryLast_def frame_send_def Let_def part_size_def)
  qed (auto intro!: exI [of _ 0] simp: try_outcome_def sendMessageTryLast_def frame_send_def Let_def)
next
  case (Cons j js)
  show ?case
  proof (cases "nt_send net (mu_sends s)")
    case Sent
    let ?f = "(mu_parts s)(i := zmq_msg_init)"
    let ?s = "s\<lparr>mu_sends := Suc (mu_sends s), mu_frames := mu_frames s @ [(mu_parts s i, {DONTWAIT, SNDMORE})],
      mu_parts := ?f\<rparr>"
    obtain r s' where r: "Socket_trySend net j js ?s = (r, s')" by (cases "Socket_trySend net j js ?s")
    have d: "distinct (j # js)" and ij: "i \<noteq> j" "i \<notin> set js" using Cons.prems by auto
    have f: "try_frames ?f j js = try_frames (mu_parts s) j js" using ij by (intro try_frames_cong) auto
    have m: "map (part_size \<circ> ?f) (j # js) = map (part_size \<circ> mu_parts s) (j # js)" using ij by auto
    obtain k where k: "try_outcome j js ?s r s' k" using Cons.IH [OF d, of ?s] r by auto
    have step: "Socket_trySend net i (j # js) s = (case r of Inl e \<Rightarrow> (Inl e, s')
        | Inr n \<Rightarrow> (Inr (if n = - 1 then - 1 else part_size (mu_parts s i) + n), s'))"
      using Sent r by (simp add: sendMessageTryMore_def frame_send_def Let_def bindA_def retA_def part_size_def
        split: sum.split)
    have "try_outcome i (j # js) s (fst (Socket_trySend net i (j # js) s)) (snd (Socket_trySend net i (j # js) s)) (Suc k)"
      using k sizes_nonneg(1) [of "mu_parts s" "j # js"] unfolding step try_outcome_def
      by (auto simp: f m simp del: sum_list.Cons list.map(2) split: if_splits sum.splits) (simp_all)
    then show ?thesis by blast
  qed (auto intro!: exI [of _ 0] simp: try_outcome_def sendMessageTryMore_def frame_send_def Let_def
      bindA_def retA_def)
qed

lemma delivered_try:
  "delivered (take k (try_frames f i js)) = (if k \<le> length js then [] else [map f (i # js)])"
proof (cases "k \<le> length js")
  case True
  then have "take k (try_frames f i js) = take k (map (\<lambda>k. (f k, {DONTWAIT, SNDMORE})) (butlast (i # js)))"
    unfolding try_frames_eq by (simp only: take_append) auto
  moreover have "delivered \<dots> = []" by (rule delivered_more) (auto dest: in_set_takeD)
  ultimately show ?thesis using True by simp
next
  case False
  moreover have "length (try_frames f i js) = Suc (length js)" by (simp add: try_frames_eq)
  ultimately have "take k (try_frames f i js) = try_frames f i js" by simp
  also have "delivered \<dots> = [map f (butlast (i # js)) @ [f (last (i # js))]]"
    unfolding try_frames_eq by (subst delivered_message) (auto simp: comp_def)
  also have "\<dots> = [map f (butlast (i # js) @ [last (i # js)])]" by simp
  finally show ?thesis using False by (simp only: append_butlast_last_id list.distinct not_False_eq_True if_False)
qed

section \<open>Receiving\<close>

lemma frame_recv_Received:
  "mu_answers s = Received p # as \<Longrightarrow> frame_recv i s =
     (Inr (part_size p), s\<lparr>mu_answers := as, mu_parts := (mu_parts s)(i := p)\<rparr>)"
  by (simp add: frame_recv_def recvMessagePart_def part_size_def)

text \<open>The variables are filled in the order of evaluation; no others change.\<close>

lemma Socket_recv_result:
  assumes "distinct (i # js)" "length ps = Suc (length js)" "mu_answers s = map Received ps @ as"
  shows "\<exists>f. Socket_recv lr i js s =
     (Inr (sum_list (map part_size ps)), s\<lparr>mu_answers := as, mu_parts := f\<rparr>)
     \<and> map f (i # js) = (if lr then ps else rev ps) \<and> (\<forall>k. k \<notin> set (i # js) \<longrightarrow> f k = mu_parts s k)"
  using assms
proof (induction js arbitrary: i ps s as)
  case Nil
  then obtain p where "ps = [p]" by (auto simp: length_Suc_conv)
  then show ?case using Nil by (simp add: frame_recv_Received) fastforce
next
  case (Cons j js)
  have d: "distinct (j # js)" and ij: "i \<notin> set (j # js)" using Cons.prems by auto
  show ?case
  proof (cases lr)
    case True
    obtain p qs where ps: "ps = p # qs" "length qs = Suc (length js)" using Cons.prems(2) by (cases ps) auto
    let ?s = "s\<lparr>mu_answers := map Received qs @ as, mu_parts := (mu_parts s)(i := p)\<rparr>"
    obtain f where f: "Socket_recv lr j js ?s =
        (Inr (sum_list (map part_size qs)), ?s\<lparr>mu_answers := as, mu_parts := f\<rparr>)"
        "map f (j # js) = qs" "\<forall>k. k \<notin> set (j # js) \<longrightarrow> f k = mu_parts ?s k"
      using Cons.IH [OF d ps(2), of ?s as] True by auto
    have "frame_recv i s = (Inr (part_size p), ?s)" using Cons.prems(3) ps by (simp add: frame_recv_Received)
    then have "Socket_recv lr i (j # js) s = (Inr (sum_list (map part_size ps)), s\<lparr>mu_answers := as, mu_parts := f\<rparr>)"
      using True f(1) ps by (simp add: addA_def bindA_def retA_def)
    then show ?thesis using True f(2,3) ij ps by (intro exI [of _ f]) auto
  next
    case False
    obtain qs p where ps: "ps = qs @ [p]" "length qs = Suc (length js)"
      using Cons.prems(2) by (cases ps rule: rev_cases) auto
    obtain f where f: "Socket_recv lr j js s =
        (Inr (sum_list (map part_size qs)), s\<lparr>mu_answers := Received p # as, mu_parts := f\<rparr>)"
        "map f (j # js) = rev qs" "\<forall>k. k \<notin> set (j # js) \<longrightarrow> f k = mu_parts s k"
      using Cons.IH [OF d ps(2), of s "Received p # as"] Cons.prems(3) ps False by auto
    have r: "Socket_recv lr i (j # js) s =
        (Inr (sum_list (map part_size ps)), s\<lparr>mu_answers := as, mu_parts := f(i := p)\<rparr>)"
      using False f(1) ps by (simp add: addA_def bindA_def retA_def frame_recv_Received)
    have "map (f(i := p)) (j # js) = map f (j # js)" using ij by (intro map_cong) auto
    moreover have k: "\<forall>k. k \<notin> set (i # j # js) \<longrightarrow> (f(i := p)) k = mu_parts s k" using f(3) by simp
    ultimately have "map (f(i := p)) (i # j # js) = (if lr then ps else rev ps)"
      using False f(2) ps by (simp only: list.map(2) fun_upd_same rev_append if_False) simp
    with r k show ?thesis by blast
  qed
qed

text \<open>With a message for every part, receiving without blocking is the blocking reception from left to right.\<close>

lemma Socket_tryRecv_recv:
  "distinct (i # js) \<Longrightarrow> length ps = Suc (length js) \<Longrightarrow> mu_answers s = map Received ps @ as \<Longrightarrow>
     Socket_tryRecv i js s = Socket_recv True i js s"
proof (induction js arbitrary: i ps s)
  case (Cons j js)
  have d: "distinct (j # js)" using Cons.prems by auto
  obtain p qs where ps: "ps = p # qs" "length qs = Suc (length js)" using Cons.prems(2) by (cases ps) auto
  let ?s = "s\<lparr>mu_answers := map Received qs @ as, mu_parts := (mu_parts s)(i := p)\<rparr>"
  have eq: "Socket_tryRecv j js ?s = Socket_recv True j js ?s" by (rule Cons.IH [OF d ps(2)]) simp
  obtain t where t: "Socket_recv True j js ?s = (Inr (sum_list (map part_size qs)), t)"
    using Socket_recv_result [OF d ps(2), of ?s as True] by auto
  have "sum_list (map part_size qs) \<noteq> - 1" "part_size p \<noteq> - 1"
    using sizes_nonneg(1) [of id qs] by (simp_all add: part_size_def)
  moreover have "frame_recv i s = (Inr (part_size p), ?s)" using Cons.prems(3) ps by (simp add: frame_recv_Received)
  ultimately show ?case by (simp add: addA_def bindA_def retA_def eq t)
qed simp

section \<open>Properties\<close>

text \<open>C20: When the library takes every frame, the blocking \<^verbatim>\<open>send\<close> returns the total size and leaves its parts
  empty. Evaluated from left to right it adds one message of exactly its parts, and \<^verbatim>\<open>recv\<close>, evaluated
  the same way, fills its parameters with them in order; evaluated from right to left the message
  delivered is the last part alone, and the other frames wait for an end that is not sent.\<close>

theorem multipart_round_trip:
  assumes net: "\<forall>k. nt_send net k = Sent" and ds: "distinct (i # js)" and w: "whole (mu_frames s)"
    and sent: "Socket_send lr net i js s = (r, s')"
    and dr: "distinct (i' # js')" and len: "length js' = length js"
    and ans: "mu_answers t = map Received (last (delivered (mu_frames s')))"
    and got: "Socket_recv lr i' js' t = (r', t')"
  shows "r = Inr (sum_list (map (part_size \<circ> mu_parts s) (i # js)))
    \<and> (\<forall>k\<in>set (i # js). mu_parts s' k = zmq_msg_init)
    \<and> delivered (mu_frames s') = delivered (mu_frames s) @
        [if lr then map (mu_parts s) (i # js) else [mu_parts s (last (i # js))]]
    \<and> (whole (mu_frames s') \<longleftrightarrow> lr \<or> js = [])
    \<and> (lr \<longrightarrow> r' = r \<and> map (mu_parts t') (i' # js') = map (mu_parts s) (i # js))"
proof -
  have res: "r = Inr (sum_list (map (part_size \<circ> mu_parts s) (i # js)))"
    and fs: "mu_frames s' = mu_frames s @ send_frames lr (mu_parts s) i js"
    and cl: "mu_parts s' = clear (i # js) (mu_parts s)"
    using Socket_send_result [OF net ds, of lr s] sent by auto
  have del: "delivered (mu_frames s') = delivered (mu_frames s) @
      [if lr then map (mu_parts s) (i # js) else [mu_parts s (last (i # js))]]"
    unfolding fs delivered_append [OF w] by (cases lr) (simp_all only: delivered_left delivered_right if_True if_False)
  have wh: "whole (mu_frames s') \<longleftrightarrow> lr \<or> js = []"
    unfolding fs by (cases lr) (auto simp: whole_def send_frames_left send_frames_right last_map last_rev)
  have "r' = r \<and> map (mu_parts t') (i' # js') = map (mu_parts s) (i # js)" if lr
  proof -
    have "mu_answers t = map Received (map (mu_parts s) (i # js)) @ []" using ans that by (simp add: del)
    from Socket_recv_result [OF dr _ this, of lr] that got len res show ?thesis by auto
  qed
  then show ?thesis using res cl del wh by (auto simp: clear_def)
qed

definition sample_multi :: multi where
  "sample_multi = \<lparr>mu_parts = (\<lambda>i. zmq_msg_init\<lparr>pt_data := replicate i 7\<rparr>), mu_sends = 0, mu_frames = [], mu_answers = []\<rparr>"

definition sample_inbox :: "frame list \<Rightarrow> multi" where
  "sample_inbox fs = sample_multi\<lparr>mu_answers := map Received (last (delivered fs))\<rparr>"

lemma multipart_round_trip_witness:
  "let net = en_net sample_env; s' = snd (Socket_send True net 1 [2] sample_multi);
     t' = snd (Socket_recv True 3 [4] (sample_inbox (mu_frames s'))) in
   fst (Socket_send True net 1 [2] sample_multi) = Inr 3 \<and>
   delivered (mu_frames s') = [[mu_parts sample_multi 1, mu_parts sample_multi 2]] \<and>
   mu_parts t' 3 = mu_parts sample_multi 1 \<and> mu_parts t' 4 = mu_parts sample_multi 2"
proof -
  let ?s = "Socket_send True (en_net sample_env) 1 [2] sample_multi"
  let ?t = "Socket_recv True 3 [4] (sample_inbox (mu_frames (snd ?s)))"
  have "whole (mu_frames sample_multi)" by (simp add: whole_def sample_multi_def)
  moreover have "mu_answers (sample_inbox fs) = map Received (last (delivered fs))" for fs
    by (simp add: sample_inbox_def)
  ultimately have "fst ?s = Inr (sum_list (map (part_size \<circ> mu_parts sample_multi) [1, 2])) \<and>
      delivered (mu_frames (snd ?s)) = delivered (mu_frames sample_multi) @ [map (mu_parts sample_multi) [1, 2]] \<and>
      map (mu_parts (snd ?t)) [3, 4] = map (mu_parts sample_multi) [1, 2]"
    using multipart_round_trip [of "en_net sample_env" 1 "[2]" sample_multi True "fst ?s" "snd ?s" 3 "[4]"
        "sample_inbox (mu_frames (snd ?s))" "fst ?t" "snd ?t"]
    by (simp del: Socket_send.simps Socket_recv.simps)
  moreover have "delivered (mu_frames sample_multi) = []" "part_size (mu_parts sample_multi i) = int i" for i
    by (simp_all add: sample_multi_def delivered_def part_size_def)
  ultimately show ?thesis by (simp add: Let_def del: Socket_send.simps Socket_recv.simps)
qed


text \<open>A network that takes one frame and then has no room.\<close>

definition sample_full :: net where
  "sample_full = \<lparr>nt_send = (\<lambda>n. if n = 0 then Sent else WouldBlock), nt_open = (\<lambda>_. None)\<rparr>"


end
