(* ===== verification/Fuurin_Cancel.thy ===== *)
theory Fuurin_Cancel
  imports Fuurin_Timer
begin

text \<open>
  Cancellations, \<^verbatim>\<open>src/zmqcancel.cpp\<close>, which end a blocking call: a timer of their own that fires once, and
  the I/O thread of the context (\<^verbatim>\<open>src/zmqiotimer.cpp\<close>) that runs its handlers. The timers are objects of
  the heap, and what is posted to the thread refers to them by address.
\<close>

section \<open>The I/O thread\<close>

datatype io_task = TaskStart nat | TaskCancel nat | TaskFired nat bool

text \<open>
  A timer that is deleted is \<^term>\<open>None\<close>. \<open>io_waits\<close> of a timer tells that its wait is not over; when it
  is, its handler is a task.
\<close>

record io_context =
  ic_timers :: "IOSteadyTimer option list"
  ic_tasks :: "io_task list"
  ic_notified :: bool

definition ic_timer :: "nat \<Rightarrow> io_context \<Rightarrow> IOSteadyTimer option" where
  "ic_timer i w = (if i < length (ic_timers w) then ic_timers w ! i else None)"

definition ic_put :: "nat \<Rightarrow> IOSteadyTimer \<Rightarrow> io_context \<Rightarrow> io_context" where
  "ic_put i io w = w\<lparr>ic_timers := (ic_timers w)[i := Some io]\<rparr>"

text \<open>The end of a wait, by the clock or because it is aborted.\<close>

definition end_wait :: "nat \<Rightarrow> bool \<Rightarrow> io_context \<Rightarrow> io_context" where
  "end_wait i aborted w =
     (case ic_timer i w of
        Some io \<Rightarrow> if io_waits io
                   then (ic_put i (io\<lparr>io_waits := False\<rparr>) w)\<lparr>ic_tasks := ic_tasks w @ [TaskFired i aborted]\<rparr> else w
      | None \<Rightarrow> w)"

text \<open>One task: \<^verbatim>\<open>timerStart\<close>, \<^verbatim>\<open>timerCancel\<close>, whose new expiry time aborts the wait, and \<^verbatim>\<open>timerFired\<close>.\<close>

definition io_run :: "io_context \<Rightarrow> io_context result" where
  "io_run w =
     (case ic_tasks w of
        [] \<Rightarrow> Inr w
      | TaskStart i # ts \<Rightarrow>
          (case ic_timer i w of
             None \<Rightarrow> free_fault
           | Some io \<Rightarrow> Inr ((ic_put i (timerStart io) w)\<lparr>ic_tasks := ts\<rparr>))
      | TaskCancel i # ts \<Rightarrow>
          (case ic_timer i w of
             None \<Rightarrow> free_fault
           | Some io \<Rightarrow> Inr (end_wait i True ((ic_put i (timerCancel io) w)\<lparr>ic_tasks := ts\<rparr>)))
      | TaskFired i ec # ts \<Rightarrow>
          (case ic_timer i w of
             None \<Rightarrow> free_fault
           | Some io \<Rightarrow>
               (case timerFired ec io of
                  (sent, io') \<Rightarrow> Inr ((ic_put i io' w)\<lparr>ic_tasks := ts, ic_notified := ic_notified w \<or> sent\<rparr>))))"

fun io_runs :: "nat \<Rightarrow> io_context \<Rightarrow> io_context result" where
  "io_runs 0 w = Inr w"
| "io_runs (Suc n) w = bindR (io_run w) (io_runs n)"

text \<open>Deleting a timer: the destructor of the clock's timer aborts its wait.\<close>

definition delete_timer :: "nat \<Rightarrow> io_context \<Rightarrow> io_context" where
  "delete_timer i w = (end_wait i True w)\<lparr>ic_timers := (ic_timers (end_wait i True w))[i := None]\<rparr>"

section \<open>Cancellations\<close>

record Cancellation =
  ca_timer :: "nat option"
  ca_deadline :: int
  ca_io :: io_context

definition Cancellation_new :: "io_context \<Rightarrow> Cancellation" where
  "Cancellation_new w = \<lparr>ca_timer = None, ca_deadline = 0, ca_io = w\<lparr>ic_notified := False\<rparr>\<rparr>"

text \<open>A notification stays in the socket for ever.\<close>

definition Cancellation_isCanceled :: "Cancellation \<Rightarrow> bool" where
  "Cancellation_isCanceled c = ic_notified (ca_io c)"

text \<open>\<^verbatim>\<open>start\<close>: the pointer to the timer is replaced, which deletes the timer it pointed to.\<close>

definition Cancellation_start :: "int \<Rightarrow> Cancellation \<Rightarrow> Cancellation" where
  "Cancellation_start timeout c =
     (if Cancellation_isCanceled c then c
      else let w = ca_io c; i = length (ic_timers w);
               w1 = w\<lparr>ic_timers := ic_timers w @ [Some (makeIOSteadyTimer timeout True)]\<rparr>;
               w2 = (case ca_timer c of None \<Rightarrow> w1 | Some j \<Rightarrow> delete_timer j w1)
           in c\<lparr>ca_deadline := timeout, ca_timer := Some i, ca_io := w2\<lparr>ic_tasks := ic_tasks w2 @ [TaskStart i]\<rparr>\<rparr>)"

definition Cancellation_setDeadline :: "int \<Rightarrow> Cancellation \<Rightarrow> Cancellation" where
  "Cancellation_setDeadline timeout c = (if timeout < 0 then c else Cancellation_start timeout c)"

definition Cancellation_cancel :: "Cancellation \<Rightarrow> Cancellation" where
  "Cancellation_cancel c = Cancellation_start 0 c"

text \<open>
  \<^verbatim>\<open>stop\<close>, which the destructor calls: the cancel is posted, and the call returns when the timer has
  kept its promise. \<open>n\<close> is the number of tasks the I/O thread runs meanwhile; \<^term>\<open>None\<close> while the
  promise is not kept.
\<close>

definition Cancellation_stop :: "nat \<Rightarrow> Cancellation \<Rightarrow> Cancellation result option" where
  "Cancellation_stop n c =
     (case ca_timer c of
        None \<Rightarrow> Some (Inr c)
      | Some i \<Rightarrow>
          (case io_runs n ((ca_io c)\<lparr>ic_tasks := ic_tasks (ca_io c) @ [TaskCancel i]\<rparr>) of
             Inl e \<Rightarrow> Some (Inl e)
           | Inr w \<Rightarrow>
               (case ic_timer i w of
                  Some io \<Rightarrow> if io_promise io then Some (Inr (c\<lparr>ca_timer := None, ca_io := delete_timer i w\<rparr>)) else None
                | None \<Rightarrow> Some free_fault)))"

section \<open>A cancellation that is set once\<close>

text \<open>
  What may happen to a cancellation whose deadline is set, or that is cancelled, at most once before it
  expires: the program's calls, the clock and the I/O thread, in any order.
\<close>

definition io_idle :: io_context where
  "io_idle = \<lparr>ic_timers = [], ic_tasks = [], ic_notified = False\<rparr>"

inductive canc_reach :: "Cancellation \<Rightarrow> bool" where
  fresh: "canc_reach (Cancellation_new io_idle)"
| deadline: "canc_reach c \<Longrightarrow> ca_timer c = None \<or> Cancellation_isCanceled c \<Longrightarrow>
    canc_reach (Cancellation_setDeadline t c)"
| cancel: "canc_reach c \<Longrightarrow> ca_timer c = None \<or> Cancellation_isCanceled c \<Longrightarrow> canc_reach (Cancellation_cancel c)"
| clock: "canc_reach c \<Longrightarrow> ca_timer c = Some i \<Longrightarrow> canc_reach (c\<lparr>ca_io := end_wait i False (ca_io c)\<rparr>)"
| io: "canc_reach c \<Longrightarrow> io_run (ca_io c) = Inr w \<Longrightarrow> canc_reach (c\<lparr>ca_io := w\<rparr>)"

text \<open>Where the only timer is: posted, waiting, with its handler posted, or done.\<close>

definition io_posted :: "IOSteadyTimer \<Rightarrow> io_context" where
  "io_posted io = \<lparr>ic_timers = [Some io], ic_tasks = [TaskStart 0], ic_notified = False\<rparr>"

definition io_waiting :: "IOSteadyTimer \<Rightarrow> io_context" where
  "io_waiting io = \<lparr>ic_timers = [Some (io\<lparr>io_waits := True\<rparr>)], ic_tasks = [], ic_notified = False\<rparr>"

definition io_expired :: "IOSteadyTimer \<Rightarrow> io_context" where
  "io_expired io = \<lparr>ic_timers = [Some io], ic_tasks = [TaskFired 0 False], ic_notified = False\<rparr>"

definition io_fired :: "IOSteadyTimer \<Rightarrow> io_context" where
  "io_fired io = \<lparr>ic_timers = [Some (io\<lparr>io_promise := True\<rparr>)], ic_tasks = [], ic_notified = True\<rparr>"

lemmas phase_defs = io_idle_def io_posted_def io_waiting_def io_expired_def io_fired_def

definition canc_inv :: "Cancellation \<Rightarrow> bool" where
  "canc_inv c =
     (if ca_timer c = None then ca_io c = io_idle
      else ca_timer c = Some 0 \<and>
        (let io = makeIOSteadyTimer (ca_deadline c) True
         in ca_io c = io_posted io \<or> ca_io c = io_waiting io \<or> ca_io c = io_expired io \<or> ca_io c = io_fired io))"

lemmas canc_defs = Cancellation_new_def Cancellation_isCanceled_def Cancellation_start_def
  Cancellation_setDeadline_def Cancellation_cancel_def Cancellation_stop_def

lemmas io_defs = io_run_def end_wait_def delete_timer_def ic_timer_def ic_put_def timerStart_def timerCancel_def
  timerFired_def makeIOSteadyTimer_def

lemma phase_notified [simp]:
  "\<not> ic_notified io_idle" "\<not> ic_notified (io_posted io)" "\<not> ic_notified (io_waiting io)"
  "\<not> ic_notified (io_expired io)" "ic_notified (io_fired io)"
  by (simp_all add: phase_defs)

text \<open>The I/O thread and the clock take the timer from one phase to the next.\<close>

lemma phase_run [simp]:
  "io_run io_idle = Inr io_idle"
  "io_run (io_posted (makeIOSteadyTimer t s)) = Inr (io_waiting (makeIOSteadyTimer t s))"
  "io_run (io_waiting io) = Inr (io_waiting io)"
  "io_run (io_expired (makeIOSteadyTimer t True)) = Inr (io_fired (makeIOSteadyTimer t True))"
  "io_run (io_fired io) = Inr (io_fired io)"
  by (simp_all add: phase_defs io_defs ex_bool_eq)

lemma phase_clock [simp]:
  "end_wait 0 b (io_posted (makeIOSteadyTimer t s)) = io_posted (makeIOSteadyTimer t s)"
  "end_wait 0 False (io_waiting (makeIOSteadyTimer t s)) = io_expired (makeIOSteadyTimer t s)"
  "end_wait 0 b (io_expired (makeIOSteadyTimer t s)) = io_expired (makeIOSteadyTimer t s)"
  "end_wait 0 b (io_fired (makeIOSteadyTimer t s)) = io_fired (makeIOSteadyTimer t s)"
  by (simp_all add: phase_defs io_defs ex_bool_eq)

lemma start_idle:
  assumes "ca_io c = io_idle" "ca_timer c = None"
  shows "Cancellation_start t c = c\<lparr>ca_deadline := t, ca_timer := Some 0, ca_io := io_posted (makeIOSteadyTimer t True)\<rparr>"
  using assms by (simp add: canc_defs phase_defs)

lemma canc_inv_start:
  assumes "canc_inv c" "ca_timer c = None \<or> Cancellation_isCanceled c"
  shows "canc_inv (Cancellation_start t c)"
proof (cases "ca_timer c")
  case None
  then show ?thesis using assms by (simp add: canc_inv_def start_idle)
next
  case (Some i)
  then show ?thesis using assms by (simp add: Cancellation_start_def)
qed

lemma canc_inv_io:
  assumes "canc_inv c" "io_run (ca_io c) = Inr w"
  shows "canc_inv (c\<lparr>ca_io := w\<rparr>)"
  using assms by (auto simp: canc_inv_def Let_def split: if_splits)

lemma canc_inv_clock:
  assumes "canc_inv c" "ca_timer c = Some i"
  shows "canc_inv (c\<lparr>ca_io := end_wait i False (ca_io c)\<rparr>)"
  using assms by (auto simp: canc_inv_def Let_def)

lemma canc_reach_inv: "canc_reach c \<Longrightarrow> canc_inv c"
proof (induction rule: canc_reach.induct)
  case fresh
  show ?case by (simp add: canc_inv_def Cancellation_new_def phase_defs)
qed (simp_all add: canc_inv_start canc_inv_io canc_inv_clock Cancellation_setDeadline_def Cancellation_cancel_def)

text \<open>The phases of a timer that is not deleted.\<close>

definition timer_phase :: "int \<Rightarrow> io_context \<Rightarrow> bool" where
  "timer_phase t w =
     (let io = makeIOSteadyTimer t True in w = io_posted io \<or> w = io_waiting io \<or> w = io_expired io \<or> w = io_fired io)"

lemma canc_inv_phase: "canc_inv c \<Longrightarrow> ca_timer c = Some i \<Longrightarrow> i = 0 \<and> timer_phase (ca_deadline c) (ca_io c)"
  by (simp add: canc_inv_def timer_phase_def)

lemma io_runs_idle: "ic_tasks w = [] \<Longrightarrow> io_runs n w = Inr w"
  by (induction n) (simp_all add: io_run_def bindR_def)

lemma io_runs_add: "io_runs (m + n) w = bindR (io_runs m w) (io_runs n)"
  by (induction m arbitrary: w) (simp_all add: bindR_def split: sum.splits)

text \<open>Three tasks are enough for the promise, whatever the phase.\<close>

lemma phase_stop:
  assumes "timer_phase t w"
  shows "\<exists>io b. io_runs 3 (w\<lparr>ic_tasks := ic_tasks w @ [TaskCancel 0]\<rparr>) = Inr \<lparr>ic_timers = [Some io], ic_tasks = [], ic_notified = b\<rparr>
    \<and> io_promise io \<and> \<not> io_waits io"
  using assms unfolding timer_phase_def Let_def
  by (elim disjE) (simp_all add: phase_defs io_defs numeral_3_eq_3 bindR_def ex_bool_eq)

lemma phase_stop_many:
  assumes "timer_phase t w" "3 \<le> n"
  shows "\<exists>io b. io_runs n (w\<lparr>ic_tasks := ic_tasks w @ [TaskCancel 0]\<rparr>) = Inr \<lparr>ic_timers = [Some io], ic_tasks = [], ic_notified = b\<rparr>
    \<and> io_promise io \<and> \<not> io_waits io"
proof -
  obtain m where n: "n = 3 + m" using assms(2) le_Suc_ex by blast
  show ?thesis using phase_stop [OF assms(1)] by (auto simp: n io_runs_add bindR_def io_runs_idle simp del: io_runs.simps)
qed

text \<open>A timer that has not notified is one the I/O thread still has a handler for, or will have.\<close>

lemma phase_delete:
  assumes "timer_phase t w" "\<not> ic_notified w"
  shows "\<exists>x. (x = TaskStart 0 \<or> (\<exists>ec. x = TaskFired 0 ec)) \<and>
    ic_tasks (delete_timer 0 (w\<lparr>ic_timers := ic_timers w @ [Some io]\<rparr>)) = [x] \<and>
    ic_timers (delete_timer 0 (w\<lparr>ic_timers := ic_timers w @ [Some io]\<rparr>)) = [None, Some io]"
  using assms unfolding timer_phase_def Let_def
  by (elim disjE) (simp_all add: phase_defs io_defs ex_bool_eq)

lemma canc_restart_faults:
  assumes "canc_reach c" "ca_timer c = Some i" "\<not> Cancellation_isCanceled c"
  shows "io_run (ca_io (Cancellation_start t c)) = free_fault"
proof -
  have i: "i = 0" and ph: "timer_phase (ca_deadline c) (ca_io c)"
    using canc_inv_phase [OF canc_reach_inv [OF assms(1)] assms(2)] by auto
  show ?thesis
    using phase_delete [OF ph, of "makeIOSteadyTimer t True"] assms(2,3) i
    by (auto simp: Cancellation_start_def Cancellation_isCanceled_def Let_def io_run_def ic_timer_def)
qed

lemma canc_io_ok:
  assumes "canc_reach c"
  shows "\<exists>w. io_run (ca_io c) = Inr w"
  using canc_reach_inv [OF assms] by (auto simp: canc_inv_def Let_def split: if_splits)

lemma canc_stop_ok:
  assumes "canc_reach c" "3 \<le> n"
  shows "\<exists>c'. Cancellation_stop n c = Some (Inr c') \<and> ca_timer c' = None \<and> ic_tasks (ca_io c') = []"
proof (cases "ca_timer c")
  case None
  then show ?thesis using canc_reach_inv [OF assms(1)] by (simp add: Cancellation_stop_def canc_inv_def phase_defs)
next
  case (Some i)
  then have i: "i = 0" and ph: "timer_phase (ca_deadline c) (ca_io c)"
    using canc_inv_phase [OF canc_reach_inv [OF assms(1)]] by auto
  show ?thesis using phase_stop_many [OF ph assms(2)] Some i
    by (auto simp: Cancellation_stop_def delete_timer_def end_wait_def ic_timer_def)
qed

section \<open>Properties\<close>

text \<open>C38: A cancellation that is given a deadline or is cancelled while it has no timer (or once it is cancelled already) is safe whatever the order of the program's calls, the clock and the I/O thread: no task of the I/O thread refers to a deleted timer, and the destructor returns once the thread has run three more tasks, with nothing left for the thread to run.\<close>

theorem cancellation_safe:
  assumes "canc_reach c" "3 \<le> n"
  shows "(\<exists>w. io_run (ca_io c) = Inr w) \<and>
    (\<exists>c'. Cancellation_stop n c = Some (Inr c') \<and> ca_timer c' = None \<and> ic_tasks (ca_io c') = [])"
  using canc_io_ok [OF assms(1)] canc_stop_ok [OF assms] by blast

theorem cancellation_safe_witness:
  "\<exists>c'. Cancellation_stop 3 (Cancellation_setDeadline 5000 (Cancellation_new io_idle)) = Some (Inr c') \<and> ca_timer c' = None"
  using cancellation_safe [of "Cancellation_setDeadline 5000 (Cancellation_new io_idle)" 3]
    canc_reach.deadline [OF canc_reach.fresh, of 5000]
  by (auto simp: Cancellation_new_def)

text \<open>Cancelling before the deadline expires is not safe: start replaces the pointer to the timer, which deletes the timer while the I/O thread has, or is given by the timer's destructor, a handler that refers to it; the next task the thread runs uses the deleted timer. The same holds of a second deadline.\<close>

theorem cancellation_restart_faults:
  assumes "canc_reach c" "ca_timer c \<noteq> None" "\<not> Cancellation_isCanceled c"
  shows "io_run (ca_io (Cancellation_cancel c)) = free_fault \<and>
    (0 \<le> t \<longrightarrow> io_run (ca_io (Cancellation_setDeadline t c)) = free_fault)"
  using canc_restart_faults [OF assms(1) _ assms(3)] assms(2)
  by (auto simp: Cancellation_cancel_def Cancellation_setDeadline_def)

theorem cancellation_restart_faults_witness:
  "io_run (ca_io (Cancellation_cancel (Cancellation_setDeadline 5000 (Cancellation_new io_idle)))) = free_fault
   \<and> io_run (ca_io (Cancellation_setDeadline 9000 (Cancellation_setDeadline 5000 (Cancellation_new io_idle)))) = free_fault"
proof -
  let ?c = "Cancellation_setDeadline 5000 (Cancellation_new io_idle)"
  have "canc_reach ?c" "ca_timer ?c \<noteq> None" "\<not> Cancellation_isCanceled ?c"
    using canc_reach.deadline [OF canc_reach.fresh, of 5000] by (auto simp: canc_defs phase_defs)
  from cancellation_restart_faults [OF this, of 9000] show ?thesis by simp
qed

end
