(* ===== verification/Fuurin_Socket.thy ===== *)
theory Fuurin_Socket
  imports Fuurin_Net
begin

text \<open>
  Sockets and pollers in full: \<^verbatim>\<open>src/zmqsocket.cpp\<close>, \<^verbatim>\<open>src/zmqpoller.cpp\<close> and \<^verbatim>\<open>src/zmqpollable.cpp\<close>. A
  socket is created, configured and connected or bound step by step, and closed again when a step
  fails; pollers of the automatic kind observe their sockets and add or remove them as they open and
  close. Sockets and pollers refer to each other, so they live in a store and have addresses. The
  answers of the ZeroMQ library are a parameter; the calls made to it are recorded.
\<close>

section \<open>The library\<close>

type_synonym sid = nat
type_synonym pid = nat

datatype Socket_Type =
  PAIR | PUB | SUB | REQ | REP | DEALER | ROUTER | PULL | PUSH | SERVER | CLIENT | RADIO | DISH

datatype sockopt = ZMQ_LINGER int | ZMQ_SNDHWM int | ZMQ_RCVHWM int | ZMQ_CONFLATE int | ZMQ_SUBSCRIBE bytes

datatype zcall =
    CSocket sid Socket_Type
  | CSetOption sid sockopt
  | CGetLastEndpoint sid
  | CGetFD sid
  | CJoin sid bytes
  | CConnect sid bytes
  | CBind sid bytes
  | CClose sid
  | CPollerNew pid
  | CPollerAdd pid sid bool bool
  | CPollerRemove pid sid
  | CPollerDestroy pid
  | CPollerWait pid int

datatype zanswer = ZOk bytes | ZErr int

definition EADDRINUSE :: int where "EADDRINUSE = 98"

text \<open>
  The library: its answer to a call after the calls before it (an interrupted call is repeated by the
  sources, so this is the first answer that is not an interruption); its answer to removing a socket from
  a poller, which depends on whether the socket is in it; the clock after the calls so far; and the largest
  \<^verbatim>\<open>long\<close> of the platform, which is the type of its timeouts.
\<close>

record zlib =
  zl_answer :: "zcall list \<Rightarrow> zcall \<Rightarrow> zanswer"
  zl_remove :: "zcall list \<Rightarrow> bool \<Rightarrow> zanswer"
  zl_clock :: "zcall list \<Rightarrow> int"
  zl_long :: int

text \<open>A duration as a number of the library: negative ones are infinite, and large ones are cut to the type.\<close>

definition INT_MAX :: int where "INT_MAX = 2147483647"

definition getMillis :: "int \<Rightarrow> int \<Rightarrow> int" where
  "getMillis tmax val = (if val < 0 then - 1 else if val > tmax then tmax else val)"

text \<open>The documented answer: removing fails with \<^verbatim>\<open>EINVAL\<close> only when the socket is not in the poller.\<close>

definition zlib_ok :: "zlib \<Rightarrow> bool" where
  "zlib_ok lib \<longleftrightarrow> (\<forall>calls. zl_remove lib calls True \<noteq> ZErr EINVAL)"

section \<open>The store\<close>

record ZSocket =
  zs_type :: Socket_Type
  zs_ptr :: bool
  zs_linger :: int
  zs_hwmsnd :: int
  zs_hwmrcv :: int
  zs_conflate :: bool
  zs_subscriptions :: "bytes list"
  zs_groups :: "bytes list"
  zs_endpoints :: "bytes list"
  zs_openEndpoints :: "bytes list"
  zs_observers :: "pid list"

datatype PollerEvents_Type = PollRead | PollWrite

record ZPoller =
  zp_sockets :: "sid list"
  zp_type :: PollerEvents_Type
  zp_obs :: bool
  zp_timeout :: int

text \<open>
  The sockets, the pollers that exist, the calls made, and the pairs of pollers and sockets that were
  added with success and not removed since.
\<close>

record zworld =
  zw_socks :: "sid \<Rightarrow> ZSocket"
  zw_pollers :: "pid \<Rightarrow> ZPoller option"
  zw_calls :: "zcall list"
  zw_polled :: "(pid \<times> sid) list"

type_synonym 'a zaction = "(zworld, 'a) action"

definition zcallA :: "zlib \<Rightarrow> zcall \<Rightarrow> zanswer zaction" where
  "zcallA lib c w = (Inr (zl_answer lib (zw_calls w) c), w\<lparr>zw_calls := zw_calls w @ [c]\<rparr>)"

definition upd_sock :: "sid \<Rightarrow> (ZSocket \<Rightarrow> ZSocket) \<Rightarrow> zworld \<Rightarrow> zworld" where
  "upd_sock s f w = w\<lparr>zw_socks := (zw_socks w)(s := f (zw_socks w s))\<rparr>"

text \<open>An action that is undone by another when an exception leaves it.\<close>

definition guardA :: "('s, 'a) action \<Rightarrow> ('s, unit) action \<Rightarrow> ('s, 'a) action" where
  "guardA f undo s =
     (case f s of
        (Inl (Throw e m n), s') \<Rightarrow> (case undo s' of (Inl x, s'') \<Rightarrow> (Inl x, s'') | (Inr _, s'') \<Rightarrow> (Inl (Throw e m n), s''))
      | (Inl (Abort m), s') \<Rightarrow> (Inl (Abort m), s')
      | (Inr x, s') \<Rightarrow> (Inr x, s'))"

section \<open>Sockets\<close>

definition ZSocket_new :: "Socket_Type \<Rightarrow> ZSocket" where
  "ZSocket_new ty =
     \<lparr>zs_type = ty, zs_ptr = False, zs_linger = 0, zs_hwmsnd = 0, zs_hwmrcv = 0, zs_conflate = False,
      zs_subscriptions = [], zs_groups = [], zs_endpoints = [], zs_openEndpoints = [], zs_observers = []\<rparr>"

definition zs_description :: "ZSocket \<Rightarrow> bytes" where
  "zs_description s = (case zs_endpoints s of [] \<Rightarrow> [] | e # _ \<Rightarrow> e)"

definition zs_setLinger :: "int \<Rightarrow> ZSocket \<Rightarrow> ZSocket" where
  "zs_setLinger v s = s\<lparr>zs_linger := v\<rparr>"

definition zs_setHighWaterMark :: "int \<Rightarrow> int \<Rightarrow> ZSocket \<Rightarrow> ZSocket" where
  "zs_setHighWaterMark hsnd hrcv s = s\<lparr>zs_hwmsnd := hsnd, zs_hwmrcv := hrcv\<rparr>"

definition zs_setConflate :: "bool \<Rightarrow> ZSocket \<Rightarrow> ZSocket" where
  "zs_setConflate v s = s\<lparr>zs_conflate := v\<rparr>"

definition zs_setSubscriptions :: "bytes list \<Rightarrow> ZSocket \<Rightarrow> ZSocket" where
  "zs_setSubscriptions filters s = s\<lparr>zs_subscriptions := filters\<rparr>"

definition zs_setGroups :: "bytes list \<Rightarrow> ZSocket \<Rightarrow> ZSocket" where
  "zs_setGroups groups s = s\<lparr>zs_groups := groups\<rparr>"

definition zs_setEndpoints :: "bytes list \<Rightarrow> ZSocket \<Rightarrow> ZSocket" where
  "zs_setEndpoints endpoints s = s\<lparr>zs_endpoints := endpoints\<rparr>"

definition isOpen :: "zworld \<Rightarrow> sid \<Rightarrow> bool" where
  "isOpen w s = zs_ptr (zw_socks w s)"

definition zs_setOption :: "zlib \<Rightarrow> sid \<Rightarrow> sockopt \<Rightarrow> unit zaction" where
  "zs_setOption lib s opt =
     bindA (zcallA lib (CSetOption s opt)) (\<lambda>a.
     case a of
       ZErr e \<Rightarrow> liftA (Inl (Throw ZMQSocketOptionSetFailed ''could not set socket option'' 0))
     | ZOk _ \<Rightarrow> retA ())"

definition zs_getLastEndpoint :: "zlib \<Rightarrow> sid \<Rightarrow> bytes zaction" where
  "zs_getLastEndpoint lib s =
     bindA (zcallA lib (CGetLastEndpoint s)) (\<lambda>a.
     case a of
       ZErr e \<Rightarrow> liftA (Inl (Throw ZMQSocketOptionGetFailed ''could not get socket option'' 0))
     | ZOk val \<Rightarrow> retA val)"

text \<open>The descriptor of an open socket, in the encoding the library answers with.\<close>

definition zs_fileDescriptor :: "zlib \<Rightarrow> sid \<Rightarrow> bytes zaction" where
  "zs_fileDescriptor lib s =
     bindA (readA (\<lambda>w. isOpen w s)) (\<lambda>opn.
     if \<not> opn then liftA (Inl (Throw ZMQSocketOptionGetFailed ''could not get socket option'' 0))
     else bindA (zcallA lib (CGetFD s)) (\<lambda>a.
       case a of
         ZErr e \<Rightarrow> liftA (Inl (Throw ZMQSocketOptionGetFailed ''could not get socket option'' 0))
       | ZOk val \<Rightarrow> retA val))"

definition zs_join :: "zlib \<Rightarrow> sid \<Rightarrow> bytes \<Rightarrow> unit zaction" where
  "zs_join lib s grp =
     bindA (zcallA lib (CJoin s grp)) (\<lambda>a.
     case a of
       ZErr e \<Rightarrow> liftA (Inl (Throw ZMQSocketGroupFailed ''could not join group'' 0))
     | ZOk _ \<Rightarrow> retA ())"

definition zs_connectTo :: "zlib \<Rightarrow> sid \<Rightarrow> bytes \<Rightarrow> unit zaction" where
  "zs_connectTo lib s endpoint =
     bindA (zcallA lib (CConnect s endpoint)) (\<lambda>a.
     case a of
       ZErr e \<Rightarrow> liftA (Inl (Throw ZMQSocketConnectFailed ''could not connect socket'' 0))
     | ZOk _ \<Rightarrow> retA ())"

text \<open>
  Binding is tried again while the address is in use: never with a negative timeout, forever with 0, and
  otherwise until the clock is past it.
\<close>

partial_function (option) bind_loop :: "zlib \<Rightarrow> sid \<Rightarrow> bytes \<Rightarrow> int \<Rightarrow> int \<Rightarrow> zworld \<Rightarrow> (zanswer \<times> zworld) option" where
  "bind_loop lib s endpoint timeout start w =
     (let a = zl_answer lib (zw_calls w) (CBind s endpoint);
          w' = w\<lparr>zw_calls := zw_calls w @ [CBind s endpoint]\<rparr> in
      if a \<noteq> ZErr EADDRINUSE \<or> timeout < 0 then Some (a, w')
      else if timeout > 0 \<and> zl_clock lib (zw_calls w') - start \<ge> timeout then Some (a, w')
      else bind_loop lib s endpoint timeout start w')"

definition zs_bindTo :: "zlib \<Rightarrow> int \<Rightarrow> sid \<Rightarrow> bytes \<Rightarrow> unit zaction" where
  "zs_bindTo lib timeout s endpoint w =
     (case bind_loop lib s endpoint timeout (zl_clock lib (zw_calls w)) w of
        None \<Rightarrow> (Inl (Abort ''bind does not return''), w)
      | Some (ZErr e, w') \<Rightarrow> (Inl (Throw ZMQSocketBindFailed ''could not bind socket'' 0), w')
      | Some (ZOk _, w') \<Rightarrow> (Inr (), w'))"

section \<open>Pollers\<close>

definition registerPoller :: "pid \<Rightarrow> ZSocket \<Rightarrow> ZSocket" where
  "registerPoller p s = (if p \<in> set (zs_observers s) then s else s\<lparr>zs_observers := zs_observers s @ [p]\<rparr>)"

definition unregisterPoller :: "pid \<Rightarrow> ZSocket \<Rightarrow> ZSocket" where
  "unregisterPoller p s = s\<lparr>zs_observers := removeAll p (zs_observers s)\<rparr>"

definition pollersCount :: "ZSocket \<Rightarrow> nat" where
  "pollersCount s = length (zs_observers s)"

definition addSocket :: "zlib \<Rightarrow> pid \<Rightarrow> sid \<Rightarrow> bool \<Rightarrow> bool \<Rightarrow> unit zaction" where
  "addSocket lib p s rd wr =
     bindA (readA (\<lambda>w. isOpen w s)) (\<lambda>opn.
     if \<not> opn then liftA (Inl (Throw ZMQPollerAddSocketFailed ''socket is not open'' 0))
     else bindA (zcallA lib (CPollerAdd p s rd wr)) (\<lambda>a.
       case a of
         ZErr e \<Rightarrow> liftA (Inl (Throw ZMQPollerAddSocketFailed ''could not add socket'' e))
       | ZOk _ \<Rightarrow> updA (\<lambda>w. w\<lparr>zw_polled := (p, s) # zw_polled w\<rparr>)))"

definition delSocket :: "zlib \<Rightarrow> pid \<Rightarrow> sid \<Rightarrow> unit zaction" where
  "delSocket lib p s w =
     (if \<not> isOpen w s then (LOG_FATAL ''could not remove socket'', w)
      else let w' = w\<lparr>zw_calls := zw_calls w @ [CPollerRemove p s]\<rparr> in
        (case zl_remove lib (zw_calls w) ((p, s) \<in> set (zw_polled w)) of
           ZErr e \<Rightarrow> (if e \<noteq> EINVAL then LOG_FATAL ''could not remove socket'' else Inr (), w')
         | ZOk _ \<Rightarrow> (Inr (), w'\<lparr>zw_polled := removeAll (p, s) (zw_polled w)\<rparr>)))"

definition updateSocket :: "zlib \<Rightarrow> pid \<Rightarrow> sid list \<Rightarrow> sid \<Rightarrow> bool \<Rightarrow> bool \<Rightarrow> unit zaction" where
  "updateSocket lib p arr s rd wr =
     (let found = s \<in> set arr in
      if rd \<or> wr
      then if \<not> found then liftA (Inl (Throw ZMQPollerAddSocketFailed ''could not add socket'' 0))
           else addSocket lib p s rd wr
      else if \<not> found then retA ()
           else delSocket lib p s)"

definition updateOnOpen :: "zlib \<Rightarrow> pid \<Rightarrow> sid \<Rightarrow> unit zaction" where
  "updateOnOpen lib p s w =
     (case zw_pollers w p of
        None \<Rightarrow> (Inr (), w)
      | Some pl \<Rightarrow> updateSocket lib p (zp_sockets pl) s (zp_type pl = PollRead) (zp_type pl = PollWrite) w)"

definition updateOnClose :: "zlib \<Rightarrow> pid \<Rightarrow> sid \<Rightarrow> unit zaction" where
  "updateOnClose lib p s w =
     (case zw_pollers w p of
        None \<Rightarrow> (Inr (), w)
      | Some pl \<Rightarrow> updateSocket lib p (zp_sockets pl) s False False w)"

definition destroyPoller :: "zlib \<Rightarrow> pid \<Rightarrow> bool \<Rightarrow> sid list \<Rightarrow> unit zaction" where
  "destroyPoller lib p obs arr =
     thenA (if obs then forA arr (\<lambda>s. updA (upd_sock s (unregisterPoller p))) else retA ())
     (bindA (zcallA lib (CPollerDestroy p)) (\<lambda>a.
     case a of
       ZErr e \<Rightarrow> liftA (Inl (Abort ''zmq_poller_destroy failed''))
     | ZOk _ \<Rightarrow> updA (\<lambda>w. w\<lparr>zw_polled := filter (\<lambda>x. fst x \<noteq> p) (zw_polled w),
         zw_pollers := (zw_pollers w)(p := None)\<rparr>)))"

definition createPoller :: "zlib \<Rightarrow> pid \<Rightarrow> bool \<Rightarrow> sid list \<Rightarrow> bool \<Rightarrow> bool \<Rightarrow> unit zaction" where
  "createPoller lib p obs arr rd wr =
     bindA (zcallA lib (CPollerNew p)) (\<lambda>a.
     case a of
       ZErr e \<Rightarrow> liftA (Inl (Throw ZMQPollerCreateFailed ''could not create poller'' e))
     | ZOk _ \<Rightarrow>
         guardA
           (forA arr (\<lambda>s.
              thenA (if obs then updA (upd_sock s (registerPoller p)) else retA ())
              (bindA (readA (\<lambda>w. isOpen w s)) (\<lambda>opn.
               if \<not> obs \<or> opn then addSocket lib p s rd wr else retA ()))))
           (destroyPoller lib p obs arr))"

text \<open>The constructors of a poller and of an automatic poller, and the destructor.\<close>

definition Poller_new :: "zlib \<Rightarrow> pid \<Rightarrow> PollerEvents_Type \<Rightarrow> bool \<Rightarrow> sid list \<Rightarrow> unit zaction" where
  "Poller_new lib p ev obs arr =
     thenA (createPoller lib p obs arr (ev = PollRead) (ev = PollWrite))
     (updA (\<lambda>w. w\<lparr>zw_pollers := (zw_pollers w)(p \<mapsto>
        \<lparr>zp_sockets = arr, zp_type = ev, zp_obs = obs, zp_timeout = - 1\<rparr>)\<rparr>))"

definition Poller_delete :: "zlib \<Rightarrow> pid \<Rightarrow> unit zaction" where
  "Poller_delete lib p w =
     (case zw_pollers w p of
        None \<Rightarrow> (Inr (), w)
      | Some pl \<Rightarrow> destroyPoller lib p (zp_obs pl) (zp_sockets pl) w)"

definition Poller_setTimeout :: "int \<Rightarrow> ZPoller \<Rightarrow> ZPoller" where
  "Poller_setTimeout tmeo p = p\<lparr>zp_timeout := if tmeo \<ge> 0 then tmeo else - 1\<rparr>"

text \<open>The sockets that are ready: \<open>events\<close> is what the library fills in.\<close>

definition waitForEvents :: "zlib \<Rightarrow> pid \<Rightarrow> sid list \<Rightarrow> int \<Rightarrow> sid list zaction" where
  "waitForEvents lib p events timeout =
     bindA (zcallA lib (CPollerWait p (getMillis (zl_long lib) timeout))) (\<lambda>a.
     case a of
       ZErr e \<Rightarrow>
         if e = EAGAIN then retA []
         else liftA (Inl (Throw ZMQPollerWaitFailed ''could not wait for socket events'' e))
     | ZOk _ \<Rightarrow> retA events)"

section \<open>Opening and closing\<close>

definition zs_close :: "zlib \<Rightarrow> sid \<Rightarrow> unit zaction" where
  "zs_close lib s w =
     (if \<not> isOpen w s then (Inr (), w)
      else (case thenA (forA (zs_observers (zw_socks w s)) (\<lambda>p. updateOnClose lib p s))
              (bindA (zcallA lib (CClose s)) (\<lambda>a.
               case a of
                 ZErr e \<Rightarrow> liftA (Inl (Abort ''zmq_close failed''))
               | ZOk _ \<Rightarrow> updA (upd_sock s (\<lambda>k. k\<lparr>zs_openEndpoints := [], zs_ptr := False\<rparr>)))) w of
              (Inl (Throw _ _ _), w') \<Rightarrow> (Inl (Abort ''socket close threw exception''), w')
            | (r, w') \<Rightarrow> (r, w')))"

definition zs_configure :: "zlib \<Rightarrow> sid \<Rightarrow> unit zaction" where
  "zs_configure lib s w =
     (let k = zw_socks w s in
      thenA (zs_setOption lib s (ZMQ_LINGER (getMillis INT_MAX (zs_linger k))))
      (thenA (zs_setOption lib s (ZMQ_SNDHWM (zs_hwmsnd k)))
      (thenA (zs_setOption lib s (ZMQ_RCVHWM (zs_hwmrcv k)))
      (thenA (zs_setOption lib s (ZMQ_CONFLATE (if zs_conflate k then 1 else 0)))
      (thenA (forA (zs_subscriptions k) (\<lambda>f. zs_setOption lib s (ZMQ_SUBSCRIBE f)))
      (forA (zs_groups k) (zs_join lib s)))))) w)"

definition zs_attach :: "zlib \<Rightarrow> (sid \<Rightarrow> bytes \<Rightarrow> unit zaction) \<Rightarrow> sid \<Rightarrow> unit zaction" where
  "zs_attach lib act s w =
     (if zs_endpoints (zw_socks w s) \<noteq> []
      then forA (zs_endpoints (zw_socks w s)) (\<lambda>endp.
             thenA (act s endp)
             (bindA (zs_getLastEndpoint lib s) (\<lambda>lastEndp.
              updA (upd_sock s (\<lambda>k. k\<lparr>zs_openEndpoints := zs_openEndpoints k @ [lastEndp]\<rparr>))))) w
      else act s [] w)"

definition zs_open :: "zlib \<Rightarrow> (sid \<Rightarrow> bytes \<Rightarrow> unit zaction) \<Rightarrow> sid \<Rightarrow> unit zaction" where
  "zs_open lib act s =
     bindA (readA (\<lambda>w. isOpen w s)) (\<lambda>opn.
     if opn then liftA (Inl (Throw ZMQSocketCreateFailed ''could not open socket'' 0))
     else bindA (\<lambda>w. zcallA lib (CSocket s (zs_type (zw_socks w s))) w) (\<lambda>a.
       case a of
         ZErr e \<Rightarrow> liftA (Inl (Throw ZMQSocketCreateFailed ''could not create socket'' e))
       | ZOk _ \<Rightarrow>
           thenA (updA (upd_sock s (\<lambda>k. k\<lparr>zs_ptr := True\<rparr>)))
           (guardA
             (thenA (zs_configure lib s)
             (thenA (zs_attach lib act s)
             (\<lambda>w. forA (zs_observers (zw_socks w s)) (\<lambda>p. updateOnOpen lib p s) w)))
             (zs_close lib s))))"

definition zs_connect :: "zlib \<Rightarrow> sid \<Rightarrow> unit zaction" where
  "zs_connect lib = zs_open lib (zs_connectTo lib)"

definition zs_bind :: "zlib \<Rightarrow> sid \<Rightarrow> unit zaction" where
  "zs_bind lib = zs_open lib (zs_bindTo lib 5000)"

section \<open>What the steps of opening change\<close>

text \<open>Calls of the library change the record of calls only.\<close>

definition lib_step :: "zworld \<Rightarrow> zworld \<Rightarrow> bool" where
  "lib_step w w' \<longleftrightarrow> zw_socks w' = zw_socks w \<and> zw_pollers w' = zw_pollers w \<and> zw_polled w' = zw_polled w"

interpretation lib_frame: action_frame lib_step
  by unfold_locales (simp_all add: lib_step_def)

lemma frame_call: "frameA lib_step (zcallA lib c)"
  by (simp add: frameA_def zcallA_def lib_step_def)

lemma frame_answer:
  assumes "\<And>x. frameA lib_step (f x)" and "\<And>e. frameA lib_step (g e)"
  shows "frameA lib_step (bindA (zcallA lib c) (\<lambda>a. case a of ZErr e \<Rightarrow> g e | ZOk x \<Rightarrow> f x))"
  using assms by (auto intro!: lib_frame.frame_bind frame_call split: zanswer.split)

lemma frame_options:
  "frameA lib_step (zs_setOption lib s opt)" "frameA lib_step (zs_getLastEndpoint lib s)"
  "frameA lib_step (zs_join lib s grp)" "frameA lib_step (zs_connectTo lib s endp)"
  unfolding zs_setOption_def zs_getLastEndpoint_def zs_join_def zs_connectTo_def
  by (rule frame_answer; rule lib_frame.frame_simple)+

lemma bind_loop_step: "bind_loop lib s endp tmo start w = Some y \<Longrightarrow> lib_step w (snd y)"
proof (erule bind_loop.raw_induct [rotated])
  fix f and lib :: zlib and s endp tmo start w y
  assume IH: "\<And>lib s endp tmo start w y. f lib s endp tmo start w = Some y \<Longrightarrow> lib_step w (snd y)"
    and f: "(let a = zl_answer lib (zw_calls w) (CBind s endp); w' = w\<lparr>zw_calls := zw_calls w @ [CBind s endp]\<rparr>
      in if a \<noteq> ZErr EADDRINUSE \<or> tmo < 0 then Some (a, w')
         else if 0 < tmo \<and> tmo \<le> zl_clock lib (zw_calls w') - start then Some (a, w')
         else f lib s endp tmo start w') = Some y"
  let ?w = "w\<lparr>zw_calls := zw_calls w @ [CBind s endp]\<rparr>"
  have "snd y = ?w \<or> f lib s endp tmo start ?w = Some y" using f by (auto simp: Let_def split: if_splits)
  then have "lib_step ?w (snd y)" using IH [of lib s endp tmo start ?w y] lib_frame.frame_refl by auto
  then show "lib_step w (snd y)" by (simp add: lib_step_def)
qed

lemma frame_bindTo: "frameA lib_step (zs_bindTo lib tmo s endp)"
  unfolding frameA_def
proof
  fix w
  show "lib_step w (snd (zs_bindTo lib tmo s endp w))"
  proof (cases "bind_loop lib s endp tmo (zl_clock lib (zw_calls w)) w")
    case None
    then show ?thesis by (simp add: zs_bindTo_def lib_step_def)
  next
    case (Some y)
    then have "lib_step w (snd y)" by (rule bind_loop_step)
    then show ?thesis using Some by (cases y; cases "fst y") (auto simp: zs_bindTo_def)
  qed
qed

lemma frame_configure: "lib_step w (snd (zs_configure lib s w))"
proof -
  let ?k = "zw_socks w s"
  have "frameA lib_step (thenA (zs_setOption lib s (ZMQ_LINGER (getMillis INT_MAX (zs_linger ?k))))
      (thenA (zs_setOption lib s (ZMQ_SNDHWM (zs_hwmsnd ?k)))
      (thenA (zs_setOption lib s (ZMQ_RCVHWM (zs_hwmrcv ?k)))
      (thenA (zs_setOption lib s (ZMQ_CONFLATE (if zs_conflate ?k then 1 else 0)))
      (thenA (forA (zs_subscriptions ?k) (\<lambda>f. zs_setOption lib s (ZMQ_SUBSCRIBE f)))
      (forA (zs_groups ?k) (zs_join lib s)))))))"
    by (intro lib_frame.frame_then lib_frame.frame_for frame_options)
  then show ?thesis by (simp add: zs_configure_def Let_def frameA_def)
qed

text \<open>Attaching the endpoints changes, besides, the list of open endpoints of the socket.\<close>

definition attach_step :: "sid \<Rightarrow> zworld \<Rightarrow> zworld \<Rightarrow> bool" where
  "attach_step s w w' \<longleftrightarrow> zw_pollers w' = zw_pollers w \<and> zw_polled w' = zw_polled w \<and>
     (\<exists>x. zw_socks w' = (zw_socks w)(s := (zw_socks w s)\<lparr>zs_openEndpoints := x\<rparr>))"

interpretation attach_frame: action_frame "attach_step s" for s
proof unfold_locales
  show "attach_step s w w" for w
    unfolding attach_step_def by (auto intro!: exI [of _ "zs_openEndpoints (zw_socks w s)"])
  show "attach_step s w w''" if "attach_step s w w'" "attach_step s w' w''" for w w' w''
    using that by (auto simp: attach_step_def)
qed

lemma lib_attach: "frameA lib_step f \<Longrightarrow> frameA (attach_step s) f"
  unfolding frameA_def
proof
  fix w
  assume "\<forall>w. lib_step w (snd (f w))"
  then have "lib_step w (snd (f w))" ..
  then show "attach_step s w (snd (f w))"
    unfolding attach_step_def lib_step_def by (auto intro!: exI [of _ "zs_openEndpoints (zw_socks w s)"])
qed

definition act_ok :: "(sid \<Rightarrow> bytes \<Rightarrow> unit zaction) \<Rightarrow> bool" where
  "act_ok act \<longleftrightarrow> (\<forall>s endp. frameA lib_step (act s endp))"

lemma act_ok_code: "act_ok (zs_connectTo lib)" "act_ok (zs_bindTo lib tmo)"
  by (simp_all add: act_ok_def frame_options frame_bindTo)

lemma frame_attach:
  assumes "act_ok act"
  shows "attach_step s w (snd (zs_attach lib act s w))"
proof -
  have act: "frameA (attach_step s) (act s endp)" for endp
    using assms by (intro lib_attach) (simp add: act_ok_def)
  have "frameA (attach_step s) (forA eps (\<lambda>endp. thenA (act s endp)
      (bindA (zs_getLastEndpoint lib s) (\<lambda>lastEndp.
       updA (upd_sock s (\<lambda>k. k\<lparr>zs_openEndpoints := zs_openEndpoints k @ [lastEndp]\<rparr>))))))" for eps
    by (intro attach_frame.frame_for attach_frame.frame_then attach_frame.frame_bind act attach_frame.frame_upd
        lib_attach [OF frame_options(2)])
      (auto simp: attach_step_def upd_sock_def)
  then show ?thesis using act by (simp add: zs_attach_def frameA_def)
qed

section \<open>Watching the open sockets\<close>

text \<open>
  The observers of a socket are exactly the automatic pollers that exist and were given it, and such a
  poller holds exactly those of its sockets that are open.
\<close>

definition observed :: "zworld \<Rightarrow> pid \<Rightarrow> sid \<Rightarrow> bool" where
  "observed w p s \<longleftrightarrow> (\<exists>pl. zw_pollers w p = Some pl \<and> zp_obs pl \<and> s \<in> set (zp_sockets pl))"

definition poll_inv :: "zworld \<Rightarrow> bool" where
  "poll_inv w \<longleftrightarrow>
     (\<forall>p s. p \<in> set (zs_observers (zw_socks w s)) \<longleftrightarrow> observed w p s) \<and>
     (\<forall>p pl s. zw_pollers w p = Some pl \<longrightarrow> zp_obs pl \<longrightarrow>
        ((p, s) \<in> set (zw_polled w) \<longleftrightarrow> s \<in> set (zp_sockets pl) \<and> isOpen w s)) \<and>
     (\<forall>p s. (p, s) \<in> set (zw_polled w) \<longrightarrow> zw_pollers w p \<noteq> None)"

text \<open>Telling one poller, and all observers, that a socket closes.\<close>

lemma updateOnClose_spec:
  assumes "updateOnClose lib p s w = (r, w')" and "zlib_ok lib" and "observed w p s" and "isOpen w s" and "\<not> is_abort r"
  shows "r = Inr () \<and> zw_socks w' = zw_socks w \<and> zw_pollers w' = zw_pollers w \<and>
    set (zw_polled w') = set (zw_polled w) - {(p, s)}"
  using assms
  by (cases "zl_remove lib (zw_calls w) ((p, s) \<in> set (zw_polled w))")
    (auto simp: updateOnClose_def observed_def updateSocket_def delSocket_def LOG_FATAL_def is_abort_def Let_def zlib_ok_def
      split: if_splits)

lemma close_loop:
  assumes "forA obs (\<lambda>p. updateOnClose lib p s) w = (r, w')" and "zlib_ok lib" and "\<forall>p\<in>set obs. observed w p s"
    and "isOpen w s" and "\<not> is_abort r"
  shows "r = Inr () \<and> zw_socks w' = zw_socks w \<and> zw_pollers w' = zw_pollers w \<and>
    set (zw_polled w') = set (zw_polled w) - set obs \<times> {s}"
  using assms
proof (induction obs arbitrary: w)
  case Nil
  then show ?case by (simp add: retA_def)
next
  case (Cons p obs)
  obtain r1 w1 where 1: "updateOnClose lib p s w = (r1, w1)" by fastforce
  have "\<not> is_abort r1" using Cons.prems(1,5) 1 by (cases r1) (auto simp: thenA_def bindA_def is_abort_def)
  then have s1: "r1 = Inr ()" "zw_socks w1 = zw_socks w" "zw_pollers w1 = zw_pollers w"
      "set (zw_polled w1) = set (zw_polled w) - {(p, s)}"
    using updateOnClose_spec [OF 1 Cons.prems(2) _ Cons.prems(4)] Cons.prems(3) by auto
  have "forA obs (\<lambda>p. updateOnClose lib p s) w1 = (r, w')"
    using Cons.prems(1) 1 s1(1) by (simp add: thenA_def bindA_def)
  moreover have "\<forall>p\<in>set obs. observed w1 p s" "isOpen w1 s"
    using Cons.prems(3,4) s1 by (auto simp: observed_def isOpen_def)
  ultimately show ?case using Cons.IH [of w1] Cons.prems(2,5) s1 by auto
qed

lemma zs_close_spec:
  assumes "zs_close lib s w = (r, w')" and "zlib_ok lib" and "isOpen w s"
    and "\<forall>p\<in>set (zs_observers (zw_socks w s)). observed w p s" and "\<not> is_abort r"
  shows "r = Inr () \<and> zw_pollers w' = zw_pollers w \<and>
    zw_socks w' = (zw_socks w)(s := (zw_socks w s)\<lparr>zs_openEndpoints := [], zs_ptr := False\<rparr>) \<and>
    set (zw_polled w') = set (zw_polled w) - set (zs_observers (zw_socks w s)) \<times> {s}"
proof -
  obtain r1 w1 where 1: "forA (zs_observers (zw_socks w s)) (\<lambda>p. updateOnClose lib p s) w = (r1, w1)" by fastforce
  have "\<not> is_abort r1"
    using assms(1,3,5) 1 by (cases r1) (auto simp: zs_close_def thenA_def bindA_def is_abort_def split: fault.splits)
  then have c: "r1 = Inr ()" "zw_socks w1 = zw_socks w" "zw_pollers w1 = zw_pollers w"
      "set (zw_polled w1) = set (zw_polled w) - set (zs_observers (zw_socks w s)) \<times> {s}"
    using close_loop [OF 1 assms(2,4,3)] by simp_all
  let ?w = "w1\<lparr>zw_calls := zw_calls w1 @ [CClose s]\<rparr>"
  have "zs_close lib s w = (case zl_answer lib (zw_calls w1) (CClose s) of
      ZErr e \<Rightarrow> (Inl (Abort ''zmq_close failed''), ?w)
    | ZOk _ \<Rightarrow> (Inr (), upd_sock s (\<lambda>k. k\<lparr>zs_openEndpoints := [], zs_ptr := False\<rparr>) ?w))"
    using 1 c(1) assms(3)
    by (cases "zl_answer lib (zw_calls w1) (CClose s)")
      (simp_all add: zs_close_def thenA_def bindA_def zcallA_def liftA_def updA_def)
  then show ?thesis
    using assms(1,5) c
    by (cases "zl_answer lib (zw_calls w1) (CClose s)") (auto simp: upd_sock_def is_abort_def)
qed

text \<open>Telling one poller, and all observers, that a socket is open: it may throw half way.\<close>

lemma updateOnOpen_spec:
  assumes "updateOnOpen lib p s w = (r, w')" and "observed w p s" and "isOpen w s"
  shows "\<not> is_abort r \<and> zw_socks w' = zw_socks w \<and> zw_pollers w' = zw_pollers w \<and>
    set (zw_polled w') = (if r = Inr () then insert (p, s) (set (zw_polled w)) else set (zw_polled w))"
proof -
  obtain pl where pl: "zw_pollers w p = Some pl" "s \<in> set (zp_sockets pl)"
    using assms(2) by (auto simp: observed_def)
  have "zp_type pl = PollRead \<or> zp_type pl = PollWrite" by (cases "zp_type pl") simp_all
  then have "addSocket lib p s (zp_type pl = PollRead) (zp_type pl = PollWrite) w = (r, w')"
    using assms(1) pl by (simp add: updateOnOpen_def updateSocket_def)
  then show ?thesis
    using assms(3)
    by (cases "zl_answer lib (zw_calls w) (CPollerAdd p s (zp_type pl = PollRead) (zp_type pl = PollWrite))")
      (auto simp: addSocket_def is_abort_def action_defs zcallA_def)
qed

lemma open_loop:
  assumes "forA obs (\<lambda>p. updateOnOpen lib p s) w = (r, w')" and "\<forall>p\<in>set obs. observed w p s" and "isOpen w s"
  shows "\<not> is_abort r \<and> zw_socks w' = zw_socks w \<and> zw_pollers w' = zw_pollers w \<and>
    set (zw_polled w) \<subseteq> set (zw_polled w') \<and> set (zw_polled w') \<subseteq> set (zw_polled w) \<union> set obs \<times> {s} \<and>
    (r = Inr () \<longrightarrow> set (zw_polled w') = set (zw_polled w) \<union> set obs \<times> {s})"
  using assms
proof (induction obs arbitrary: w)
  case Nil
  then show ?case by (auto simp: retA_def is_abort_def)
next
  case (Cons p obs)
  obtain r1 w1 where 1: "updateOnOpen lib p s w = (r1, w1)" by fastforce
  have s1: "\<not> is_abort r1" "zw_socks w1 = zw_socks w" "zw_pollers w1 = zw_pollers w"
      "set (zw_polled w1) = (if r1 = Inr () then insert (p, s) (set (zw_polled w)) else set (zw_polled w))"
    using updateOnOpen_spec [OF 1 _ Cons.prems(3)] Cons.prems(2) by auto
  show ?case
  proof (cases r1)
    case (Inl e)
    then show ?thesis using Cons.prems(1) 1 s1 by (auto simp: thenA_def bindA_def is_abort_def)
  next
    case (Inr u)
    have "forA obs (\<lambda>p. updateOnOpen lib p s) w1 = (r, w')"
      using Cons.prems(1) 1 Inr by (simp add: thenA_def bindA_def)
    moreover have "\<forall>p\<in>set obs. observed w1 p s" "isOpen w1 s"
      using Cons.prems(2,3) s1 by (auto simp: observed_def isOpen_def)
    ultimately show ?thesis using Cons.IH [of w1] s1 Inr by auto
  qed
qed

text \<open>Everything \<^verbatim>\<open>open\<close> does after the socket was created.\<close>

definition open_body :: "zlib \<Rightarrow> (sid \<Rightarrow> bytes \<Rightarrow> unit zaction) \<Rightarrow> sid \<Rightarrow> unit zaction" where
  "open_body lib act s =
     thenA (zs_configure lib s)
     (thenA (zs_attach lib act s)
     (\<lambda>w. forA (zs_observers (zw_socks w s)) (\<lambda>p. updateOnOpen lib p s) w))"

lemma open_body_spec:
  assumes "open_body lib act s w = (r, w')" and "act_ok act" and "isOpen w s"
    and "\<forall>p\<in>set (zs_observers (zw_socks w s)). observed w p s"
  shows "zw_pollers w' = zw_pollers w \<and> (\<exists>x. zw_socks w' = (zw_socks w)(s := (zw_socks w s)\<lparr>zs_openEndpoints := x\<rparr>)) \<and>
    set (zw_polled w) \<subseteq> set (zw_polled w') \<and>
    set (zw_polled w') \<subseteq> set (zw_polled w) \<union> set (zs_observers (zw_socks w s)) \<times> {s} \<and>
    (r = Inr () \<longrightarrow> set (zw_polled w') = set (zw_polled w) \<union> set (zs_observers (zw_socks w s)) \<times> {s})"
proof -
  obtain r1 w1 where 1: "zs_configure lib s w = (r1, w1)" by fastforce
  have w1: "lib_step w w1" using frame_configure [of w lib s] 1 by simp
  obtain r2 w2 where 2: "zs_attach lib act s w1 = (r2, w2)" by fastforce
  have "attach_step s w1 w2" using frame_attach [OF assms(2), of s w1 lib] 2 by simp
  then have a: "attach_step s w w2" using w1 by (simp add: attach_step_def lib_step_def)
  obtain x where x: "zw_pollers w2 = zw_pollers w" "zw_polled w2 = zw_polled w"
      "zw_socks w2 = (zw_socks w)(s := (zw_socks w s)\<lparr>zs_openEndpoints := x\<rparr>)"
    using a by (auto simp: attach_step_def)
  show ?thesis
  proof (cases "\<exists>u1 u2. r1 = Inr u1 \<and> r2 = Inr u2")
    case True
    then have "forA (zs_observers (zw_socks w2 s)) (\<lambda>p. updateOnOpen lib p s) w2 = (r, w')"
      using assms(1) 1 2 by (auto simp: open_body_def thenA_def bindA_def)
    moreover have "isOpen w2 s" "\<forall>p\<in>set (zs_observers (zw_socks w2 s)). observed w2 p s"
      using assms(3,4) x by (auto simp: isOpen_def observed_def)
    ultimately show ?thesis using open_loop [of "zs_observers (zw_socks w2 s)" lib s w2 r w'] x by auto
  next
    case False
    then have "(\<exists>e. r = Inl e) \<and> (w' = w1 \<or> w' = w2)"
      using assms(1) 1 2 by (cases r1; cases r2) (auto simp: open_body_def thenA_def bindA_def)
    then consider "w' = w1" "r \<noteq> Inr ()" | "w' = w2" "r \<noteq> Inr ()" by auto
    then show ?thesis
    proof cases
      case 1
      have "(zw_socks w)(s := (zw_socks w s)\<lparr>zs_openEndpoints := zs_openEndpoints (zw_socks w s)\<rparr>) = zw_socks w" by simp
      then have "\<exists>y. zw_socks w = (zw_socks w)(s := (zw_socks w s)\<lparr>zs_openEndpoints := y\<rparr>)" by metis
      then show ?thesis using 1 w1 unfolding lib_step_def by simp
    next
      case 2
      then show ?thesis using x by auto
    qed
  qed
qed

lemma ptr_endpoints [simp]:
  "k\<lparr>zs_ptr := b, zs_openEndpoints := x\<rparr> = k\<lparr>zs_openEndpoints := x, zs_ptr := b\<rparr>"
  by (cases k) simp

lemma ptr_same: "\<not> zs_ptr k \<Longrightarrow> k\<lparr>zs_ptr := False\<rparr> = k"
  by (cases k) simp

text \<open>
  Opening a closed socket that no poller holds: it is open and held by all its observers, or it is
  closed as before and held by none.
\<close>

lemma zs_open_spec:
  assumes "zs_open lib act s w = (r, w')" and "zlib_ok lib" and "act_ok act" and "\<not> isOpen w s"
    and "\<forall>p\<in>set (zs_observers (zw_socks w s)). observed w p s \<and> (p, s) \<notin> set (zw_polled w)" and "\<not> is_abort r"
  shows "zw_pollers w' = zw_pollers w \<and>
    (\<exists>x. zw_socks w' = (zw_socks w)(s := (zw_socks w s)\<lparr>zs_openEndpoints := x, zs_ptr := (r = Inr ())\<rparr>) \<and>
      (r \<noteq> Inr () \<longrightarrow> x = [] \<or> x = zs_openEndpoints (zw_socks w s))) \<and>
    set (zw_polled w') = (if r = Inr () then set (zw_polled w) \<union> set (zs_observers (zw_socks w s)) \<times> {s}
      else set (zw_polled w))"
proof -
  let ?k = "zw_socks w s" and ?c = "CSocket s (zs_type (zw_socks w s))"
  let ?w1 = "upd_sock s (\<lambda>k. k\<lparr>zs_ptr := True\<rparr>) (w\<lparr>zw_calls := zw_calls w @ [?c]\<rparr>)"
  show ?thesis
  proof (cases "zl_answer lib (zw_calls w) ?c")
    case (ZErr e)
    then have "r = Inl (Throw ZMQSocketCreateFailed ''could not create socket'' e)" "w' = w\<lparr>zw_calls := zw_calls w @ [?c]\<rparr>"
      using assms(1,4) by (auto simp: zs_open_def action_defs zcallA_def)
    then show ?thesis
      using assms(4) by (auto simp: isOpen_def ptr_same intro!: exI [of _ "zs_openEndpoints ?k"])
  next
    case (ZOk b)
    have run: "guardA (open_body lib act s) (zs_close lib s) ?w1 = (r, w')"
      using assms(1,4) ZOk by (simp add: zs_open_def open_body_def action_defs zcallA_def)
    obtain r2 w2 where 2: "open_body lib act s ?w1 = (r2, w2)" by fastforce
    have w1: "isOpen ?w1 s" "zs_observers (zw_socks ?w1 s) = zs_observers ?k" "zw_pollers ?w1 = zw_pollers w"
        "zw_polled ?w1 = zw_polled w" "zw_socks ?w1 = (zw_socks w)(s := ?k\<lparr>zs_ptr := True\<rparr>)"
      by (simp_all add: upd_sock_def isOpen_def)
    have o1: "\<forall>p\<in>set (zs_observers (zw_socks ?w1 s)). observed ?w1 p s" using assms(5) w1 by (auto simp: observed_def)
    obtain x where b: "zw_pollers w2 = zw_pollers w" "zw_socks w2 = (zw_socks w)(s := ?k\<lparr>zs_openEndpoints := x, zs_ptr := True\<rparr>)"
        "set (zw_polled w) \<subseteq> set (zw_polled w2)" "set (zw_polled w2) \<subseteq> set (zw_polled w) \<union> set (zs_observers ?k) \<times> {s}"
        "r2 = Inr () \<longrightarrow> set (zw_polled w2) = set (zw_polled w) \<union> set (zs_observers ?k) \<times> {s}"
      using open_body_spec [OF 2 assms(3) w1(1) o1] w1 by auto
    show ?thesis
    proof (cases r2)
      case (Inr u)
      then have "r = Inr ()" "w' = w2" using run 2 by (simp_all add: guardA_def)
      then show ?thesis using b Inr by auto
    next
      case (Inl e)
      then obtain e1 m n where e: "r2 = Inl (Throw e1 m n)" using run 2 assms(6) by (cases e) (auto simp: guardA_def is_abort_def)
      obtain r3 w3 where 3: "zs_close lib s w2 = (r3, w3)" by fastforce
      have r3: "\<not> is_abort r3" "r3 = Inr v \<Longrightarrow> r = Inl (Throw e1 m n) \<and> w' = w3" for v
        using run 2 e 3 assms(6) by (cases r3; auto simp: guardA_def is_abort_def split: fault.splits)+
      have "isOpen w2 s" "zs_observers (zw_socks w2 s) = zs_observers ?k"
          "\<forall>p\<in>set (zs_observers (zw_socks w2 s)). observed w2 p s"
        using b assms(5) by (auto simp: isOpen_def observed_def)
      from zs_close_spec [OF 3 assms(2) this(1,3) r3(1)] this(2)
      have c: "r3 = Inr ()" "zw_pollers w3 = zw_pollers w"
        "zw_socks w3 = (zw_socks w)(s := ?k\<lparr>zs_openEndpoints := [], zs_ptr := False\<rparr>)"
        "set (zw_polled w3) = set (zw_polled w2) - set (zs_observers ?k) \<times> {s}"
        using b by auto
      have "set (zw_polled w3) = set (zw_polled w)" using b(3,4) c(4) assms(5) by auto
      then show ?thesis using r3(2) [OF c(1)] c(2,3) by auto
    qed
  qed
qed

lemma poll_inv_observers:
  "poll_inv w \<Longrightarrow> p \<in> set (zs_observers (zw_socks w s)) \<Longrightarrow> observed w p s \<and> ((p, s) \<in> set (zw_polled w) \<longleftrightarrow> isOpen w s)"
  by (auto simp: poll_inv_def observed_def)

text \<open>A socket changes in what pollers do not see, or opens or closes together with its observers.\<close>

lemma poll_inv_sock:
  assumes inv: "poll_inv w" and p: "zw_pollers w' = zw_pollers w"
    and k: "zw_socks w' = (zw_socks w)(s := k)" "zs_observers k = zs_observers (zw_socks w s)"
    and polled: "set (zw_polled w') = (if zs_ptr k then set (zw_polled w) \<union> set (zs_observers k) \<times> {s}
      else set (zw_polled w) - set (zs_observers k) \<times> {s})"
  shows "poll_inv w'"
proof -
  have obs: "observed w' = observed w" using p by (auto simp: observed_def fun_eq_iff)
  have "q \<in> set (zs_observers (zw_socks w' t)) \<longleftrightarrow> observed w' q t" for q t
    using inv k obs by (auto simp: poll_inv_def)
  moreover have "(q, t) \<in> set (zw_polled w') \<longleftrightarrow> t \<in> set (zp_sockets pl) \<and> isOpen w' t"
    if "zw_pollers w' q = Some pl" "zp_obs pl" for q pl t
  proof (cases "t = s")
    case False
    then show ?thesis using inv that p k(1) polled by (auto simp: poll_inv_def isOpen_def)
  next
    case True
    have "q \<in> set (zs_observers (zw_socks w s)) \<longleftrightarrow> s \<in> set (zp_sockets pl)"
      using inv that p by (auto simp: poll_inv_def observed_def)
    moreover have "(q, s) \<in> set (zw_polled w) \<Longrightarrow> s \<in> set (zp_sockets pl)"
      using inv that p by (auto simp: poll_inv_def)
    ultimately show ?thesis using True polled k by (auto simp: isOpen_def split: if_splits)
  qed
  moreover have "(q, t) \<in> set (zw_polled w') \<Longrightarrow> zw_pollers w' q \<noteq> None" for q t
    using polled inv p obs k(2)
    by (auto simp: poll_inv_def observed_def split: if_splits)
  ultimately show ?thesis by (auto simp: poll_inv_def)
qed

lemma poll_inv_close:
  assumes "poll_inv w" and "zlib_ok lib" and "zs_close lib s w = (r, w')" and "\<not> is_abort r"
  shows "poll_inv w'"
proof (cases "isOpen w s")
  case False
  then show ?thesis using assms(1,3) by (simp add: zs_close_def)
next
  case True
  have "\<forall>p\<in>set (zs_observers (zw_socks w s)). observed w p s" using poll_inv_observers [OF assms(1)] by blast
  from zs_close_spec [OF assms(3,2) True this assms(4)]
  have c: "zw_pollers w' = zw_pollers w"
    "zw_socks w' = (zw_socks w)(s := (zw_socks w s)\<lparr>zs_openEndpoints := [], zs_ptr := False\<rparr>)"
    "set (zw_polled w') = set (zw_polled w) - set (zs_observers (zw_socks w s)) \<times> {s}" by simp_all
  show ?thesis by (rule poll_inv_sock [OF assms(1) c(1,2)]) (use c(3) in simp_all)
qed

lemma poll_inv_open:
  assumes "poll_inv w" and "zlib_ok lib" and "act_ok act" and "zs_open lib act s w = (r, w')" and "\<not> is_abort r"
  shows "poll_inv w'"
proof (cases "isOpen w s")
  case True
  then show ?thesis using assms(1,4) by (simp add: zs_open_def action_defs)
next
  case False
  then have o: "\<forall>p\<in>set (zs_observers (zw_socks w s)). observed w p s \<and> (p, s) \<notin> set (zw_polled w)"
    using poll_inv_observers [OF assms(1)] by blast
  obtain x where x: "zw_pollers w' = zw_pollers w"
      "zw_socks w' = (zw_socks w)(s := (zw_socks w s)\<lparr>zs_openEndpoints := x, zs_ptr := (r = Inr ())\<rparr>)"
      "set (zw_polled w') = (if r = Inr () then set (zw_polled w) \<union> set (zs_observers (zw_socks w s)) \<times> {s} else set (zw_polled w))"
    using zs_open_spec [OF assms(4,2,3) False o assms(5)] by blast
  show ?thesis by (rule poll_inv_sock [OF assms(1) x(1,2)]) (use x(3) o in auto)
qed

text \<open>Creating and destroying pollers.\<close>

lemma register_simps [simp]:
  "zs_ptr (registerPoller p k) = zs_ptr k" "zs_ptr (unregisterPoller p k) = zs_ptr k"
  "set (zs_observers (registerPoller p k)) = insert p (set (zs_observers k))"
  "set (zs_observers (unregisterPoller p k)) = set (zs_observers k) - {p}"
  "registerPoller p (registerPoller p k) = registerPoller p k"
  "unregisterPoller p (unregisterPoller p k) = unregisterPoller p k"
  by (auto simp: registerPoller_def unregisterPoller_def)

lemma unregister_loop:
  "forA arr (\<lambda>s. updA (upd_sock s (unregisterPoller p))) w =
     (Inr (), w\<lparr>zw_socks := \<lambda>t. if t \<in> set arr then unregisterPoller p (zw_socks w t) else zw_socks w t\<rparr>)"
  by (induction arr arbitrary: w) (auto simp: action_defs upd_sock_def fun_eq_iff)

lemma destroyPoller_spec:
  assumes "destroyPoller lib p obs arr w = (r, w')" and "\<not> is_abort r"
  shows "r = Inr () \<and> zw_pollers w' = (zw_pollers w)(p := None) \<and>
    set (zw_polled w') = {x \<in> set (zw_polled w). fst x \<noteq> p} \<and>
    zw_socks w' = (\<lambda>t. if obs \<and> t \<in> set arr then unregisterPoller p (zw_socks w t) else zw_socks w t)"
  using assms
  by (cases "zl_answer lib (zw_calls w) (CPollerDestroy p)"; cases obs)
    (auto simp: destroyPoller_def thenA_def bindA_def unregister_loop retA_def zcallA_def liftA_def updA_def is_abort_def)

definition create_step :: "zlib \<Rightarrow> pid \<Rightarrow> bool \<Rightarrow> bool \<Rightarrow> bool \<Rightarrow> sid \<Rightarrow> unit zaction" where
  "create_step lib p obs rd wr s =
     thenA (if obs then updA (upd_sock s (registerPoller p)) else retA ())
     (bindA (readA (\<lambda>w. isOpen w s)) (\<lambda>opn.
      if \<not> obs \<or> opn then addSocket lib p s rd wr else retA ()))"

lemma addSocket_spec:
  assumes "addSocket lib p s rd wr w = (r, w')"
  shows "\<not> is_abort r \<and> zw_socks w' = zw_socks w \<and> zw_pollers w' = zw_pollers w \<and>
    set (zw_polled w') = (if r = Inr () then insert (p, s) (set (zw_polled w)) else set (zw_polled w)) \<and>
    (r = Inr () \<longrightarrow> isOpen w s)"
  using assms
  by (cases "zl_answer lib (zw_calls w) (CPollerAdd p s rd wr)"; cases "isOpen w s")
    (auto simp: addSocket_def is_abort_def action_defs zcallA_def)

lemma create_step_spec:
  assumes "create_step lib p obs rd wr s w = (r, w')"
  shows "\<not> is_abort r \<and> zw_pollers w' = zw_pollers w \<and>
    zw_socks w' = (zw_socks w)(s := if obs then registerPoller p (zw_socks w s) else zw_socks w s) \<and>
    set (zw_polled w) \<subseteq> set (zw_polled w') \<and> set (zw_polled w') \<subseteq> insert (p, s) (set (zw_polled w)) \<and>
    (r = Inr () \<longrightarrow> ((p, s) \<in> set (zw_polled w') \<longleftrightarrow> (p, s) \<in> set (zw_polled w) \<or> isOpen w s))"
proof -
  let ?w = "if obs then upd_sock s (registerPoller p) w else w"
  have run: "(if \<not> obs \<or> isOpen ?w s then addSocket lib p s rd wr ?w else (Inr (), ?w)) = (r, w')"
    using assms by (auto simp: create_step_def thenA_def bindA_def updA_def retA_def readA_def split: if_splits)
  have o: "isOpen ?w s = isOpen w s" by (simp add: isOpen_def upd_sock_def)
  show ?thesis
  proof (cases "\<not> obs \<or> isOpen w s")
    case True
    then have "addSocket lib p s rd wr ?w = (r, w')" using run o by simp
    from addSocket_spec [OF this] o show ?thesis by (auto simp: upd_sock_def)
  next
    case False
    then show ?thesis using run o by (auto simp: upd_sock_def is_abort_def)
  qed
qed

definition registered_in :: "bool \<Rightarrow> pid \<Rightarrow> sid set \<Rightarrow> zworld \<Rightarrow> zworld \<Rightarrow> bool" where
  "registered_in obs p A w w' \<longleftrightarrow> zw_pollers w' = zw_pollers w \<and>
     (\<forall>t. zw_socks w' t = (if obs \<and> t \<in> A then registerPoller p (zw_socks w t) else zw_socks w t)) \<and>
     set (zw_polled w) \<subseteq> set (zw_polled w') \<and> set (zw_polled w') \<subseteq> set (zw_polled w) \<union> {p} \<times> A"

lemma create_loop:
  assumes "forA arr (create_step lib p obs rd wr) w = (r, w')"
  shows "\<not> is_abort r \<and> (\<exists>A \<subseteq> set arr. registered_in obs p A w w' \<and> (r = Inr () \<longrightarrow> A = set arr \<and>
    (\<forall>t\<in>set arr. (p, t) \<in> set (zw_polled w') \<longleftrightarrow> (p, t) \<in> set (zw_polled w) \<or> isOpen w t)))"
  using assms
proof (induction arr arbitrary: w)
  case Nil
  then show ?case by (auto simp: retA_def is_abort_def registered_in_def)
next
  case (Cons s arr)
  obtain r1 w1 where 1: "create_step lib p obs rd wr s w = (r1, w1)" by fastforce
  from create_step_spec [OF 1] have c: "\<not> is_abort r1" "zw_pollers w1 = zw_pollers w"
    "zw_socks w1 = (zw_socks w)(s := if obs then registerPoller p (zw_socks w s) else zw_socks w s)"
    "set (zw_polled w) \<subseteq> set (zw_polled w1)" "set (zw_polled w1) \<subseteq> insert (p, s) (set (zw_polled w))"
    "r1 = Inr () \<Longrightarrow> (p, s) \<in> set (zw_polled w1) \<longleftrightarrow> (p, s) \<in> set (zw_polled w) \<or> isOpen w s" by blast+
  have opn: "isOpen w1 t = isOpen w t" for t using c(3) by (simp add: isOpen_def)
  show ?case
  proof (cases r1)
    case (Inl e)
    then have "r = Inl e" "w' = w1" using Cons.prems 1 by (auto simp: thenA_def bindA_def)
    moreover have "registered_in obs p {s} w w1" using c by (auto simp: registered_in_def)
    ultimately show ?thesis using c(1) Inl by (intro conjI exI [of _ "{s}"]) (auto simp: is_abort_def)
  next
    case (Inr u)
    then have run: "forA arr (create_step lib p obs rd wr) w1 = (r, w')" using Cons.prems 1 by (simp add: thenA_def bindA_def)
    obtain A where A: "\<not> is_abort r" "A \<subseteq> set arr" "registered_in obs p A w1 w'" "r = Inr () \<longrightarrow> A = set arr \<and>
        (\<forall>t\<in>set arr. (p, t) \<in> set (zw_polled w') \<longleftrightarrow> (p, t) \<in> set (zw_polled w1) \<or> isOpen w1 t)"
      using Cons.IH [OF run] by blast
    have reg: "registered_in obs p (insert s A) w w'"
      unfolding registered_in_def
    proof (intro conjI allI)
      show "zw_socks w' t = (if obs \<and> t \<in> insert s A then registerPoller p (zw_socks w t) else zw_socks w t)" for t
        using A(3) c(3) by (auto simp: registered_in_def)
    qed (use A(3) c(2,4,5) in \<open>auto simp: registered_in_def\<close>)
    have "(p, t) \<in> set (zw_polled w') \<longleftrightarrow> (p, t) \<in> set (zw_polled w) \<or> isOpen w t" if "r = Inr ()" "t \<in> set (s # arr)" for t
    proof (cases "t \<in> set arr")
      case True
      then show ?thesis using A(4) that(1) c(4,5) c(6) Inr opn by auto
    next
      case False
      then have "t = s" "s \<notin> A" using that A(2) by auto
      then show ?thesis using A(3) c(6) Inr by (auto simp: registered_in_def)
    qed
    then show ?thesis using A reg by (intro conjI exI [of _ "insert s A"]) auto
  qed
qed

lemma createPoller_eq:
  "createPoller lib p obs arr rd wr w =
     (let w1 = w\<lparr>zw_calls := zw_calls w @ [CPollerNew p]\<rparr> in
      case zl_answer lib (zw_calls w) (CPollerNew p) of
        ZErr e \<Rightarrow> (Inl (Throw ZMQPollerCreateFailed ''could not create poller'' e), w1)
      | ZOk _ \<Rightarrow> guardA (forA arr (create_step lib p obs rd wr)) (destroyPoller lib p obs arr) w1)"
  by (simp add: createPoller_def create_step_def [abs_def] bindA_def zcallA_def liftA_def Let_def split: zanswer.split)

text \<open>A poller that could not be created leaves nothing behind.\<close>

lemma createPoller_spec:
  assumes "createPoller lib p obs arr rd wr w = (r, w')" and "\<not> is_abort r" and "zw_pollers w p = None"
    and "\<forall>s. p \<notin> set (zs_observers (zw_socks w s)) \<and> (p, s) \<notin> set (zw_polled w)"
  shows "if r = Inr ()
    then registered_in obs p (set arr) w w' \<and> (\<forall>t\<in>set arr. (p, t) \<in> set (zw_polled w') \<longleftrightarrow> isOpen w t)
    else zw_pollers w' = zw_pollers w \<and> set (zw_polled w') = set (zw_polled w) \<and>
      (\<forall>t. zs_ptr (zw_socks w' t) = zs_ptr (zw_socks w t) \<and> set (zs_observers (zw_socks w' t)) = set (zs_observers (zw_socks w t)))"
proof (cases "zl_answer lib (zw_calls w) (CPollerNew p)")
  case (ZErr e)
  then show ?thesis using assms(1) by (auto simp: createPoller_eq Let_def)
next
  case (ZOk b)
  let ?w1 = "w\<lparr>zw_calls := zw_calls w @ [CPollerNew p]\<rparr>"
  obtain r2 w2 where 2: "forA arr (create_step lib p obs rd wr) ?w1 = (r2, w2)" by fastforce
  have calls: "registered_in obs p A ?w1 v = registered_in obs p A w v" "isOpen ?w1 t = isOpen w t"
    "zw_polled ?w1 = zw_polled w" for A v t by (simp_all add: registered_in_def isOpen_def)
  obtain A where A: "\<not> is_abort r2" "A \<subseteq> set arr" "registered_in obs p A w w2" "r2 = Inr () \<longrightarrow> A = set arr \<and>
      (\<forall>t\<in>set arr. (p, t) \<in> set (zw_polled w2) \<longleftrightarrow> (p, t) \<in> set (zw_polled w) \<or> isOpen w t)"
    using create_loop [OF 2, unfolded calls] by blast
  have run: "guardA (forA arr (create_step lib p obs rd wr)) (destroyPoller lib p obs arr) ?w1 = (r, w')"
    using assms(1) ZOk by (simp add: createPoller_eq Let_def)
  show ?thesis
  proof (cases r2)
    case (Inr u)
    then have "r = Inr ()" "w' = w2" using run 2 by (simp_all add: guardA_def)
    then show ?thesis using A Inr assms(4) by auto
  next
    case (Inl e)
    then obtain e1 m n where e: "r2 = Inl (Throw e1 m n)" using A(1) by (cases e) (auto simp: is_abort_def)
    obtain r3 w3 where 3: "destroyPoller lib p obs arr w2 = (r3, w3)" by fastforce
    have r3: "\<not> is_abort r3" using run 2 e 3 assms(2) by (cases r3) (auto simp: guardA_def is_abort_def split: fault.splits)
    note d = destroyPoller_spec [OF 3 r3]
    then have r: "r = Inl (Throw e1 m n)" "w' = w3" using run 2 e 3 by (simp_all add: guardA_def)
    have "zw_pollers w3 = zw_pollers w" using d A(3) assms(3) by (auto simp: registered_in_def fun_eq_iff)
    moreover have "set (zw_polled w3) = set (zw_polled w)" using d A(3) assms(4) by (auto simp: registered_in_def)
    moreover have "zs_ptr (zw_socks w3 t) = zs_ptr (zw_socks w t) \<and>
        set (zs_observers (zw_socks w3 t)) = set (zs_observers (zw_socks w t))" for t
      using d A(2,3) assms(4) by (auto simp: registered_in_def)
    ultimately show ?thesis using r by simp
  qed
qed

lemma poll_inv_fresh:
  assumes "poll_inv w" and "zw_pollers w p = None"
  shows "p \<notin> set (zs_observers (zw_socks w s)) \<and> (p, s) \<notin> set (zw_polled w)"
  using assms by (auto simp: poll_inv_def observed_def)

lemma poll_inv_cong:
  assumes "poll_inv w" and "zw_pollers w' = zw_pollers w" and "set (zw_polled w') = set (zw_polled w)"
    and "\<forall>t. zs_ptr (zw_socks w' t) = zs_ptr (zw_socks w t) \<and>
      set (zs_observers (zw_socks w' t)) = set (zs_observers (zw_socks w t))"
  shows "poll_inv w'"
  using assms by (simp add: poll_inv_def observed_def isOpen_def)

lemma poll_inv_delete:
  assumes "poll_inv w" and "Poller_delete lib p w = (r, w')" and "\<not> is_abort r"
  shows "poll_inv w'"
proof (cases "zw_pollers w p")
  case None
  then show ?thesis using assms by (simp add: Poller_delete_def)
next
  case (Some pl)
  then have "destroyPoller lib p (zp_obs pl) (zp_sockets pl) w = (r, w')" using assms(2) by (simp add: Poller_delete_def)
  note d = destroyPoller_spec [OF this assms(3)]
  have "q \<in> set (zs_observers (zw_socks w' s)) \<longleftrightarrow> observed w' q s" for q s
    using assms(1) d Some by (auto simp: poll_inv_def observed_def)
  moreover have "isOpen w' s = isOpen w s" for s using d by (simp add: isOpen_def)
  ultimately show ?thesis using assms(1) d by (auto simp: poll_inv_def)
qed

lemma poll_inv_new:
  assumes "poll_inv w" and "zw_pollers w p = None" and "Poller_new lib p ev obs arr w = (r, w')" and "\<not> is_abort r"
  shows "poll_inv w'"
proof -
  obtain r1 w1 where 1: "createPoller lib p obs arr (ev = PollRead) (ev = PollWrite) w = (r1, w1)" by fastforce
  have r: "r = r1" using assms(3) 1 by (cases r1) (auto simp: Poller_new_def thenA_def bindA_def updA_def)
  have fresh: "\<forall>s. p \<notin> set (zs_observers (zw_socks w s)) \<and> (p, s) \<notin> set (zw_polled w)"
    using poll_inv_fresh [OF assms(1,2)] by blast
  note c = createPoller_spec [OF 1 assms(4) [unfolded r] assms(2) fresh]
  show ?thesis
  proof (cases r1)
    case (Inl e)
    then have "w' = w1" using assms(3) 1 by (simp add: Poller_new_def thenA_def bindA_def)
    then show ?thesis using c Inl poll_inv_cong [OF assms(1)] by simp
  next
    case (Inr u)
    let ?pl = "\<lparr>zp_sockets = arr, zp_type = ev, zp_obs = obs, zp_timeout = - 1\<rparr>"
    have w': "w' = w1\<lparr>zw_pollers := (zw_pollers w1)(p \<mapsto> ?pl)\<rparr>"
      using assms(3) 1 Inr by (simp add: Poller_new_def thenA_def bindA_def updA_def)
    from c Inr have reg: "registered_in obs p (set arr) w w1"
      and pol: "\<forall>t\<in>set arr. (p, t) \<in> set (zw_polled w1) \<longleftrightarrow> isOpen w t" by simp_all
    have opn: "isOpen w' s = isOpen w s" for s using reg by (simp add: w' isOpen_def registered_in_def)
    have others: "q \<noteq> p \<Longrightarrow> (q, s) \<in> set (zw_polled w1) \<longleftrightarrow> (q, s) \<in> set (zw_polled w)"
      and own: "(p, s) \<in> set (zw_polled w1) \<Longrightarrow> s \<in> set arr" for q s
      using reg fresh by (auto simp: registered_in_def)
    have "q \<in> set (zs_observers (zw_socks w' s)) \<longleftrightarrow> observed w' q s" for q s
      using assms(1,2) reg fresh by (auto simp: w' poll_inv_def observed_def registered_in_def)
    moreover have "(q, s) \<in> set (zw_polled w') \<longleftrightarrow> s \<in> set (zp_sockets pl) \<and> isOpen w' s"
      if "zw_pollers w' q = Some pl" "zp_obs pl" for q pl s
    proof (cases "q = p")
      case True
      then show ?thesis using that pol own opn by (auto simp: w')
    next
      case False
      then show ?thesis using that assms(1) reg others opn by (auto simp: w' poll_inv_def registered_in_def)
    qed
    moreover have "zw_pollers w' q \<noteq> None" if "(q, s) \<in> set (zw_polled w')" for q s
      using that assms(1) reg others by (cases "q = p") (auto simp: w' poll_inv_def registered_in_def)
    ultimately show ?thesis by (auto simp: poll_inv_def)
  qed
qed

section \<open>Programs of sockets and pollers\<close>

text \<open>
  The operations a program applies to its sockets and pollers, in any order and with any result: an
  exception of one operation does not end the program.
\<close>

datatype zop =
    ZConnect sid
  | ZBind sid
  | ZClose sid
  | ZConfigure sid "ZSocket \<Rightarrow> ZSocket"
  | ZPollerNew pid PollerEvents_Type bool "sid list"
  | ZPollerDelete pid
  | ZPollerWait pid "sid list" int

definition outcome :: "'a result \<times> zworld \<Rightarrow> fault option \<times> zworld" where
  "outcome x = (case fst x of Inl e \<Rightarrow> Some e | Inr _ \<Rightarrow> None, snd x)"

fun zop_run :: "zlib \<Rightarrow> zop \<Rightarrow> zworld \<Rightarrow> fault option \<times> zworld" where
  "zop_run lib (ZConnect s) w = outcome (zs_connect lib s w)"
| "zop_run lib (ZBind s) w = outcome (zs_bind lib s w)"
| "zop_run lib (ZClose s) w = outcome (zs_close lib s w)"
| "zop_run lib (ZConfigure s g) w = (None, upd_sock s g w)"
| "zop_run lib (ZPollerNew p ev obs arr) w = outcome (Poller_new lib p ev obs arr w)"
| "zop_run lib (ZPollerDelete p) w = outcome (Poller_delete lib p w)"
| "zop_run lib (ZPollerWait p evs tmo) w = outcome (waitForEvents lib p evs tmo w)"

text \<open>
  What a program may do: the setters change neither the handle nor the observers of a socket, and a
  poller is created at a fresh address.
\<close>

definition zop_ok :: "zworld \<Rightarrow> zop \<Rightarrow> bool" where
  "zop_ok w c \<longleftrightarrow>
     (case c of
        ZConfigure s g \<Rightarrow> zs_ptr (g (zw_socks w s)) = zs_ptr (zw_socks w s) \<and>
          zs_observers (g (zw_socks w s)) = zs_observers (zw_socks w s)
      | ZPollerNew p _ _ _ \<Rightarrow> zw_pollers w p = None
      | _ \<Rightarrow> True)"

inductive zreach :: "zlib \<Rightarrow> zworld \<Rightarrow> zworld \<Rightarrow> bool" for lib w0 where
  start: "zreach lib w0 w0"
| op: "zreach lib w0 w" if "zreach lib w0 w1" "zop_ok w1 c" "zop_run lib c w1 = (f, w)" "\<forall>m. f \<noteq> Some (Abort m)"

definition empty_world :: "zworld \<Rightarrow> bool" where
  "empty_world w \<longleftrightarrow> (\<forall>s. \<not> isOpen w s \<and> zs_observers (zw_socks w s) = []) \<and> zw_pollers w = Map.empty \<and> zw_polled w = []"

lemma run_result:
  assumes "outcome x = (f, w)" and "\<forall>m. f \<noteq> Some (Abort m)"
  obtains r where "x = (r, w)" and "\<not> is_abort r"
  using assms by (cases x) (auto simp: outcome_def is_abort_def split: sum.splits fault.splits)

lemma poll_inv_wait:
  assumes "poll_inv w" and "waitForEvents lib p evs tmo w = (r, w')"
  shows "poll_inv w'"
  by (rule poll_inv_cong [OF assms(1)]; use assms(2) in
    \<open>auto simp: waitForEvents_def zcallA_def action_defs split: zanswer.splits if_splits\<close>)

lemma zop_run_inv:
  assumes "poll_inv w" and "zlib_ok lib" and "zop_ok w c" and "zop_run lib c w = (f, w')"
    and "\<forall>m. f \<noteq> Some (Abort m)"
  shows "poll_inv w'"
proof (cases c)
  case (ZConfigure s g)
  then show ?thesis using assms(3,4) by (intro poll_inv_cong [OF assms(1)]) (auto simp: zop_ok_def upd_sock_def split: if_splits)
qed (use assms in \<open>auto elim!: run_result simp: zs_connect_def zs_bind_def zop_ok_def
    dest: poll_inv_open [OF _ _ act_ok_code(1)] poll_inv_open [OF _ _ act_ok_code(2)] poll_inv_close
      poll_inv_new poll_inv_delete poll_inv_wait\<close>)

lemma zreach_inv: "empty_world w0 \<Longrightarrow> zlib_ok lib \<Longrightarrow> zreach lib w0 w \<Longrightarrow> poll_inv w"
proof -
  assume e: "empty_world w0" and l: "zlib_ok lib" and r: "zreach lib w0 w"
  have "poll_inv w0" using e by (simp add: empty_world_def poll_inv_def observed_def)
  with r show "poll_inv w" by induction (use l zop_run_inv in blast)+
qed

text \<open>C14: Whatever sequence of operations a program applies to its sockets and pollers, whether they succeed
  or throw, an automatic poller watches exactly its open sockets: a socket is in the poller's set of the
  ZeroMQ library if and only if the poller was created with it and it is open now, and exactly the
  automatic pollers that hold a socket observe it, so no destroyed poller is ever called back.\<close>

theorem poller_watches_open:
  assumes "empty_world w0" and "zlib_ok lib" and "zreach lib w0 w"
  shows "(\<forall>p pl s. zw_pollers w p = Some pl \<longrightarrow> zp_obs pl \<longrightarrow>
      ((p, s) \<in> set (zw_polled w) \<longleftrightarrow> s \<in> set (zp_sockets pl) \<and> isOpen w s)) \<and>
    (\<forall>p s. p \<in> set (zs_observers (zw_socks w s)) \<longleftrightarrow>
      (\<exists>pl. zw_pollers w p = Some pl \<and> zp_obs pl \<and> s \<in> set (zp_sockets pl)))"
  using zreach_inv [OF assms] by (simp add: poll_inv_def observed_def)

definition sample_lib :: zlib where
  "sample_lib =
     \<lparr>zl_answer = (\<lambda>calls c. case c of
          CBind s endp \<Rightarrow> if endp = [] then ZErr EINVAL
            else if length (filter (\<lambda>x. x = c) calls) < 2 then ZErr EADDRINUSE else ZOk []
        | CGetLastEndpoint s \<Rightarrow> ZOk [116]
        | _ \<Rightarrow> ZOk []),
      zl_remove = (\<lambda>calls there. if there then ZOk [] else ZErr EINVAL),
      zl_clock = (\<lambda>calls. 10 * int (length calls)), zl_long = 9223372036854775807\<rparr>"

definition sample_world :: zworld where
  "sample_world =
     \<lparr>zw_socks = (\<lambda>s. zs_setEndpoints (if s = 0 then [] else [[116, 99, 112]]) (ZSocket_new PULL)),
      zw_pollers = Map.empty, zw_calls = [], zw_polled = []\<rparr>"

lemma sample_lib_ok: "zlib_ok sample_lib"
  by (simp add: sample_lib_def zlib_ok_def)

lemma sample_world_empty: "empty_world sample_world"
  by (simp add: sample_world_def empty_world_def isOpen_def zs_setEndpoints_def ZSocket_new_def)

fun zops_run :: "zlib \<Rightarrow> zop list \<Rightarrow> zworld \<Rightarrow> zworld option" where
  "zops_run lib [] w = Some w"
| "zops_run lib (c # cs) w =
     (case zop_run lib c w of
        (Some (Abort _), _) \<Rightarrow> None
      | (_, w') \<Rightarrow> if zop_ok w c then zops_run lib cs w' else None)"

lemma zops_run_reach:
  assumes "zops_run lib cs w1 = Some w" and "zreach lib w0 w1"
  shows "zreach lib w0 w"
  using assms
proof (induction cs arbitrary: w1)
  case (Cons c cs)
  obtain f w2 where 2: "zop_run lib c w1 = (f, w2)" by fastforce
  have ok: "zop_ok w1 c" "\<forall>m. f \<noteq> Some (Abort m)" and run: "zops_run lib cs w2 = Some w"
    using Cons.prems(1) 2 by (auto split: option.splits fault.splits if_splits)
  show ?case by (rule Cons.IH [OF run zreach.op [OF Cons.prems(2) ok(1) 2 ok(2)]])
qed simp

definition sample_ops :: "zop list" where
  "sample_ops = [ZPollerNew 0 PollRead True [0, 1, 2], ZConnect 1, ZConnect 2, ZClose 2]"

lemmas sample_eval = sample_lib_def sample_world_def outcome_def zs_setEndpoints_def ZSocket_new_def Poller_new_def
  createPoller_def guardA_def action_defs zcallA_def upd_sock_def registerPoller_def isOpen_def addSocket_def zop_ok_def
  zs_connect_def zs_connectTo_def zs_open_def zs_configure_def zs_attach_def zs_setOption_def zs_join_def
  zs_getLastEndpoint_def updateOnOpen_def updateOnClose_def updateSocket_def zs_close_def delSocket_def

lemma sample_ops_run:
  "case zops_run sample_lib sample_ops sample_world of
     None \<Rightarrow> False
   | Some w \<Rightarrow> zw_pollers w 0 = Some \<lparr>zp_sockets = [0, 1, 2], zp_type = PollRead, zp_obs = True, zp_timeout = - 1\<rparr> \<and>
       isOpen w 1 \<and> \<not> isOpen w 2"
  by (simp add: sample_ops_def sample_eval)

theorem poller_watches_open_witness:
  "\<exists>w. zreach sample_lib sample_world w \<and> isOpen w 1 \<and> \<not> isOpen w 2 \<and>
     (\<forall>s. (0, s) \<in> set (zw_polled w) \<longleftrightarrow> s \<in> set [0, 1, 2] \<and> isOpen w s)"
proof -
  obtain w where run: "zops_run sample_lib sample_ops sample_world = Some w"
    and pl: "zw_pollers w 0 = Some \<lparr>zp_sockets = [0, 1, 2], zp_type = PollRead, zp_obs = True, zp_timeout = - 1\<rparr>"
    and op: "isOpen w 1" "\<not> isOpen w 2"
    using sample_ops_run by (auto split: option.splits)
  have r: "zreach sample_lib sample_world w" by (rule zops_run_reach [OF run zreach.start])
  have "\<forall>s. (0, s) \<in> set (zw_polled w) \<longleftrightarrow> s \<in> set [0, 1, 2] \<and> isOpen w s"
    using poller_watches_open [OF sample_world_empty sample_lib_ok r] pl by auto
  then show ?thesis using r op by blast
qed

section \<open>The coarse sockets of the sessions\<close>

text \<open>
  The sessions use sockets through the coarse operations of the network model, which open a socket in one
  step. This is the view of a socket they have.
\<close>

definition zs_abs :: "ZSocket \<Rightarrow> Socket" where
  "zs_abs k = \<lparr>sk_endpoints = zs_endpoints k, sk_groups = zs_groups k, sk_open = zs_ptr k\<rparr>"



section \<open>Binding returns\<close>

text \<open>
  Between two attempts to bind the thread sleeps for 10 milliseconds, which the steady clock shows.
\<close>

definition clock_ok :: "zlib \<Rightarrow> bool" where
  "clock_ok lib \<longleftrightarrow>
     (\<forall>calls s endp. zl_answer lib calls (CBind s endp) = ZErr EADDRINUSE \<longrightarrow>
        zl_clock lib calls + 10 \<le> zl_clock lib (calls @ [CBind s endp]))"

lemma bind_loop_within:
  assumes "clock_ok lib" and "0 < tmo" and "tmo - (zl_clock lib (zw_calls w) - start) \<le> 10 * int (Suc n)"
  shows "\<exists>a w'. bind_loop lib s endp tmo start w = Some (a, w') \<and> length (zw_calls w') \<le> length (zw_calls w) + Suc n \<and>
    (a = ZErr EADDRINUSE \<longrightarrow> tmo \<le> zl_clock lib (zw_calls w') - start)"
  using assms(3)
proof (induction n arbitrary: w)
  case 0
  let ?c = "CBind s endp"
  show ?case
  proof (cases "zl_answer lib (zw_calls w) ?c = ZErr EADDRINUSE")
    case True
    then have "zl_clock lib (zw_calls w) + 10 \<le> zl_clock lib (zw_calls w @ [?c])" using assms(1) by (simp add: clock_ok_def)
    then show ?thesis using 0 assms(2) True by (subst bind_loop.simps) (simp add: Let_def)
  qed (subst bind_loop.simps, simp add: Let_def)
next
  case (Suc n)
  let ?c = "CBind s endp" and ?w = "w\<lparr>zw_calls := zw_calls w @ [CBind s endp]\<rparr>"
  show ?case
  proof (cases "zl_answer lib (zw_calls w) ?c = ZErr EADDRINUSE \<and> \<not> tmo \<le> zl_clock lib (zw_calls ?w) - start")
    case True
    then have "zl_clock lib (zw_calls w) + 10 \<le> zl_clock lib (zw_calls ?w)" using assms(1) by (simp add: clock_ok_def)
    then have "tmo - (zl_clock lib (zw_calls ?w) - start) \<le> 10 * int (Suc n)" using Suc.prems by simp
    from Suc.IH [OF this] show ?thesis using True assms(2) by (subst bind_loop.simps) (auto simp: Let_def)
  next
    case False
    then show ?thesis using assms(2) by (subst bind_loop.simps) (auto simp: Let_def)
  qed
qed

text \<open>Binding with a timeout returns: the loop that tries again while the address is in use ends after at
  most one attempt per ten milliseconds of the timeout (500 for the timeout of 5 seconds that \<^verbatim>\<open>bind()\<close>
  uses), and it gives up on an address in use only when the timeout has passed.\<close>

theorem bind_returns:
  assumes "clock_ok lib" and "0 < timeout"
  shows "\<exists>a w'. bind_loop lib s endpoint timeout (zl_clock lib (zw_calls w)) w = Some (a, w') \<and>
    int (length (zw_calls w')) \<le> int (length (zw_calls w)) + (timeout + 9) div 10 \<and>
    (a = ZErr EADDRINUSE \<longrightarrow> timeout \<le> zl_clock lib (zw_calls w') - zl_clock lib (zw_calls w))"
proof -
  define n where "n = nat ((timeout - 1) div 10)"
  have n: "int (Suc n) = (timeout + 9) div 10" using assms(2) unfolding n_def by linarith
  have "timeout \<le> 10 * int (Suc n)" unfolding n by linarith
  then show ?thesis
    using bind_loop_within [OF assms, of w "zl_clock lib (zw_calls w)" n s endpoint] n by fastforce
qed

theorem bind_returns_witness:
  "\<exists>a w'. bind_loop sample_lib 1 [116] 5000 0 sample_world = Some (a, w') \<and> length (zw_calls w') \<le> 500"
proof -
  have "clock_ok sample_lib" by (simp add: clock_ok_def sample_lib_def)
  from bind_returns [OF this, of 5000 1 "[116]" sample_world] show ?thesis
    by (auto simp: sample_world_def sample_lib_def)
qed

end
