(* ===== verification/Fuurin_Poll.thy ===== *)
theory Fuurin_Poll
  imports Fuurin_Socket
begin

text \<open>
  What a wait of a poller gives, \<^verbatim>\<open>PollerEvents\<close> and \<^verbatim>\<open>PollerIterator\<close> of \<^verbatim>\<open>src/zmqpoller.cpp\<close> and the class
  \<^verbatim>\<open>Poller\<close> of \<^verbatim>\<open>include/fuurin/zmqpoller.h\<close>. The events of the library are written into a buffer of raw
  characters inside of the poller, and the events and iterators the program gets are pointers into this
  buffer. A pointer is an offset in characters; the size of an event of the library is a parameter.
\<close>

section \<open>The buffer\<close>

text \<open>
  The buffer has 32 characters for each socket. An event is at the offset of its first character; only its
  user data is read, which is the socket it was added with.
\<close>

record PollerObj =
  po_id :: pid
  po_type :: PollerEvents_Type
  po_count :: nat
  po_raw :: "nat \<rightharpoonup> sid"

definition raw_size :: "PollerObj \<Rightarrow> nat" where
  "raw_size b = 32 * po_count b"

text \<open>What the compiler checks when the program is built, for the buffer of a poller of one socket.\<close>

definition static_assert_raw :: "nat \<Rightarrow> bool" where
  "static_assert_raw evsize \<longleftrightarrow> 32 * 1 \<ge> evsize \<and> 0 < evsize"

text \<open>The library writes the events one after the other; writing or reading past the end is a fault.\<close>

definition raw_fault :: "'a result" where
  "raw_fault = Inl (Abort ''access out of the buffer of events'')"

fun raw_write :: "nat \<Rightarrow> nat \<Rightarrow> sid list \<Rightarrow> PollerObj \<Rightarrow> PollerObj result" where
  "raw_write evsize off [] b = Inr b"
| "raw_write evsize off (s # ss) b =
     (if off + evsize > raw_size b then raw_fault
      else raw_write evsize (off + evsize) ss (b\<lparr>po_raw := (po_raw b)(off \<mapsto> s)\<rparr>))"

definition raw_read :: "nat \<Rightarrow> nat \<Rightarrow> PollerObj \<Rightarrow> sid result" where
  "raw_read evsize off b =
     (if off + evsize > raw_size b then raw_fault
      else case po_raw b off of None \<Rightarrow> raw_fault | Some s \<Rightarrow> Inr s)"

section \<open>Iterators and events\<close>

record PollerIterator =
  it_ev :: nat

definition PollerIterator_new :: "nat \<Rightarrow> PollerIterator" where
  "PollerIterator_new ev = \<lparr>it_ev = ev\<rparr>"

definition it_incr :: "nat \<Rightarrow> PollerIterator \<Rightarrow> PollerIterator" where
  "it_incr evsize it = it\<lparr>it_ev := it_ev it + evsize\<rparr>"

text \<open>The postfix form gives the iterator as it was.\<close>

definition it_postincr :: "nat \<Rightarrow> PollerIterator \<Rightarrow> PollerIterator \<times> PollerIterator" where
  "it_postincr evsize it = (let ret = it in (ret, it_incr evsize it))"

definition it_eq :: "PollerIterator \<Rightarrow> PollerIterator \<Rightarrow> bool" where
  "it_eq a b \<longleftrightarrow> it_ev a = it_ev b"

definition it_ne :: "PollerIterator \<Rightarrow> PollerIterator \<Rightarrow> bool" where
  "it_ne a b \<longleftrightarrow> \<not> it_eq a b"

definition it_deref :: "nat \<Rightarrow> PollerObj \<Rightarrow> PollerIterator \<Rightarrow> sid result" where
  "it_deref evsize b it = raw_read evsize (it_ev it) b"

record PollerEvents =
  pe_type :: PollerEvents_Type
  pe_first :: nat
  pe_size :: nat

definition PollerEvents_new :: "PollerEvents_Type \<Rightarrow> nat \<Rightarrow> nat \<Rightarrow> PollerEvents" where
  "PollerEvents_new ty first sz = \<lparr>pe_type = ty, pe_first = first, pe_size = sz\<rparr>"

definition pe_empty :: "PollerEvents \<Rightarrow> bool" where
  "pe_empty e \<longleftrightarrow> pe_size e = 0"

definition pe_at :: "nat \<Rightarrow> PollerObj \<Rightarrow> PollerEvents \<Rightarrow> nat \<Rightarrow> sid result" where
  "pe_at evsize b e pos = it_deref evsize b (PollerIterator_new (pe_first e + pos * evsize))"

definition pe_begin :: "PollerEvents \<Rightarrow> PollerIterator" where
  "pe_begin e = PollerIterator_new (pe_first e)"

definition pe_end :: "nat \<Rightarrow> PollerEvents \<Rightarrow> PollerIterator" where
  "pe_end evsize e = PollerIterator_new (pe_first e + pe_size e * evsize)"

text \<open>
  The loop of the program over the events. It ends when the iterators are equal and not when one is past
  the other, so that it ends at all has to be shown.
\<close>

partial_function (option) range_for :: "nat \<Rightarrow> PollerObj \<Rightarrow> PollerIterator \<Rightarrow> PollerIterator \<Rightarrow> sid list result option" where
  "range_for evsize b it till =
     (if \<not> it_ne it till then Some (Inr [])
      else (case it_deref evsize b it of
              Inl e \<Rightarrow> Some (Inl e)
            | Inr s \<Rightarrow>
                Option.bind (range_for evsize b (it_incr evsize it) till) (\<lambda>r.
                  Some (case r of Inl e \<Rightarrow> Inl e | Inr ss \<Rightarrow> Inr (s # ss)))))"

section \<open>Pollers\<close>

text \<open>The constructors with a timeout, and those of the automatic pollers, which observe their sockets.\<close>

definition Poller_new_tmeo :: "zlib \<Rightarrow> pid \<Rightarrow> PollerEvents_Type \<Rightarrow> int \<Rightarrow> bool \<Rightarrow> sid list \<Rightarrow> unit zaction" where
  "Poller_new_tmeo lib p ev tmeo obs arr =
     thenA (Poller_new lib p ev obs arr)
     (updA (\<lambda>w. w\<lparr>zw_pollers := (zw_pollers w)(p := map_option (Poller_setTimeout tmeo) (zw_pollers w p))\<rparr>))"

definition PollerAuto_new :: "zlib \<Rightarrow> pid \<Rightarrow> PollerEvents_Type \<Rightarrow> sid list \<Rightarrow> unit zaction" where
  "PollerAuto_new lib p ev arr = Poller_new lib p ev True arr"

definition PollerAuto_new_tmeo :: "zlib \<Rightarrow> pid \<Rightarrow> PollerEvents_Type \<Rightarrow> int \<Rightarrow> sid list \<Rightarrow> unit zaction" where
  "PollerAuto_new_tmeo lib p ev tmeo arr = Poller_new_tmeo lib p ev tmeo True arr"

definition Poller_buffer :: "pid \<Rightarrow> PollerEvents_Type \<Rightarrow> sid list \<Rightarrow> PollerObj" where
  "Poller_buffer p ev arr = \<lparr>po_id = p, po_type = ev, po_count = length arr, po_raw = Map.empty\<rparr>"

definition getSocketDescr :: "ZSocket \<Rightarrow> bytes" where
  "getSocketDescr s = (if zs_description s \<noteq> [] then zs_description s else str ''n/a'')"

text \<open>\<^verbatim>\<open>wait\<close>: \<open>evs\<close> is what the library writes. It is waited for as long as the timeout of the poller tells.\<close>

definition Poller_wait :: "nat \<Rightarrow> zlib \<Rightarrow> int \<Rightarrow> sid list \<Rightarrow> PollerObj \<Rightarrow> (PollerEvents \<times> PollerObj) zaction" where
  "Poller_wait evsize lib timeout evs b =
     bindA (waitForEvents lib (po_id b) evs timeout) (\<lambda>ready.
     bindA (liftA (raw_write evsize 0 ready b)) (\<lambda>b'.
     retA (PollerEvents_new (po_type b) 0 (length ready), b')))"

section \<open>What a wait gives\<close>

lemma raw_write_ok:
  assumes "static_assert_raw evsize"
  shows "i + length ss \<le> po_count b \<Longrightarrow> \<exists>f. raw_write evsize (i * evsize) ss b = Inr (b\<lparr>po_raw := f\<rparr>) \<and>
     (\<forall>k < length ss. f ((i + k) * evsize) = Some (ss ! k)) \<and> (\<forall>k < i. f (k * evsize) = po_raw b (k * evsize))"
proof (induction ss arbitrary: i b)
  case Nil
  then show ?case by (intro exI [of _ "po_raw b"]) simp
next
  case (Cons s ss)
  have e: "0 < evsize" "evsize \<le> 32" using assms by (auto simp: static_assert_raw_def)
  have "Suc i * evsize \<le> po_count b * 32" using Cons.prems e by (intro mult_le_mono) auto
  then have room: "i * evsize + evsize \<le> raw_size b" by (simp add: raw_size_def algebra_simps)
  let ?b = "b\<lparr>po_raw := (po_raw b)(i * evsize \<mapsto> s)\<rparr>"
  obtain f where f: "raw_write evsize (Suc i * evsize) ss ?b = Inr (?b\<lparr>po_raw := f\<rparr>)"
    "\<forall>k < length ss. f ((Suc i + k) * evsize) = Some (ss ! k)" "\<forall>k < Suc i. f (k * evsize) = po_raw ?b (k * evsize)"
    using Cons.IH [of "Suc i" ?b] Cons.prems by auto
  have "f ((i + k) * evsize) = Some ((s # ss) ! k)" if "k < length (s # ss)" for k
    using that f(2,3) by (cases k) auto
  moreover have "f (k * evsize) = po_raw b (k * evsize)" if "k < i" for k
    using that f(3) e by auto
  ultimately show ?case using room f(1) by (intro exI [of _ f]) (auto simp: add.commute)
qed

text \<open>Events that are in the buffer of a poller.\<close>

definition events_in :: "nat \<Rightarrow> PollerObj \<Rightarrow> PollerEvents \<Rightarrow> sid list \<Rightarrow> bool" where
  "events_in evsize b e ss \<longleftrightarrow> pe_first e = 0 \<and> pe_size e = length ss \<and> length ss \<le> po_count b \<and>
     (\<forall>k < length ss. po_raw b (k * evsize) = Some (ss ! k))"

lemma events_in_read:
  assumes "static_assert_raw evsize" and "events_in evsize b e ss" and "k < length ss"
  shows "raw_read evsize (k * evsize) b = Inr (ss ! k)"
proof -
  have "Suc k * evsize \<le> po_count b * 32"
    using assms by (intro mult_le_mono) (auto simp: static_assert_raw_def events_in_def)
  then have "k * evsize + evsize \<le> 32 * po_count b" by simp
  then show ?thesis using assms by (simp add: raw_read_def raw_size_def events_in_def)
qed

lemma range_for_from:
  assumes "static_assert_raw evsize" and "events_in evsize b e ss" and "k \<le> length ss"
  shows "range_for evsize b (PollerIterator_new (k * evsize)) (pe_end evsize e) = Some (Inr (drop k ss))"
  using assms(3)
proof (induction "length ss - k" arbitrary: k)
  case 0
  then show ?case using assms(2)
    by (subst range_for.simps) (simp add: it_ne_def it_eq_def pe_end_def PollerIterator_new_def events_in_def)
next
  case (Suc n)
  have k: "k < length ss" using Suc(2) by simp
  have "range_for evsize b (PollerIterator_new (Suc k * evsize)) (pe_end evsize e) = Some (Inr (drop (Suc k) ss))"
    using Suc(1) [of "Suc k"] Suc(2) k by simp
  moreover have "it_incr evsize (PollerIterator_new (k * evsize)) = PollerIterator_new (Suc k * evsize)"
    by (simp add: it_incr_def PollerIterator_new_def add.commute)
  moreover have "it_ne (PollerIterator_new (k * evsize)) (pe_end evsize e)"
    using k assms(1,2) by (simp add: it_ne_def it_eq_def pe_end_def PollerIterator_new_def events_in_def static_assert_raw_def)
  moreover have "it_deref evsize b (PollerIterator_new (k * evsize)) = Inr (ss ! k)"
    using events_in_read [OF assms(1,2) k] by (simp add: it_deref_def PollerIterator_new_def)
  ultimately show ?case using Cons_nth_drop_Suc [OF k] by (subst range_for.simps) simp
qed

lemma Poller_wait_cases:
  assumes "static_assert_raw evsize" and "length evs \<le> po_count b"
    and "Poller_wait evsize lib tmo evs b w = (r, w')"
  shows "(\<exists>er. r = Inl (Throw ZMQPollerWaitFailed ''could not wait for socket events'' er)) \<or>
     (\<exists>e b' ss. r = Inr (e, b') \<and> (ss = evs \<or> ss = []) \<and> events_in evsize b' e ss \<and> pe_type e = po_type b
        \<and> po_count b' = po_count b \<and> (ss = [] \<longrightarrow> b' = b))"
proof -
  obtain f where f: "raw_write evsize 0 evs b = Inr (b\<lparr>po_raw := f\<rparr>)"
    "\<forall>k < length evs. f (k * evsize) = Some (evs ! k)"
    using raw_write_ok [OF assms(1), of 0 evs b] assms(2) by auto
  have "evs = [] \<Longrightarrow> b\<lparr>po_raw := f\<rparr> = b" using f(1) by simp
  then have full: "events_in evsize (b\<lparr>po_raw := f\<rparr>) (PollerEvents_new (po_type b) 0 (length evs)) evs \<and>
      (evs = [] \<longrightarrow> b\<lparr>po_raw := f\<rparr> = b)"
    using assms(2) f(2) by (simp add: events_in_def PollerEvents_new_def)
  have none: "events_in evsize b (PollerEvents_new (po_type b) 0 0) []"
    by (simp add: events_in_def PollerEvents_new_def)
  have ty: "pe_type (PollerEvents_new (po_type b) 0 n) = po_type b" for n by (simp add: PollerEvents_new_def)
  consider er where "r = Inl (Throw ZMQPollerWaitFailed ''could not wait for socket events'' er)"
    | "r = Inr (PollerEvents_new (po_type b) 0 0, b)"
    | "r = Inr (PollerEvents_new (po_type b) 0 (length evs), b\<lparr>po_raw := f\<rparr>)"
    using assms(3) f(1)
    by (auto simp: Poller_wait_def waitForEvents_def zcallA_def action_defs split: zanswer.splits if_splits)
  then show ?thesis
  proof cases
    case 2
    then show ?thesis using none ty by blast
  next
    case 3
    moreover have "po_count (b\<lparr>po_raw := f\<rparr>) = po_count b" by simp
    ultimately show ?thesis using full ty by blast
  qed blast
qed

lemma events_in_loop:
  assumes "static_assert_raw evsize" and ev: "events_in evsize b e ss"
  shows "pe_size e = length ss \<and> (pe_empty e \<longleftrightarrow> ss = []) \<and>
     range_for evsize b (pe_begin e) (pe_end evsize e) = Some (Inr ss) \<and>
     it_ev (pe_end evsize e) \<le> raw_size b \<and> (\<forall>k < pe_size e. pe_at evsize b e k = Inr (ss ! k))"
proof -
  have "length ss * evsize \<le> po_count b * 32"
    using ev assms(1) by (intro mult_le_mono) (auto simp: static_assert_raw_def events_in_def)
  then show ?thesis
    using ev range_for_from [OF assms(1) ev, of 0] events_in_read [OF assms(1) ev]
    by (simp add: pe_begin_def pe_end_def pe_at_def pe_empty_def it_deref_def PollerIterator_new_def events_in_def
        raw_size_def)
qed

lemma getMillis_range:
  assumes "0 \<le> tmax"
  shows "- 1 \<le> getMillis tmax v" "getMillis tmax v \<le> tmax" "0 \<le> v \<Longrightarrow> 0 \<le> getMillis tmax v \<and> getMillis tmax v \<le> v"
    "v < 0 \<Longrightarrow> getMillis tmax v = - 1"
  using assms by (auto simp: getMillis_def)

lemma wait_call:
  "Poller_wait evsize lib tmo evs b w = (r, w') \<Longrightarrow>
     zw_calls w' = zw_calls w @ [CPollerWait (po_id b) (getMillis (zl_long lib) tmo)]"
  by (auto simp: Poller_wait_def waitForEvents_def zcallA_def action_defs split: zanswer.splits if_splits sum.splits)

section \<open>Properties\<close>


text \<open>The events of a wait are read from the buffer of the poller, so after the next wait they are the new ones.\<close>

lemma poll_events_alias:
  assumes "static_assert_raw evsize" and "length evs' \<le> po_count b'" and "evs' \<noteq> []" and "pe_first e = 0"
    and "Poller_wait evsize lib tmo evs' b' w' = (Inr (e', b''), w'')" and "\<not> pe_empty e'" and "pe_size e \<le> pe_size e'"
  shows "range_for evsize b'' (pe_begin e) (pe_end evsize e) = Some (Inr (take (pe_size e) evs'))"
proof -
  have "events_in evsize b'' e' evs'"
    using Poller_wait_cases [OF assms(1,2,5)] assms(6) by (auto simp: events_in_def pe_empty_def)
  then have "events_in evsize b'' e (take (pe_size e) evs')" using assms(4,7) by (auto simp: events_in_def)
  from range_for_from [OF assms(1) this, of 0] show ?thesis using assms(4) by (simp add: pe_begin_def)
qed

definition sample_poller :: PollerObj where
  "sample_poller = Poller_buffer 0 PollRead [1, 2, 3]"


end
