(* ===== verification/Fuurin_Wiring.thy ===== *)
theory Fuurin_Wiring
  imports Fuurin_Poll
begin

text \<open>
  How the objects of the program are wired: the context (\<^verbatim>\<open>src/zmqcontext.cpp\<close>) and the constructors and
  destructors that create sockets inside of one context and connect them in pairs, \<^verbatim>\<open>Runner\<close>, \<^verbatim>\<open>Worker\<close>,
  \<^verbatim>\<open>Timer\<close> and \<^verbatim>\<open>Cancellation\<close>. When a constructor throws, the members built so far are destroyed
  in reverse order. The sockets are at fixed addresses of the store.
\<close>

section \<open>Contexts\<close>

text \<open>
  The context of the library, its I/O thread, and the sockets that were created with it. \<open>cl_new\<close>, \<open>cl_async\<close>,
  \<open>cl_stop\<close> and \<open>cl_term\<close> are the answers to creating the context, to starting and stopping the thread and to
  ending the context.
\<close>

record Context =
  cx_ptr :: bool
  cx_iowork :: bool
  cx_socks :: "sid list"
  cx_world :: zworld

record ctxlib =
  cl_new :: "int option"
  cl_async :: "fault option"
  cl_stop :: "fault option"
  cl_term :: "int"

type_synonym 'a caction = "Context \<Rightarrow> ('a result \<times> Context) option"

text \<open>
  Ending the context waits until all its sockets are closed. The call does not return, the value
  \<^term>\<open>None\<close>, while one is open.
\<close>

definition Context_terminate :: "ctxlib \<Rightarrow> unit caction" where
  "Context_terminate cl c =
     (if \<exists>s\<in>set (cx_socks c). isOpen (cx_world c) s then None
      else Some (ASSERT (cl_term cl = 0) ''zmq_ctx_term failed'', c\<lparr>cx_ptr := False\<rparr>))"

definition Context_new :: "ctxlib \<Rightarrow> unit caction" where
  "Context_new cl c =
     (case cl_new cl of
        Some e \<Rightarrow> Some (Inl (Throw ZMQContextCreateFailed ''could not create context'' e), c)
      | None \<Rightarrow>
          (let c1 = c\<lparr>cx_ptr := True\<rparr> in
           case cl_async cl of
             Some f \<Rightarrow>
               (case Context_terminate cl c1 of
                  None \<Rightarrow> None
                | Some (Inl e, c2) \<Rightarrow> Some (Inl e, c2)
                | Some (Inr _, c2) \<Rightarrow> Some (Inl f, c2))
           | None \<Rightarrow> Some (Inr (), c1\<lparr>cx_iowork := True\<rparr>)))"

text \<open>
  The thread runs the tasks until it is told to stop; an exception in it or when it is told to ends the process.
  \<open>tasks\<close> is how they ended.
\<close>

definition IOWork_run :: "fault option \<Rightarrow> unit result" where
  "IOWork_run tasks = (case tasks of Some _ \<Rightarrow> LOG_FATAL ''unexpected exception caught!'' | None \<Rightarrow> Inr ())"

definition IOWork_stop :: "ctxlib \<Rightarrow> Context \<Rightarrow> unit result \<times> Context" where
  "IOWork_stop cl c =
     (case cl_stop cl of Some _ \<Rightarrow> (LOG_FATAL ''unexpected exception caught!'', c) | None \<Rightarrow> (Inr (), c\<lparr>cx_iowork := False\<rparr>))"

text \<open>The thread is stopped first, so that the future of it can be waited for in the end.\<close>

definition Context_delete :: "ctxlib \<Rightarrow> unit caction" where
  "Context_delete cl c =
     (case IOWork_stop cl c of
        (Inl e, c1) \<Rightarrow> Some (Inl e, c1)
      | (Inr _, c1) \<Rightarrow> Context_terminate cl c1)"

section \<open>Pairs of sockets\<close>

definition seqA :: "('s, unit) action list \<Rightarrow> ('s, unit) action" where
  "seqA fs = foldr thenA fs (retA ())"

definition setS :: "sid \<Rightarrow> (ZSocket \<Rightarrow> ZSocket) \<Rightarrow> unit zaction" where
  "setS s g = updA (upd_sock s g)"

text \<open>The addresses of the sockets and of the poller of a worker.\<close>

definition zops :: sid where "zops = 0"
definition zopr :: sid where "zopr = 1"
definition zevs :: sid where "zevs = 2"
definition zevr :: sid where "zevr = 3"
definition zfins :: sid where "zfins = 4"
definition zfinr :: sid where "zfinr = 5"
definition zseqs :: sid where "zseqs = 6"
definition zseqr :: sid where "zseqr = 7"
definition zevpoll :: pid where "zevpoll = 0"

lemmas sid_defs = zops_def zopr_def zevs_def zevr_def zfins_def zfinr_def zseqs_def zseqr_def zevpoll_def

definition inproc :: "string \<Rightarrow> bytes" where
  "inproc nm = str (''inproc://'' @ nm)"

text \<open>The constructors of timers and cancellations: \<open>t\<close> and \<open>r\<close> are their trigger and receiver.\<close>

definition Timer_wire :: "zlib \<Rightarrow> string \<Rightarrow> sid \<Rightarrow> sid \<Rightarrow> unit zaction" where
  "Timer_wire lib nm t r =
     seqA [setS t (\<lambda>_. ZSocket_new PUSH), setS r (\<lambda>_. ZSocket_new PULL),
       setS t (zs_setEndpoints [inproc nm]), setS r (zs_setEndpoints [inproc nm]),
       setS t (zs_setConflate True), setS r (zs_setConflate True),
       guardA (seqA [zs_bind lib r, zs_connect lib t]) (seqA [zs_close lib r, zs_close lib t])]"

definition Cancellation_wire :: "zlib \<Rightarrow> string \<Rightarrow> sid \<Rightarrow> sid \<Rightarrow> unit zaction" where
  "Cancellation_wire lib nm t r =
     seqA [setS t (\<lambda>_. ZSocket_new RADIO), setS r (\<lambda>_. ZSocket_new DISH),
       setS t (zs_setEndpoints [inproc nm]), setS r (zs_setEndpoints [inproc nm]),
       setS r (zs_setGroups [str ''deadln'']),
       guardA (seqA [zs_bind lib r, zs_connect lib t]) (seqA [zs_close lib r, zs_close lib t])]"

section \<open>Runners and workers\<close>

text \<open>The members of a runner are its sockets, closed, and the poller that observes the socket of events.\<close>

definition Runner_members :: "zlib \<Rightarrow> unit zaction" where
  "Runner_members lib =
     seqA [setS zops (\<lambda>_. ZSocket_new PAIR), setS zopr (\<lambda>_. ZSocket_new PAIR),
       setS zevs (\<lambda>_. ZSocket_new RADIO), setS zevr (\<lambda>_. ZSocket_new DISH),
       setS zfins (\<lambda>_. ZSocket_new PUSH), setS zfinr (\<lambda>_. ZSocket_new PULL),
       PollerAuto_new_tmeo lib zevpoll PollRead 0 [zevr]]"

text \<open>The body of the constructor; \<open>evs\<close> is what the last wait finds.\<close>

definition Runner_wire :: "zlib \<Rightarrow> sid list \<Rightarrow> unit zaction" where
  "Runner_wire lib evs =
     seqA [setS zops (zs_setEndpoints [inproc ''runner-loop'']), setS zopr (zs_setEndpoints [inproc ''runner-loop'']),
       setS zevs (zs_setEndpoints [inproc ''runner-events'']), setS zevr (zs_setEndpoints [inproc ''runner-events'']),
       setS zevr (zs_setGroups [GROUP_EVENTS]),
       zs_bind lib zopr, zs_connect lib zops,
       zs_bind lib zevs, zs_connect lib zevr,
       setS zfins (zs_setEndpoints [inproc ''runner-terminate'']),
       setS zfinr (zs_setEndpoints [inproc ''runner-terminate'']),
       setS zfins (zs_setHighWaterMark 1 1), setS zfinr (zs_setHighWaterMark 1 1),
       setS zfins (zs_setConflate True), setS zfinr (zs_setConflate True),
       zs_bind lib zfinr, zs_connect lib zfins,
       thenA (waitForEvents lib zevpoll evs 0) (retA ())]"

text \<open>The destruction of the members but the context, in reverse order.\<close>

definition Runner_unwire :: "zlib \<Rightarrow> unit zaction" where
  "Runner_unwire lib =
     seqA [Poller_delete lib zevpoll, zs_close lib zfinr, zs_close lib zfins, zs_close lib zevr, zs_close lib zevs,
       zs_close lib zopr, zs_close lib zops]"

definition Worker_wire :: "zlib \<Rightarrow> unit zaction" where
  "Worker_wire lib =
     seqA [setS zseqs (\<lambda>_. ZSocket_new PUSH), setS zseqr (\<lambda>_. ZSocket_new PULL),
       setS zseqs (zs_setEndpoints [inproc ''worker-seqn'']), setS zseqr (zs_setEndpoints [inproc ''worker-seqn'']),
       setS zseqs (zs_setHighWaterMark 1 1), setS zseqr (zs_setHighWaterMark 1 1),
       setS zseqs (zs_setConflate True), setS zseqr (zs_setConflate True),
       zs_bind lib zseqr, zs_connect lib zseqs]"

definition Worker_unwire :: "zlib \<Rightarrow> unit zaction" where
  "Worker_unwire lib = seqA [zs_close lib zseqr, zs_close lib zseqs]"

definition onWorld :: "'a zaction \<Rightarrow> (Context, 'a) action" where
  "onWorld f c = (case f (cx_world c) of (r, w) \<Rightarrow> (r, c\<lparr>cx_world := w\<rparr>))"

text \<open>
  Constructing and destroying. The base class of a worker is built first and destroyed last, so
  the destructor of the runner, which tells a session to stop, runs when the members of the worker are
  gone. \<open>stopping\<close> is what it does: sending the operation.
\<close>

definition Runner_destroy :: "zlib \<Rightarrow> ctxlib \<Rightarrow> unit caction" where
  "Runner_destroy lib cl c =
     (case onWorld (Runner_unwire lib) c of
        (Inl e, c') \<Rightarrow> Some (Inl e, c')
      | (Inr _, c') \<Rightarrow> Context_delete cl c')"

definition unwindC :: "fault \<Rightarrow> unit caction \<Rightarrow> unit caction" where
  "unwindC f undo c =
     (case f of
        Abort m \<Rightarrow> Some (Inl (Abort m), c)
      | Throw _ _ _ \<Rightarrow>
          (case undo c of
             None \<Rightarrow> None
           | Some (Inl e, c') \<Rightarrow> Some (Inl e, c')
           | Some (Inr _, c') \<Rightarrow> Some (Inl f, c')))"

definition Runner_construct :: "zlib \<Rightarrow> ctxlib \<Rightarrow> sid list \<Rightarrow> unit caction" where
  "Runner_construct lib cl evs c =
     (case Context_new cl c of
        None \<Rightarrow> None
      | Some (Inl e, c1) \<Rightarrow> Some (Inl e, c1)
      | Some (Inr _, c1) \<Rightarrow>
          (case onWorld (Runner_members lib) (c1\<lparr>cx_socks := [zops, zopr, zevs, zevr, zfins, zfinr] @ cx_socks c1\<rparr>) of
             (Inl f, c2) \<Rightarrow> unwindC f (Context_delete cl) c2
           | (Inr _, c2) \<Rightarrow>
               (case onWorld (Runner_wire lib evs) c2 of
                  (Inl f, c3) \<Rightarrow> unwindC f (Runner_destroy lib cl) c3
                | (Inr _, c3) \<Rightarrow> Some (Inr (), c3))))"

definition Worker_destroy :: "zlib \<Rightarrow> ctxlib \<Rightarrow> (Context, unit) action \<Rightarrow> unit caction" where
  "Worker_destroy lib cl stopping c =
     (case thenA (onWorld (Worker_unwire lib)) stopping c of
        (Inl e, c') \<Rightarrow> Some (Inl e, c')
      | (Inr _, c') \<Rightarrow> Runner_destroy lib cl c')"

definition Worker_construct :: "zlib \<Rightarrow> ctxlib \<Rightarrow> sid list \<Rightarrow> unit caction" where
  "Worker_construct lib cl evs c =
     (case Runner_construct lib cl evs c of
        None \<Rightarrow> None
      | Some (Inl e, c1) \<Rightarrow> Some (Inl e, c1)
      | Some (Inr _, c1) \<Rightarrow>
          (case onWorld (Worker_wire lib) (c1\<lparr>cx_socks := [zseqs, zseqr] @ cx_socks c1\<rparr>) of
             (Inl f, c2) \<Rightarrow> unwindC f (Worker_destroy lib cl (retA ())) c2
           | (Inr _, c2) \<Rightarrow> Some (Inr (), c2)))"

section \<open>What the constructors change\<close>

text \<open>A socket without what only opening and pollers change.\<close>

definition sview :: "ZSocket \<Rightarrow> ZSocket" where
  "sview k = k\<lparr>zs_openEndpoints := [], zs_observers := []\<rparr>"

definition sviews :: "zworld \<Rightarrow> sid \<Rightarrow> ZSocket" where
  "sviews w s = sview (zw_socks w s)"

text \<open>
  An action that changes sockets of a set only and, when it succeeds, changes them by a function. Pollers
  go on to watch their open sockets.
\<close>

definition wires :: "sid set \<Rightarrow> ((sid \<Rightarrow> ZSocket) \<Rightarrow> sid \<Rightarrow> ZSocket) \<Rightarrow> unit zaction \<Rightarrow> bool" where
  "wires S g f \<longleftrightarrow> (\<forall>w r w'. poll_inv w \<longrightarrow> f w = (r, w') \<longrightarrow> \<not> is_abort r \<longrightarrow>
     poll_inv w' \<and> zw_pollers w' = zw_pollers w \<and> (\<forall>t. t \<notin> S \<longrightarrow> zw_socks w' t = zw_socks w t) \<and>
     (r = Inr () \<longrightarrow> sviews w' = g (sviews w)))"

lemma wiresD:
  assumes "wires S g f" and "poll_inv w" and "f w = (r, w')" and "\<not> is_abort r"
  shows "poll_inv w'" and "zw_pollers w' = zw_pollers w" and "t \<notin> S \<Longrightarrow> zw_socks w' t = zw_socks w t"
    and "r = Inr () \<Longrightarrow> sviews w' = g (sviews w)"
  using assms(1) [unfolded wires_def, rule_format, OF assms(2-4)] by blast+

named_theorems wire_intros

lemma wires_ret [wire_intros]: "wires {} id (retA ())"
  by (simp add: wires_def retA_def)

lemma wires_then [wire_intros]:
  assumes "wires S g f" and "wires T h f'"
  shows "wires (S \<union> T) (h \<circ> g) (thenA f f')"
  unfolding wires_def
proof (intro allI impI)
  fix w r w'
  assume w: "poll_inv w" and run: "thenA f f' w = (r, w')" and r: "\<not> is_abort r"
  obtain r1 w1 where 1: "f w = (r1, w1)" by fastforce
  show "poll_inv w' \<and> zw_pollers w' = zw_pollers w \<and> (\<forall>t. t \<notin> S \<union> T \<longrightarrow> zw_socks w' t = zw_socks w t) \<and>
     (r = Inr () \<longrightarrow> sviews w' = (h \<circ> g) (sviews w))"
  proof (cases r1)
    case (Inl e)
    then have e: "r = r1" "w' = w1" using run 1 by (simp_all add: thenA_def bindA_def)
    show ?thesis using wiresD [OF assms(1) w 1] r Inl unfolding e by simp
  next
    case (Inr u)
    have 2: "f' w1 = (r, w')" using run 1 Inr by (simp add: thenA_def bindA_def)
    have 3: "\<not> is_abort r1" using Inr by (simp add: is_abort_def)
    note i = wiresD [OF assms(1) w 1 3]
    note j = wiresD [OF assms(2) i(1) 2 r]
    show ?thesis using i j Inr by simp
  qed
qed

lemma wires_set:
  assumes "\<And>k. zs_ptr (h k) = zs_ptr k" and "\<And>k. zs_observers (h k) = zs_observers k" and "\<And>k. sview (h k) = h (sview k)"
  shows "wires {s} (\<lambda>v. v(s := h (v s))) (setS s h)"
  unfolding wires_def setS_def updA_def
proof (intro allI impI conjI)
  fix w r w'
  assume w: "poll_inv w" and "(Inr (), upd_sock s h w) = (r, w')"
  then have w': "w' = upd_sock s h w" by simp
  show "poll_inv w'" using assms(1,2) by (intro poll_inv_cong [OF w]) (auto simp: w' upd_sock_def)
  show "sviews w' = (sviews w)(s := h (sviews w s))" using assms(3) by (auto simp: w' sviews_def upd_sock_def)
qed (auto simp: upd_sock_def)

lemma wires_setters [wire_intros]:
  "wires {s} (\<lambda>v. v(s := zs_setEndpoints es (v s))) (setS s (zs_setEndpoints es))"
  "wires {s} (\<lambda>v. v(s := zs_setGroups es (v s))) (setS s (zs_setGroups es))"
  "wires {s} (\<lambda>v. v(s := zs_setHighWaterMark a b (v s))) (setS s (zs_setHighWaterMark a b))"
  "wires {s} (\<lambda>v. v(s := zs_setConflate c (v s))) (setS s (zs_setConflate c))"
  by (rule wires_set; simp add: sview_def zs_setEndpoints_def zs_setGroups_def zs_setHighWaterMark_def zs_setConflate_def)+

lemma wires_open:
  assumes "zlib_ok lib" and "act_ok act"
  shows "wires {s} (\<lambda>v. v(s := (v s)\<lparr>zs_ptr := True\<rparr>)) (zs_open lib act s)"
  unfolding wires_def
proof (intro allI impI)
  fix w r w'
  assume w: "poll_inv w" and run: "zs_open lib act s w = (r, w')" and r: "\<not> is_abort r"
  have inv: "poll_inv w'" by (rule poll_inv_open [OF w assms run r])
  show "poll_inv w' \<and> zw_pollers w' = zw_pollers w \<and> (\<forall>t. t \<notin> {s} \<longrightarrow> zw_socks w' t = zw_socks w t) \<and>
     (r = Inr () \<longrightarrow> sviews w' = (sviews w)(s := (sviews w s)\<lparr>zs_ptr := True\<rparr>))"
  proof (cases "isOpen w s")
    case True
    then have "r \<noteq> Inr () \<and> w' = w" using run by (auto simp: zs_open_def action_defs)
    then show ?thesis using w by simp
  next
    case False
    then have "\<forall>p\<in>set (zs_observers (zw_socks w s)). observed w p s \<and> (p, s) \<notin> set (zw_polled w)"
      using poll_inv_observers [OF w] by blast
    from zs_open_spec [OF run assms False this r] obtain x where x: "zw_pollers w' = zw_pollers w"
      "zw_socks w' = (zw_socks w)(s := (zw_socks w s)\<lparr>zs_openEndpoints := x, zs_ptr := (r = Inr ())\<rparr>)" by blast
    have "sview (k\<lparr>zs_openEndpoints := x, zs_ptr := True\<rparr>) = (sview k)\<lparr>zs_ptr := True\<rparr>" for k
      by (simp add: sview_def)
    then show ?thesis using inv x by (auto simp: sviews_def)
  qed
qed

lemma wires_attach [wire_intros]:
  assumes "zlib_ok lib"
  shows "wires {s} (\<lambda>v. v(s := (v s)\<lparr>zs_ptr := True\<rparr>)) (zs_bind lib s)"
    and "wires {s} (\<lambda>v. v(s := (v s)\<lparr>zs_ptr := True\<rparr>)) (zs_connect lib s)"
  unfolding zs_bind_def zs_connect_def by (rule wires_open [OF assms act_ok_code(2)], rule wires_open [OF assms act_ok_code(1)])

lemma wires_wait [wire_intros]: "wires {} id (thenA (waitForEvents lib p evs tmo) (retA ()))"
  unfolding wires_def
proof (intro allI impI)
  fix w r w'
  assume w: "poll_inv w" and run: "thenA (waitForEvents lib p evs tmo) (retA ()) w = (r, w')"
  obtain r1 where 1: "waitForEvents lib p evs tmo w = (r1, w')"
    using run by (cases "waitForEvents lib p evs tmo w"; cases "fst (waitForEvents lib p evs tmo w)")
      (auto simp: thenA_def bindA_def retA_def)
  then have "zw_socks w' = zw_socks w" "zw_pollers w' = zw_pollers w"
    by (auto simp: waitForEvents_def zcallA_def action_defs split: zanswer.splits if_splits)
  then show "poll_inv w' \<and> zw_pollers w' = zw_pollers w \<and> (\<forall>t. t \<notin> {} \<longrightarrow> zw_socks w' t = zw_socks w t) \<and>
     (r = Inr () \<longrightarrow> sviews w' = id (sviews w))"
    using poll_inv_wait [OF w 1] by (simp add: sviews_def [abs_def])
qed

section \<open>Closing\<close>

lemma close_one:
  assumes "poll_inv w" and "zlib_ok lib" and "zs_close lib s w = (r, w')" and "\<not> is_abort r"
  shows "r = Inr () \<and> poll_inv w' \<and> zw_pollers w' = zw_pollers w \<and> (\<forall>t. isOpen w' t \<longleftrightarrow> isOpen w t \<and> t \<noteq> s)"
proof (cases "isOpen w s")
  case False
  then show ?thesis using assms(1,3) by (auto simp: zs_close_def)
next
  case True
  have "\<forall>p\<in>set (zs_observers (zw_socks w s)). observed w p s" using poll_inv_observers [OF assms(1)] by blast
  from zs_close_spec [OF assms(3,2) True this assms(4)] poll_inv_close [OF assms(1,2,3,4)] show ?thesis
    by (auto simp: isOpen_def)
qed

lemma close_all:
  assumes "zlib_ok lib"
  shows "poll_inv w \<Longrightarrow> seqA (map (zs_close lib) ss) w = (r, w') \<Longrightarrow> \<not> is_abort r \<Longrightarrow>
    r = Inr () \<and> poll_inv w' \<and> zw_pollers w' = zw_pollers w \<and> (\<forall>t. isOpen w' t \<longleftrightarrow> isOpen w t \<and> t \<notin> set ss)"
proof (induction ss arbitrary: w)
  case Nil
  then show ?case by (simp add: seqA_def retA_def)
next
  case (Cons s ss)
  obtain r1 w1 where 1: "zs_close lib s w = (r1, w1)" by fastforce
  have run: "thenA (zs_close lib s) (seqA (map (zs_close lib) ss)) w = (r, w')"
    using Cons.prems(2) by (simp add: seqA_def)
  have "\<not> is_abort r1" using run 1 Cons.prems(3) by (cases r1) (auto simp: thenA_def bindA_def is_abort_def)
  note c = close_one [OF Cons.prems(1) assms 1 this]
  then have "seqA (map (zs_close lib) ss) w1 = (r, w')" using run 1 by (simp add: thenA_def bindA_def)
  from Cons.IH [OF _ this Cons.prems(3)] c show ?case by auto
qed

lemma unwire_lists:
  "Worker_unwire lib = seqA (map (zs_close lib) [zseqr, zseqs])"
  "Runner_unwire lib = thenA (Poller_delete lib zevpoll) (seqA (map (zs_close lib) [zfinr, zfins, zevr, zevs, zopr, zops]))"
  by (simp_all add: Worker_unwire_def Runner_unwire_def seqA_def)

lemma Poller_delete_spec:
  assumes "poll_inv w" and "Poller_delete lib p w = (r, w')" and "\<not> is_abort r"
  shows "r = Inr () \<and> poll_inv w' \<and> zw_pollers w' = (zw_pollers w)(p := None) \<and> (\<forall>t. isOpen w' t = isOpen w t)"
proof (cases "zw_pollers w p")
  case None
  then show ?thesis using assms(1,2) by (auto simp: Poller_delete_def fun_upd_idem)
next
  case (Some pl)
  then have "destroyPoller lib p (zp_obs pl) (zp_sockets pl) w = (r, w')" using assms(2) by (simp add: Poller_delete_def)
  from destroyPoller_spec [OF this assms(3)] poll_inv_delete [OF assms] show ?thesis by (auto simp: isOpen_def)
qed

lemma Runner_unwire_spec:
  assumes "poll_inv w" and "zlib_ok lib" and "Runner_unwire lib w = (r, w')" and "\<not> is_abort r"
  shows "r = Inr () \<and> poll_inv w' \<and> zw_pollers w' = (zw_pollers w)(zevpoll := None) \<and>
    (\<forall>t. isOpen w' t \<longleftrightarrow> isOpen w t \<and> t \<notin> {zops, zopr, zevs, zevr, zfins, zfinr})"
proof -
  obtain r1 w1 where 1: "Poller_delete lib zevpoll w = (r1, w1)" by fastforce
  have "\<not> is_abort r1" using assms(3,4) 1 unfolding unwire_lists by (cases r1) (auto simp: thenA_def bindA_def is_abort_def)
  note d = Poller_delete_spec [OF assms(1) 1 this]
  then have "seqA (map (zs_close lib) [zfinr, zfins, zevr, zevs, zopr, zops]) w1 = (r, w')"
    using assms(3) 1 unfolding unwire_lists by (simp add: thenA_def bindA_def)
  from close_all [OF assms(2) _ this assms(4)] d show ?thesis by auto
qed

section \<open>Construction\<close>

lemma sview_register [simp]: "sview (registerPoller p k) = sview k" "sview (ZSocket_new ty) = ZSocket_new ty"
  by (auto simp: sview_def registerPoller_def ZSocket_new_def)

lemma poll_inv_poller:
  assumes "poll_inv w" and "zw_pollers w p = Some pl" and "zp_sockets pl' = zp_sockets pl" and "zp_obs pl' = zp_obs pl"
  shows "poll_inv (w\<lparr>zw_pollers := (zw_pollers w)(p \<mapsto> pl')\<rparr>)"
proof -
  let ?w = "w\<lparr>zw_pollers := (zw_pollers w)(p \<mapsto> pl')\<rparr>"
  have "observed ?w q s = observed w q s" for q s using assms(2-4) by (auto simp: observed_def)
  then show ?thesis using assms by (auto simp: poll_inv_def isOpen_def)
qed

lemma Poller_tmeo_spec:
  assumes "poll_inv w" and "zw_pollers w p = None" and "PollerAuto_new_tmeo lib p ev tmeo arr w = (r, w')" and "\<not> is_abort r"
  shows "poll_inv w' \<and> (\<forall>t. isOpen w' t = isOpen w t) \<and>
    (if r = Inr () then (\<exists>pl. zw_pollers w' = (zw_pollers w)(p \<mapsto> pl) \<and> zp_sockets pl = arr \<and> zp_obs pl) \<and>
       sviews w' = sviews w \<and> (\<forall>t. t \<notin> set arr \<longrightarrow> zw_socks w' t = zw_socks w t)
     else zw_pollers w' = zw_pollers w)"
proof -
  obtain r1 w1 where 1: "Poller_new lib p ev True arr w = (r1, w1)" by fastforce
  have r1: "\<not> is_abort r1" using assms(3,4) 1
    by (cases r1) (auto simp: PollerAuto_new_tmeo_def Poller_new_tmeo_def thenA_def bindA_def is_abort_def)
  have inv: "poll_inv w1" by (rule poll_inv_new [OF assms(1,2) 1 r1])
  obtain r0 w0 where 0: "createPoller lib p True arr (ev = PollRead) (ev = PollWrite) w = (r0, w0)" by fastforce
  have r0: "r0 = r1" using 1 0 by (cases r0) (auto simp: Poller_new_def thenA_def bindA_def updA_def)
  have "\<forall>s. p \<notin> set (zs_observers (zw_socks w s)) \<and> (p, s) \<notin> set (zw_polled w)"
    using poll_inv_fresh [OF assms(1,2)] by blast
  note c = createPoller_spec [OF 0 r1 [folded r0] assms(2) this]
  show ?thesis
  proof (cases r1)
    case (Inl e)
    then have "r = Inl e" "w' = w0" "w1 = w0" using assms(3) 1 0 r0
      by (auto simp: PollerAuto_new_tmeo_def Poller_new_tmeo_def Poller_new_def thenA_def bindA_def)
    then show ?thesis using c inv r0 Inl by (simp add: isOpen_def)
  next
    case (Inr u)
    let ?pl = "\<lparr>zp_sockets = arr, zp_type = ev, zp_obs = True, zp_timeout = - 1\<rparr>"
    have w1: "w1 = w0\<lparr>zw_pollers := (zw_pollers w0)(p \<mapsto> ?pl)\<rparr>"
      using 1 0 r0 Inr by (simp add: Poller_new_def thenA_def bindA_def updA_def)
    have w': "r = Inr ()" "w' = w1\<lparr>zw_pollers := (zw_pollers w1)(p \<mapsto> Poller_setTimeout tmeo ?pl)\<rparr>"
      using assms(3) 1 Inr w1
      by (simp_all add: PollerAuto_new_tmeo_def Poller_new_tmeo_def thenA_def bindA_def updA_def)
    have reg: "registered_in True p (set arr) w w0" using c r0 Inr by simp
    have "poll_inv w'" unfolding w'
      by (rule poll_inv_poller [OF inv, of p ?pl]) (simp_all add: w1 Poller_setTimeout_def)
    moreover have "sviews w' = sviews w" using reg by (auto simp: w' w1 sviews_def registered_in_def fun_eq_iff)
    ultimately show ?thesis using reg
      by (auto simp: w' w1 registered_in_def isOpen_def Poller_setTimeout_def)
  qed
qed

definition runner_sids :: "sid set" where
  "runner_sids = {zops, zopr, zevs, zevr, zfins, zfinr}"

lemma empty_world_new: "empty_world w \<Longrightarrow> empty_world (upd_sock s (\<lambda>_. ZSocket_new ty) w)"
  by (auto simp: empty_world_def upd_sock_def isOpen_def ZSocket_new_def)

lemma empty_world_inv: "empty_world w \<Longrightarrow> poll_inv w"
  by (simp add: empty_world_def poll_inv_def observed_def)

definition runner_members_view :: "(sid \<Rightarrow> ZSocket) \<Rightarrow> sid \<Rightarrow> ZSocket" where
  "runner_members_view v = v(zops := ZSocket_new PAIR, zopr := ZSocket_new PAIR, zevs := ZSocket_new RADIO,
     zevr := ZSocket_new DISH, zfins := ZSocket_new PUSH, zfinr := ZSocket_new PULL)"

lemma Runner_members_spec:
  assumes "empty_world w" and "Runner_members lib w = (r, w')" and "\<not> is_abort r"
  shows "poll_inv w' \<and> (\<forall>t. \<not> isOpen w' t) \<and>
    (if r = Inr () then (\<exists>pl. zw_pollers w' = [zevpoll \<mapsto> pl] \<and> zp_sockets pl = [zevr] \<and> zp_obs pl) \<and>
       sviews w' = runner_members_view (sviews w) \<and> (\<forall>t. t \<notin> runner_sids \<longrightarrow> zw_socks w' t = zw_socks w t)
     else zw_pollers w' = Map.empty)"
proof -
  define w1 where "w1 = upd_sock zfinr (\<lambda>_. ZSocket_new PULL) (upd_sock zfins (\<lambda>_. ZSocket_new PUSH)
    (upd_sock zevr (\<lambda>_. ZSocket_new DISH) (upd_sock zevs (\<lambda>_. ZSocket_new RADIO)
    (upd_sock zopr (\<lambda>_. ZSocket_new PAIR) (upd_sock zops (\<lambda>_. ZSocket_new PAIR) w)))))"
  have e: "empty_world w1" unfolding w1_def by (intro empty_world_new assms(1))
  have run: "PollerAuto_new_tmeo lib zevpoll PollRead 0 [zevr] w1 = (r, w')"
    using assms(2) unfolding w1_def
    by (cases r) (auto simp: Runner_members_def seqA_def setS_def thenA_def bindA_def updA_def retA_def split: prod.splits sum.splits)
  have p: "zw_pollers w1 zevpoll = None" "zw_pollers w1 = Map.empty" "\<forall>t. \<not> isOpen w1 t" using e by (simp_all add: empty_world_def)
  have v: "sviews w1 = runner_members_view (sviews w)"
    by (auto simp: w1_def sviews_def upd_sock_def runner_members_view_def fun_eq_iff)
  have o: "t \<notin> runner_sids \<Longrightarrow> zw_socks w1 t = zw_socks w t" for t
    by (simp add: w1_def upd_sock_def runner_sids_def)
  have z: "t \<notin> runner_sids \<Longrightarrow> t \<noteq> zevr" for t by (auto simp: runner_sids_def)
  show ?thesis using Poller_tmeo_spec [OF empty_world_inv [OF e] p(1) run assms(3)] p(2,3) v o z
    by (auto split: if_splits)
qed

text \<open>The effect of the bodies of the constructors.\<close>

definition wired_to :: "string \<Rightarrow> ZSocket \<Rightarrow> ZSocket" where
  "wired_to nm k = k\<lparr>zs_endpoints := [inproc nm], zs_ptr := True\<rparr>"

definition latest :: "ZSocket \<Rightarrow> ZSocket" where
  "latest k = k\<lparr>zs_hwmsnd := 1, zs_hwmrcv := 1, zs_conflate := True\<rparr>"

definition runner_wire_view :: "(sid \<Rightarrow> ZSocket) \<Rightarrow> sid \<Rightarrow> ZSocket" where
  "runner_wire_view v s =
     (if s \<in> {zops, zopr} then wired_to ''runner-loop'' (v s)
      else if s = zevs then wired_to ''runner-events'' (v s)
      else if s = zevr then (wired_to ''runner-events'' (v s))\<lparr>zs_groups := [GROUP_EVENTS]\<rparr>
      else if s \<in> {zfins, zfinr} then latest (wired_to ''runner-terminate'' (v s))
      else v s)"

lemma wires_cong:
  assumes "wires S g f" and "S \<subseteq> T" and "\<And>v. g v = h v"
  shows "wires T h f"
proof -
  have "g = h" using assms(3) by (rule ext)
  then show ?thesis using assms(1,2) unfolding wires_def by blast
qed

lemma setter_apply:
  "zs_setEndpoints es k = k\<lparr>zs_endpoints := es\<rparr>" "zs_setGroups es k = k\<lparr>zs_groups := es\<rparr>"
  "zs_setHighWaterMark a b k = k\<lparr>zs_hwmsnd := a, zs_hwmrcv := b\<rparr>" "zs_setConflate c k = k\<lparr>zs_conflate := c\<rparr>"
  by (simp_all add: zs_setEndpoints_def zs_setGroups_def zs_setHighWaterMark_def zs_setConflate_def)

lemma wires_seq: "wires S g f \<Longrightarrow> wires T h (seqA fs) \<Longrightarrow> wires (S \<union> T) (h \<circ> g) (seqA (f # fs))"
  by (simp add: seqA_def wires_then)

lemma wires_nil: "wires {} id (seqA [])"
  by (simp add: seqA_def wires_ret)

lemma wires_runner:
  assumes "zlib_ok lib"
  shows "wires runner_sids runner_wire_view (Runner_wire lib evs)"
  unfolding Runner_wire_def
  apply (rule wires_cong)
    apply (rule wires_seq wires_setters wires_attach [OF assms] wires_nil wires_wait)+
   apply (simp add: runner_sids_def)
  apply (rule ext)
  apply (simp add: runner_wire_view_def wired_to_def latest_def setter_apply sid_defs)
  done

definition worker_wire_view :: "(sid \<Rightarrow> ZSocket) \<Rightarrow> sid \<Rightarrow> ZSocket" where
  "worker_wire_view v s =
     (if s = zseqs then latest (wired_to ''worker-seqn'' (ZSocket_new PUSH))
      else if s = zseqr then latest (wired_to ''worker-seqn'' (ZSocket_new PULL))
      else v s)"

definition worker_body :: "zlib \<Rightarrow> unit zaction" where
  "worker_body lib =
     seqA [setS zseqs (zs_setEndpoints [inproc ''worker-seqn'']), setS zseqr (zs_setEndpoints [inproc ''worker-seqn'']),
       setS zseqs (zs_setHighWaterMark 1 1), setS zseqr (zs_setHighWaterMark 1 1),
       setS zseqs (zs_setConflate True), setS zseqr (zs_setConflate True),
       zs_bind lib zseqr, zs_connect lib zseqs]"

lemma wires_worker:
  assumes "zlib_ok lib"
  shows "wires {zseqs, zseqr} (\<lambda>v s. if s \<in> {zseqs, zseqr} then latest (wired_to ''worker-seqn'' (v s)) else v s) (worker_body lib)"
  unfolding worker_body_def
  apply (rule wires_cong)
    apply (rule wires_seq wires_setters wires_attach [OF assms] wires_nil)+
   apply simp
  apply (rule ext)
  apply (simp add: wired_to_def latest_def setter_apply sid_defs)
  done

lemma Worker_wire_spec:
  assumes "zlib_ok lib" and w: "poll_inv w" and run: "Worker_wire lib w = (r, w')" and r: "\<not> is_abort r"
    and fresh: "\<forall>s\<in>{zseqs, zseqr}. \<not> isOpen w s \<and> zs_observers (zw_socks w s) = []"
  shows "poll_inv w' \<and> zw_pollers w' = zw_pollers w \<and> (\<forall>t. t \<notin> {zseqs, zseqr} \<longrightarrow> zw_socks w' t = zw_socks w t) \<and>
     (r = Inr () \<longrightarrow> sviews w' = worker_wire_view (sviews w))"
proof -
  let ?w = "upd_sock zseqr (\<lambda>_. ZSocket_new PULL) (upd_sock zseqs (\<lambda>_. ZSocket_new PUSH) w)"
  have b: "worker_body lib ?w = (r, w')"
    using run by (simp add: Worker_wire_def worker_body_def seqA_def setS_def thenA_def bindA_def updA_def)
  have inv: "poll_inv ?w" using fresh
    by (intro poll_inv_cong [OF w]) (auto simp: upd_sock_def ZSocket_new_def isOpen_def)
  note d = wiresD [OF wires_worker [OF assms(1)] inv b r]
  have 1: "zw_pollers ?w = zw_pollers w" by (simp add: upd_sock_def)
  have 2: "zw_socks ?w t = zw_socks w t" if "t \<notin> {zseqs, zseqr}" for t using that by (simp add: upd_sock_def)
  have 3: "(\<lambda>s. if s \<in> {zseqs, zseqr} then latest (wired_to ''worker-seqn'' (sviews ?w s)) else sviews ?w s) =
      worker_wire_view (sviews w)"
    by (auto simp: worker_wire_view_def sviews_def upd_sock_def fun_eq_iff sid_defs)
  show ?thesis using d(1,2) d(3) 1 2 d(4) unfolding 3 by auto
qed

section \<open>The life of a context\<close>

definition fresh_context :: "Context \<Rightarrow> bool" where
  "fresh_context c \<longleftrightarrow> \<not> cx_ptr c \<and> \<not> cx_iowork c \<and> cx_socks c = [] \<and> empty_world (cx_world c)"

text \<open>Nothing is left of an object.\<close>

definition gone :: "Context \<Rightarrow> bool" where
  "gone c \<longleftrightarrow> \<not> cx_ptr c \<and> \<not> cx_iowork c \<and> (\<forall>t. \<not> isOpen (cx_world c) t) \<and> zw_pollers (cx_world c) zevpoll = None"

definition runner_built :: "Context \<Rightarrow> bool" where
  "runner_built c \<longleftrightarrow> cx_ptr c \<and> cx_iowork c \<and> poll_inv (cx_world c) \<and> set (cx_socks c) = runner_sids \<and>
     (\<exists>pl. zw_pollers (cx_world c) = [zevpoll \<mapsto> pl] \<and> zp_sockets pl = [zevr] \<and> zp_obs pl) \<and>
     (\<exists>v. sviews (cx_world c) = runner_wire_view (runner_members_view v)) \<and>
     (\<forall>t. t \<notin> runner_sids \<longrightarrow> \<not> isOpen (cx_world c) t \<and> zs_observers (zw_socks (cx_world c) t) = [])"

text \<open>A call that returns, and leaves nothing when it throws; an abort ends the process.\<close>

definition returns :: "(Context \<Rightarrow> bool) \<Rightarrow> (unit result \<times> Context) option \<Rightarrow> bool" where
  "returns B x \<longleftrightarrow>
     (case x of
        None \<Rightarrow> False
      | Some (Inl (Abort _), _) \<Rightarrow> True
      | Some (Inl (Throw _ _ _), c) \<Rightarrow> gone c
      | Some (Inr _, c) \<Rightarrow> B c)"

lemma returns_simps [simp]:
  "\<not> returns B None" "returns B (Some (Inl (Abort m), c))" "returns B (Some (Inl (Throw e m n), c)) \<longleftrightarrow> gone c"
  "returns B (Some (Inr u, c)) \<longleftrightarrow> B c" "is_abort r \<Longrightarrow> returns B (Some (r, c))"
  by (auto simp: returns_def is_abort_def split: sum.splits fault.splits)

lemma returns_unwind: "returns gone (undo c) \<Longrightarrow> returns B (unwindC f undo c)"
  by (cases f) (auto simp: unwindC_def returns_def split: option.splits prod.splits sum.splits fault.splits)

lemma unwind_abort: "is_abort (Inl f :: unit result) \<Longrightarrow> returns B (unwindC f undo c)"
  by (cases f) (simp_all add: unwindC_def is_abort_def)

lemma returns_delete:
  assumes "\<forall>t. \<not> isOpen (cx_world c) t" and "zw_pollers (cx_world c) zevpoll = None"
  shows "returns gone (Context_delete cl c)"
  using assms by (simp add: Context_delete_def IOWork_stop_def LOG_FATAL_def Context_terminate_def gone_def ASSERT_def split: option.split)

lemma returns_destroy:
  assumes "zlib_ok lib" and "poll_inv (cx_world c)" and "\<forall>t. isOpen (cx_world c) t \<longrightarrow> t \<in> runner_sids"
  shows "returns gone (Runner_destroy lib cl c)"
proof -
  obtain r w where u: "Runner_unwire lib (cx_world c) = (r, w)" by fastforce
  show ?thesis
  proof (cases "is_abort r")
    case True
    then obtain m where "r = Inl (Abort m)" by (auto simp: is_abort_def split: sum.splits fault.splits)
    then show ?thesis using u by (simp add: Runner_destroy_def onWorld_def)
  next
    case False
    note s = Runner_unwire_spec [OF assms(2,1) u False]
    have "\<forall>t. \<not> isOpen w t" using s assms(3) by (auto simp: runner_sids_def)
    then have "returns gone (Context_delete cl (c\<lparr>cx_world := w\<rparr>))" using s by (intro returns_delete) simp_all
    then show ?thesis using u s by (simp add: Runner_destroy_def onWorld_def)
  qed
qed

text \<open>The constructor from the body on.\<close>

lemma returns_wire:
  assumes lib: "zlib_ok lib" and c: "cx_ptr c" "cx_iowork c" "set (cx_socks c) = runner_sids"
    and w: "poll_inv (cx_world c)" "sviews (cx_world c) = runner_members_view v"
    "\<exists>pl. zw_pollers (cx_world c) = [zevpoll \<mapsto> pl] \<and> zp_sockets pl = [zevr] \<and> zp_obs pl"
    "\<And>t. t \<notin> runner_sids \<Longrightarrow> \<not> isOpen (cx_world c) t \<and> zs_observers (zw_socks (cx_world c) t) = []"
  shows "returns runner_built
    (case onWorld (Runner_wire lib evs) c of
       (Inl f, c3) \<Rightarrow> unwindC f (Runner_destroy lib cl) c3
     | (Inr _, c3) \<Rightarrow> Some (Inr (), c3))"
proof -
  obtain r w' where 2: "Runner_wire lib evs (cx_world c) = (r, w')" by fastforce
  show ?thesis
  proof (cases "is_abort r")
    case True
    then show ?thesis using 2 unwind_abort by (cases r) (simp_all add: onWorld_def is_abort_def)
  next
    case False
    note d = wiresD [OF wires_runner [OF lib] w(1) 2 False]
    have out: "\<not> isOpen w' t \<and> zs_observers (zw_socks w' t) = []" if "t \<notin> runner_sids" for t
      using d(3) [OF that] w(4) [OF that] by (simp add: isOpen_def)
    show ?thesis
    proof (cases r)
      case (Inl f)
      have "returns gone (Runner_destroy lib cl (c\<lparr>cx_world := w'\<rparr>))"
        using out d(1) by (intro returns_destroy [OF lib]) auto
      from returns_unwind [where undo = "Runner_destroy lib cl", OF this] show ?thesis using 2 Inl by (simp add: onWorld_def)
    next
      case (Inr u)
      have "runner_built (c\<lparr>cx_world := w'\<rparr>)" using d(1,2) d(4) Inr w(2,3) out c by (auto simp: runner_built_def)
      then show ?thesis using 2 Inr by (simp add: onWorld_def)
    qed
  qed
qed

lemma returns_members:
  assumes lib: "zlib_ok lib" and c: "cx_ptr c" "cx_iowork c" "set (cx_socks c) = runner_sids" "empty_world (cx_world c)"
  shows "returns runner_built
    (case onWorld (Runner_members lib) c of
       (Inl f, c2) \<Rightarrow> unwindC f (Context_delete cl) c2
     | (Inr _, c2) \<Rightarrow>
         (case onWorld (Runner_wire lib evs) c2 of
            (Inl f, c3) \<Rightarrow> unwindC f (Runner_destroy lib cl) c3
          | (Inr _, c3) \<Rightarrow> Some (Inr (), c3)))"
proof -
  obtain r w where 1: "Runner_members lib (cx_world c) = (r, w)" by fastforce
  show ?thesis
  proof (cases "is_abort r")
    case True
    then show ?thesis using 1 unwind_abort by (cases r) (simp_all add: onWorld_def is_abort_def)
  next
    case False
    note m = Runner_members_spec [OF c(4) 1 False]
    show ?thesis
    proof (cases r)
      case (Inl f)
      then have "returns gone (Context_delete cl (c\<lparr>cx_world := w\<rparr>))" using m by (intro returns_delete) auto
      from returns_unwind [where undo = "Context_delete cl", OF this] show ?thesis using 1 Inl by (simp add: onWorld_def)
    next
      case (Inr u)
      then have "\<not> isOpen w t \<and> (t \<notin> runner_sids \<longrightarrow> zs_observers (zw_socks w t) = [])" for t
        using m c(4) by (auto simp: empty_world_def)
      then show ?thesis using returns_wire [OF lib, of "c\<lparr>cx_world := w\<rparr>" "sviews (cx_world c)" cl evs] 1 Inr m c
        by (simp add: onWorld_def)
    qed
  qed
qed

lemma Runner_construct_spec:
  assumes lib: "zlib_ok lib" and fresh: "fresh_context c"
  shows "returns runner_built (Runner_construct lib cl evs c)"
proof -
  have c: "\<forall>t. \<not> isOpen (cx_world c) t" "zw_pollers (cx_world c) zevpoll = None" "\<not> cx_ptr c" "\<not> cx_iowork c" "cx_socks c = []"
    "empty_world (cx_world c)" using fresh by (simp_all add: fresh_context_def empty_world_def)
  show ?thesis
  proof (cases "cl_new cl = None \<and> cl_async cl = None")
    case True
    let ?c = "c\<lparr>cx_ptr := True, cx_iowork := True, cx_socks := [zops, zopr, zevs, zevr, zfins, zfinr] @ cx_socks c\<rparr>"
    have "returns runner_built (case onWorld (Runner_members lib) ?c of
       (Inl f, c2) \<Rightarrow> unwindC f (Context_delete cl) c2
     | (Inr _, c2) \<Rightarrow>
         (case onWorld (Runner_wire lib evs) c2 of
            (Inl f, c3) \<Rightarrow> unwindC f (Runner_destroy lib cl) c3
          | (Inr _, c3) \<Rightarrow> Some (Inr (), c3)))"
      using c by (intro returns_members [OF lib]) (auto simp: runner_sids_def)
    then show ?thesis using True by (simp add: Runner_construct_def Context_new_def Let_def)
  next
    case False
    then obtain f c' where "Runner_construct lib cl evs c = Some (Inl f, c')" "gone c'"
      using c by (cases "cl_new cl"; cases "cl_async cl"; cases "cl_term cl = 0")
        (auto simp: Runner_construct_def Context_new_def Context_terminate_def Let_def gone_def)
    then show ?thesis by (cases f) simp_all
  qed
qed

end
