(* ===== verification/Fuurin_Inproc.thy ===== *)
theory Fuurin_Inproc
  imports Fuurin_Wiring
begin

text \<open>
  The wiring on a library that answers as it is documented to for endpoints inside of a process: an
  endpoint is bound from the call that binds it until its socket is closed; meanwhile it can be connected
  to and not be bound again.
\<close>

section \<open>Bound endpoints\<close>

definition bound :: "zlib \<Rightarrow> zcall list \<Rightarrow> bytes \<Rightarrow> bool" where
  "bound lib calls e \<longleftrightarrow> (\<exists>t pre post v. calls = pre @ CBind t e # post \<and> zl_answer lib pre (CBind t e) = ZOk v \<and>
     CClose t \<notin> set post)"

definition plain_call :: "zcall \<Rightarrow> bool" where
  "plain_call c \<longleftrightarrow> (\<forall>s e. c \<noteq> CBind s e \<and> c \<noteq> CConnect s e) \<and> (\<forall>s. c \<noteq> CClose s) \<and> (\<forall>p t. c \<noteq> CPollerWait p t)"

definition inproc_ok :: "zlib \<Rightarrow> bool" where
  "inproc_ok lib \<longleftrightarrow> zlib_ok lib \<and>
     (\<forall>calls c. plain_call c \<longrightarrow> (\<exists>v. zl_answer lib calls c = ZOk v)) \<and>
     (\<forall>calls s. \<exists>v. zl_answer lib calls (CClose s) = ZOk v) \<and>
     (\<forall>calls p t. zl_answer lib calls (CPollerWait p t) = ZErr EAGAIN \<or> (\<exists>v. zl_answer lib calls (CPollerWait p t) = ZOk v)) \<and>
     (\<forall>calls s e. bound lib calls e \<longrightarrow> (\<exists>v. zl_answer lib calls (CConnect s e) = ZOk v)) \<and>
     (\<forall>calls s e. if bound lib calls e then zl_answer lib calls (CBind s e) = ZErr EADDRINUSE
        else (\<exists>v. zl_answer lib calls (CBind s e) = ZOk v))"

lemma inproc_okD:
  assumes "inproc_ok lib"
  shows "zlib_ok lib" and "plain_call c \<Longrightarrow> \<exists>v. zl_answer lib calls c = ZOk v"
    and "\<exists>v. zl_answer lib calls (CClose s) = ZOk v"
    and "zl_answer lib calls (CPollerWait p t) = ZErr EAGAIN \<or> (\<exists>v. zl_answer lib calls (CPollerWait p t) = ZOk v)"
    and "bound lib calls e \<Longrightarrow> \<exists>v. zl_answer lib calls (CConnect s e) = ZOk v"
    and "bound lib calls e \<Longrightarrow> zl_answer lib calls (CBind s e) = ZErr EADDRINUSE"
    and "\<not> bound lib calls e \<Longrightarrow> \<exists>v. zl_answer lib calls (CBind s e) = ZOk v"
  using assms unfolding inproc_ok_def by metis+

lemma boundI:
  "calls = pre @ CBind t e # post \<Longrightarrow> zl_answer lib pre (CBind t e) = ZOk v \<Longrightarrow> CClose t \<notin> set post \<Longrightarrow> bound lib calls e"
  unfolding bound_def by blast

lemma bound_append: "bound lib calls e \<Longrightarrow> (\<And>t. CClose t \<notin> set cs) \<Longrightarrow> bound lib (calls @ cs) e"
  unfolding bound_def by (metis (no_types, lifting) Un_iff append.assoc append_Cons set_append)

lemma bound_snoc:
  assumes "\<And>t. c \<noteq> CClose t"
  shows "bound lib (calls @ [c]) e \<longleftrightarrow> bound lib calls e \<or> (\<exists>t v. c = CBind t e \<and> zl_answer lib calls c = ZOk v)"
proof
  assume "bound lib (calls @ [c]) e"
  then obtain t pre post v where b: "calls @ [c] = pre @ CBind t e # post" "zl_answer lib pre (CBind t e) = ZOk v"
    "CClose t \<notin> set post" by (auto simp: bound_def)
  show "bound lib calls e \<or> (\<exists>t v. c = CBind t e \<and> zl_answer lib calls c = ZOk v)"
  proof (cases post rule: rev_cases)
    case Nil
    then show ?thesis using b by auto
  next
    case (snoc post' c')
    then have "calls = pre @ CBind t e # post'" using b(1) by simp
    moreover have "CClose t \<notin> set post'" using b(3) snoc by simp
    ultimately show ?thesis using boundI [OF _ b(2)] by blast
  qed
next
  assume "bound lib calls e \<or> (\<exists>t v. c = CBind t e \<and> zl_answer lib calls c = ZOk v)"
  then show "bound lib (calls @ [c]) e"
  proof
    assume "bound lib calls e"
    then show ?thesis by (rule bound_append) (use assms in auto)
  next
    assume "\<exists>t v. c = CBind t e \<and> zl_answer lib calls c = ZOk v"
    then obtain t v where "c = CBind t e" "zl_answer lib calls c = ZOk v" by blast
    then show ?thesis by (intro boundI [of _ calls t e "[]" lib v]) simp_all
  qed
qed

lemma bound_plain: "plain_call c \<Longrightarrow> bound lib (calls @ [c]) e \<longleftrightarrow> bound lib calls e"
  by (subst bound_snoc) (auto simp: plain_call_def)

section \<open>Actions that succeed\<close>

definition succ :: "(zworld \<Rightarrow> bool) \<Rightarrow> 'a zaction \<Rightarrow> (zworld \<Rightarrow> bool) \<Rightarrow> bool" where
  "succ I f J \<longleftrightarrow> (\<forall>w. I w \<longrightarrow> (\<exists>x w'. f w = (Inr x, w') \<and> J w'))"

lemma succ_bind: "succ I f J \<Longrightarrow> (\<And>x. succ J (g x) K) \<Longrightarrow> succ I (bindA f g) K"
  unfolding succ_def bindA_def by fastforce

lemma succ_then: "succ I f J \<Longrightarrow> succ J g K \<Longrightarrow> succ I (thenA f g) K"
  unfolding thenA_def by (rule succ_bind)

lemma succ_ret: "succ I (retA x) I"
  by (simp add: succ_def retA_def)

lemma succ_for: "(\<And>x. x \<in> set xs \<Longrightarrow> succ I (f x) I) \<Longrightarrow> succ I (forA xs f) I"
  by (induction xs) (auto intro: succ_then succ_ret)

lemma succ_seq: "succ I f J \<Longrightarrow> succ J (seqA fs) K \<Longrightarrow> succ I (seqA (f # fs)) K"
  by (simp add: seqA_def succ_then)

lemma succ_nil: "succ I (seqA []) I"
  by (simp add: seqA_def succ_ret)

lemma succ_upd: "(\<And>w. I w \<Longrightarrow> J (g w)) \<Longrightarrow> succ I (updA g) J"
  by (simp add: succ_def updA_def)

lemma succD: "succ I f J \<Longrightarrow> I w \<Longrightarrow> \<exists>x w'. f w = (Inr x, w') \<and> J w'"
  by (simp add: succ_def)

text \<open>While a socket opens: the other sockets, the pollers and the bound endpoints stay as they are.\<close>

definition mid :: "zlib \<Rightarrow> (sid \<Rightarrow> ZSocket) \<Rightarrow> (pid \<Rightarrow> ZPoller option) \<Rightarrow> bytes set \<Rightarrow> sid \<Rightarrow> zworld \<Rightarrow> bool" where
  "mid lib K P B s w \<longleftrightarrow> (\<exists>x. zw_socks w = K(s := (K s)\<lparr>zs_openEndpoints := x\<rparr>)) \<and> zw_pollers w = P \<and>
     {e. bound lib (zw_calls w) e} = B"

lemma mid_call:
  assumes "inproc_ok lib" and "plain_call c" and "\<And>v. succ (mid lib K P B s) (g v) J"
  shows "succ (mid lib K P B s) (bindA (zcallA lib c) (\<lambda>a. case a of ZErr e \<Rightarrow> h e | ZOk v \<Rightarrow> g v)) J"
  unfolding succ_def
proof (intro allI impI)
  fix w
  assume w: "mid lib K P B s w"
  obtain v where v: "zl_answer lib (zw_calls w) c = ZOk v" using inproc_okD(2) [OF assms(1,2)] by blast
  have "mid lib K P B s (w\<lparr>zw_calls := zw_calls w @ [c]\<rparr>)" using w bound_plain [OF assms(2)] by (simp add: mid_def)
  from succD [OF assms(3) this] show "\<exists>x w'. bindA (zcallA lib c) (\<lambda>a. case a of ZErr e \<Rightarrow> h e | ZOk v \<Rightarrow> g v) w = (Inr x, w') \<and> J w'"
    using v by (simp add: bindA_def zcallA_def)
qed

lemma mid_options:
  assumes "inproc_ok lib"
  shows "succ (mid lib K P B s) (zs_setOption lib t opt) (mid lib K P B s)"
    and "succ (mid lib K P B s) (zs_join lib t grp) (mid lib K P B s)"
  unfolding zs_setOption_def zs_join_def by (rule mid_call [OF assms]; simp add: plain_call_def succ_ret)+

lemma mid_configure:
  assumes "inproc_ok lib"
  shows "succ (mid lib K P B s) (zs_configure lib t) (mid lib K P B s)"
  unfolding succ_def
proof (intro allI impI)
  fix w
  assume w: "mid lib K P B s w"
  let ?k = "zw_socks w t"
  have "succ (mid lib K P B s) (thenA (zs_setOption lib t (ZMQ_LINGER (getMillis INT_MAX (zs_linger ?k))))
      (thenA (zs_setOption lib t (ZMQ_SNDHWM (zs_hwmsnd ?k)))
      (thenA (zs_setOption lib t (ZMQ_RCVHWM (zs_hwmrcv ?k)))
      (thenA (zs_setOption lib t (ZMQ_CONFLATE (if zs_conflate ?k then 1 else 0)))
      (thenA (forA (zs_subscriptions ?k) (\<lambda>f. zs_setOption lib t (ZMQ_SUBSCRIBE f)))
      (forA (zs_groups ?k) (zs_join lib t))))))) (mid lib K P B s)"
    by (rule succ_then mid_options [OF assms] succ_for)+
  from succD [OF this w] show "\<exists>x w'. zs_configure lib t w = (Inr x, w') \<and> mid lib K P B s w'"
    by (simp add: zs_configure_def Let_def)
qed

text \<open>The step that attaches a socket to an endpoint: binding makes it bound, connecting needs it to be.\<close>

definition attaches :: "zlib \<Rightarrow> (sid \<Rightarrow> bytes \<Rightarrow> unit zaction) \<Rightarrow> bytes \<Rightarrow> bytes set \<Rightarrow> bytes set \<Rightarrow> bool" where
  "attaches lib act e B B' \<longleftrightarrow> (\<forall>K P s. succ (mid lib K P B s) (act s e) (mid lib K P B' s))"

lemma attaches_connect:
  assumes "inproc_ok lib" and "e \<in> B"
  shows "attaches lib (zs_connectTo lib) e B B"
  unfolding attaches_def succ_def
proof (intro allI impI)
  fix K P s w
  assume w: "mid lib K P B s w"
  then have "bound lib (zw_calls w) e" using assms(2) by (auto simp: mid_def)
  then obtain v where v: "zl_answer lib (zw_calls w) (CConnect s e) = ZOk v" using inproc_okD(5) [OF assms(1)] by blast
  have "mid lib K P B s (w\<lparr>zw_calls := zw_calls w @ [CConnect s e]\<rparr>)" using w by (auto simp: mid_def bound_snoc)
  then show "\<exists>x w'. zs_connectTo lib s e w = (Inr x, w') \<and> mid lib K P B s w'"
    using v by (simp add: zs_connectTo_def bindA_def zcallA_def retA_def)
qed

lemma attaches_bind:
  assumes "inproc_ok lib" and "e \<notin> B"
  shows "attaches lib (zs_bindTo lib tmo) e B (insert e B)"
  unfolding attaches_def succ_def
proof (intro allI impI)
  fix K P s w
  assume w: "mid lib K P B s w"
  then have "\<not> bound lib (zw_calls w) e" using assms(2) by (auto simp: mid_def)
  then obtain v where v: "zl_answer lib (zw_calls w) (CBind s e) = ZOk v" using inproc_okD(7) [OF assms(1)] by blast
  have "{e'. bound lib (zw_calls w @ [CBind s e]) e'} = insert e {e'. bound lib (zw_calls w) e'}"
    using v by (auto simp: bound_snoc)
  then have "mid lib K P (insert e B) s (w\<lparr>zw_calls := zw_calls w @ [CBind s e]\<rparr>)" using w by (auto simp: mid_def)
  then show "\<exists>x w'. zs_bindTo lib tmo s e w = (Inr x, w') \<and> mid lib K P (insert e B) s w'"
    using v by (simp add: zs_bindTo_def bind_loop.simps [of lib s e tmo _ w] Let_def)
qed

lemma mid_endpoint:
  assumes "inproc_ok lib"
  shows "succ (mid lib K P B s) (bindA (zs_getLastEndpoint lib s) (\<lambda>lastEndp.
    updA (upd_sock s (\<lambda>k. k\<lparr>zs_openEndpoints := zs_openEndpoints k @ [lastEndp]\<rparr>)))) (mid lib K P B s)"
proof -
  have get: "succ (mid lib K P B s) (zs_getLastEndpoint lib s) (mid lib K P B s)"
    unfolding zs_getLastEndpoint_def by (rule mid_call [OF assms]) (simp_all add: plain_call_def succ_ret)
  show ?thesis by (intro succ_bind [OF get] succ_upd) (auto simp: mid_def upd_sock_def)
qed

lemma mid_attach:
  assumes "inproc_ok lib" and "attaches lib act e B B'" and "zs_endpoints (K s) = [e]"
  shows "succ (mid lib K P B s) (zs_attach lib act s) (mid lib K P B' s)"
  unfolding succ_def
proof (intro allI impI)
  fix w
  assume w: "mid lib K P B s w"
  then have e: "zs_endpoints (zw_socks w s) = [e]" using assms(3) by (auto simp: mid_def)
  have "succ (mid lib K P B s) (thenA (act s e) (bindA (zs_getLastEndpoint lib s) (\<lambda>lastEndp.
      updA (upd_sock s (\<lambda>k. k\<lparr>zs_openEndpoints := zs_openEndpoints k @ [lastEndp]\<rparr>))))) (mid lib K P B' s)"
    using assms(2) by (intro succ_then [OF _ mid_endpoint [OF assms(1)]]) (simp add: attaches_def)
  from succD [OF succ_then [OF this succ_ret [of _ "()"]] w]
  show "\<exists>x w'. zs_attach lib act s w = (Inr x, w') \<and> mid lib K P B' s w'"
    using e by (simp add: zs_attach_def)
qed

lemma mid_observers:
  assumes "inproc_ok lib" and "zs_ptr (K s)" and "P p = Some pl" and "s \<in> set (zp_sockets pl)"
  shows "succ (mid lib K P B s) (updateOnOpen lib p s) (mid lib K P B s)"
proof -
  have add: "succ (mid lib K P B s) (addSocket lib p s rd wr) (mid lib K P B s)" for rd wr
    unfolding succ_def
  proof (intro allI impI)
    fix w
    assume w: "mid lib K P B s w"
    have "isOpen w s" using w assms(2) by (auto simp: mid_def isOpen_def)
    moreover have "succ (mid lib K P B s) (bindA (zcallA lib (CPollerAdd p s rd wr)) (\<lambda>a. case a of
         ZErr e \<Rightarrow> liftA (Inl (Throw ZMQPollerAddSocketFailed ''could not add socket'' e))
       | ZOk _ \<Rightarrow> updA (\<lambda>w. w\<lparr>zw_polled := (p, s) # zw_polled w\<rparr>))) (mid lib K P B s)"
      by (rule mid_call [OF assms(1)], simp add: plain_call_def, rule succ_upd) (simp add: mid_def)
    ultimately show "\<exists>x w'. addSocket lib p s rd wr w = (Inr x, w') \<and> mid lib K P B s w'"
      using w by (auto simp: addSocket_def bindA_def readA_def dest: succD)
  qed
  show ?thesis unfolding succ_def
  proof (intro allI impI)
    fix w
    assume w: "mid lib K P B s w"
    have "zp_type pl = PollRead \<or> zp_type pl = PollWrite" by (cases "zp_type pl") simp_all
    then have "updateOnOpen lib p s w = addSocket lib p s (zp_type pl = PollRead) (zp_type pl = PollWrite) w"
      using w assms(3,4) by (auto simp: updateOnOpen_def updateSocket_def mid_def)
    with succD [OF add w] show "\<exists>x w'. updateOnOpen lib p s w = (Inr x, w') \<and> mid lib K P B s w'" by simp
  qed
qed

lemma open_succeeds:
  assumes lib: "inproc_ok lib" and act: "attaches lib act e B B'" and w: "poll_inv w" "\<not> isOpen w s"
    and e: "zs_endpoints (zw_socks w s) = [e]" and B: "{e. bound lib (zw_calls w) e} = B"
  shows "\<exists>w'. zs_open lib act s w = (Inr (), w') \<and> {e. bound lib (zw_calls w') e} = B'"
proof -
  let ?c = "CSocket s (zs_type (zw_socks w s))"
  define w1 where "w1 = upd_sock s (\<lambda>k. k\<lparr>zs_ptr := True\<rparr>) (w\<lparr>zw_calls := zw_calls w @ [?c]\<rparr>)"
  have p: "plain_call ?c" by (simp add: plain_call_def)
  then obtain v where v: "zl_answer lib (zw_calls w) ?c = ZOk v" using inproc_okD(2) [OF lib] by blast
  have m: "mid lib (zw_socks w1) (zw_pollers w) B s w1"
    using B bound_plain [OF p] unfolding mid_def
    by (auto simp: w1_def upd_sock_def intro!: exI [of _ "zs_openEndpoints (zw_socks w s)"])
  have k: "zs_ptr (zw_socks w1 s)" "zs_endpoints (zw_socks w1 s) = [e]" "zs_observers (zw_socks w1 s) = zs_observers (zw_socks w s)"
    using e by (simp_all add: w1_def upd_sock_def)
  have obs: "\<exists>pl. zw_pollers w q = Some pl \<and> s \<in> set (zp_sockets pl)" if "q \<in> set (zs_observers (zw_socks w s))" for q
    using poll_inv_observers [OF w(1) that] by (auto simp: observed_def)
  have "succ (mid lib (zw_socks w1) (zw_pollers w) B' s)
      (\<lambda>w. forA (zs_observers (zw_socks w s)) (\<lambda>p. updateOnOpen lib p s) w) (mid lib (zw_socks w1) (zw_pollers w) B' s)"
    unfolding succ_def
  proof (intro allI impI)
    fix u
    assume u: "mid lib (zw_socks w1) (zw_pollers w) B' s u"
    then have o: "zs_observers (zw_socks u s) = zs_observers (zw_socks w s)" using k(3) by (auto simp: mid_def)
    have "succ (mid lib (zw_socks w1) (zw_pollers w) B' s) (forA (zs_observers (zw_socks w s)) (\<lambda>p. updateOnOpen lib p s))
        (mid lib (zw_socks w1) (zw_pollers w) B' s)"
      by (rule succ_for, drule obs) (use mid_observers [of lib "zw_socks w1" s "zw_pollers w"] lib k(1) in blast)
    from succD [OF this u] show "\<exists>x w'. forA (zs_observers (zw_socks u s)) (\<lambda>p. updateOnOpen lib p s) u = (Inr x, w') \<and>
        mid lib (zw_socks w1) (zw_pollers w) B' s w'" by (simp add: o)
  qed
  then have "succ (mid lib (zw_socks w1) (zw_pollers w) B s) (open_body lib act s) (mid lib (zw_socks w1) (zw_pollers w) B' s)"
    unfolding open_body_def
    by (intro succ_then [OF mid_configure [OF lib]] succ_then [OF mid_attach [where K = "zw_socks w1", OF lib act k(2)]])
  from succD [OF this m] obtain w' where "open_body lib act s w1 = (Inr (), w')" "{e. bound lib (zw_calls w') e} = B'"
    by (auto simp: mid_def)
  moreover have "zs_open lib act s w = guardA (open_body lib act s) (zs_close lib s) w1"
    using w(2) v by (simp add: zs_open_def open_body_def action_defs zcallA_def w1_def)
  ultimately show ?thesis by (simp add: guardA_def)
qed

section \<open>Construction succeeds\<close>

definition ready :: "zlib \<Rightarrow> sid set \<Rightarrow> (sid \<Rightarrow> bytes list) \<Rightarrow> bytes set \<Rightarrow> zworld \<Rightarrow> bool" where
  "ready lib S E B w \<longleftrightarrow> poll_inv w \<and> (\<forall>s. isOpen w s \<longleftrightarrow> s \<in> S) \<and> (\<forall>s. zs_endpoints (zw_socks w s) = E s) \<and>
     {e. bound lib (zw_calls w) e} = B"

lemma ready_set:
  assumes "\<And>k. zs_ptr (h k) = zs_ptr k" and "\<And>k. zs_observers (h k) = zs_observers k"
    and "\<And>k. zs_endpoints k = E s \<Longrightarrow> zs_endpoints (h k) = E' s" and "\<And>t. t \<noteq> s \<Longrightarrow> E' t = E t"
  shows "succ (ready lib S E B) (setS s h) (ready lib S E' B)"
  unfolding setS_def
proof (rule succ_upd)
  fix w
  assume w: "ready lib S E B w"
  then have inv: "poll_inv w" and op: "\<And>t. isOpen w t \<longleftrightarrow> t \<in> S" and en: "\<And>t. zs_endpoints (zw_socks w t) = E t"
    and bo: "{e. bound lib (zw_calls w) e} = B" by (simp_all add: ready_def)
  have k: "zw_socks (upd_sock s h w) t = (if t = s then h (zw_socks w s) else zw_socks w t)" for t by (simp add: upd_sock_def)
  have 1: "poll_inv (upd_sock s h w)"
    by (rule poll_inv_cong [OF inv]) (simp_all add: upd_sock_def assms(1,2))
  have 2: "isOpen (upd_sock s h w) t \<longleftrightarrow> t \<in> S" for t using op [of t] by (auto simp: isOpen_def k assms(1))
  have 3: "zs_endpoints (zw_socks (upd_sock s h w) t) = E' t" for t
    using assms(3) [OF en [of s]] assms(4) [of t] en [of t] by (cases "t = s") (simp_all add: k)
  have 4: "{e. bound lib (zw_calls (upd_sock s h w)) e} = B" using bo by (simp add: upd_sock_def)
  show "ready lib S E' B (upd_sock s h w)" unfolding ready_def using 1 2 3 4 by blast
qed

lemma ready_setters:
  "succ (ready lib S E B) (setS s (zs_setEndpoints es)) (ready lib S (E(s := es)) B)"
  "succ (ready lib S E B) (setS s (zs_setGroups gs)) (ready lib S E B)"
  "succ (ready lib S E B) (setS s (zs_setHighWaterMark a b)) (ready lib S E B)"
  "succ (ready lib S E B) (setS s (zs_setConflate c)) (ready lib S E B)"
  by (rule ready_set; simp add: setter_apply)+

lemma ready_open:
  assumes lib: "inproc_ok lib" and "attaches lib act e B B'" and act: "act_ok act" and "s \<notin> S" and "E s = [e]"
  shows "succ (ready lib S E B) (zs_open lib act s) (ready lib (insert s S) E B')"
  unfolding succ_def
proof (intro allI impI)
  fix w
  assume w: "ready lib S E B w"
  then obtain w' where run: "zs_open lib act s w = (Inr (), w')" and B: "{e. bound lib (zw_calls w') e} = B'"
    using open_succeeds [OF lib assms(2), of w s] assms(4,5) by (auto simp: ready_def)
  note d = wiresD [OF wires_open [OF inproc_okD(1) [OF lib] act] _ run]
  have v: "poll_inv w'" "sviews w' = (sviews w)(s := (sviews w s)\<lparr>zs_ptr := True\<rparr>)"
    using d(1,4) w by (simp_all add: ready_def is_abort_def)
  have view: "zs_ptr (sviews u t) = isOpen u t" "zs_endpoints (sviews u t) = zs_endpoints (zw_socks u t)" for u t
    by (simp_all add: sviews_def sview_def isOpen_def)
  have "isOpen w' t \<longleftrightarrow> t \<in> insert s S" "zs_endpoints (zw_socks w' t) = E t" for t
    using w unfolding view [symmetric] v(2) by (simp_all add: ready_def view)
  then show "\<exists>x w'. zs_open lib act s w = (Inr x, w') \<and> ready lib (insert s S) E B' w'"
    using run B v(1) by (simp add: ready_def)
qed

lemma ready_bind:
  assumes "inproc_ok lib" and "s \<notin> S" and "E s = [e]" and "e \<notin> B"
  shows "succ (ready lib S E B) (zs_bind lib s) (ready lib (insert s S) E (insert e B))"
  unfolding zs_bind_def
  by (rule ready_open [where E = E and s = s, OF assms(1) attaches_bind [OF assms(1,4)] act_ok_code(2) assms(2,3)])

lemma ready_connect:
  assumes "inproc_ok lib" and "s \<notin> S" and "E s = [e]" and "e \<in> B"
  shows "succ (ready lib S E B) (zs_connect lib s) (ready lib (insert s S) E B)"
  unfolding zs_connect_def
  by (rule ready_open [where E = E and s = s, OF assms(1) attaches_connect [OF assms(1,4)] act_ok_code(1) assms(2,3)])

lemma ready_wait:
  assumes "inproc_ok lib"
  shows "succ (ready lib S E B) (thenA (waitForEvents lib p evs tmo) (retA ())) (ready lib S E B)"
  unfolding succ_def
proof (intro allI impI)
  fix w
  assume w: "ready lib S E B w"
  let ?c = "CPollerWait p (getMillis (zl_long lib) tmo)"
  let ?w = "w\<lparr>zw_calls := zw_calls w @ [?c]\<rparr>"
  have run: "thenA (waitForEvents lib p evs tmo) (retA ()) w = (Inr (), ?w)"
    using inproc_okD(4) [OF assms, of "zw_calls w" p "getMillis (zl_long lib) tmo"]
    by (auto simp: waitForEvents_def zcallA_def action_defs)
  have "poll_inv ?w" using wiresD(1) [OF wires_wait _ run] w by (simp add: ready_def is_abort_def)
  moreover have "{e. bound lib (zw_calls w @ [?c]) e} = {e. bound lib (zw_calls w) e}" by (auto simp: bound_snoc)
  ultimately show "\<exists>x w'. thenA (waitForEvents lib p evs tmo) (retA ()) w = (Inr x, w') \<and> ready lib S E B w'"
    using run w by (simp add: ready_def isOpen_def)
qed

lemma inproc_inj: "inproc a = inproc b \<longleftrightarrow> a = b"
  by (simp add: inproc_def)

lemma ready_runner:
  assumes "inproc_ok lib"
  shows "\<exists>E' B. succ (ready lib {} E {}) (Runner_wire lib evs) (ready lib runner_sids E' B) \<and> inproc ''worker-seqn'' \<notin> B"
proof -
  have S: "runner_sids = insert zfins (insert zfinr (insert zevr (insert zevs (insert zops (insert zopr {})))))"
    by (auto simp: runner_sids_def)
  show ?thesis unfolding Runner_wire_def S
    apply (intro exI conjI)
     apply (rule succ_seq ready_setters ready_bind [OF assms] ready_connect [OF assms] ready_wait [OF assms] succ_nil |
       (simp add: sid_defs inproc_inj; fail))+
    done
qed

lemma ready_worker:
  assumes "inproc_ok lib" and "inproc ''worker-seqn'' \<notin> B"
  shows "\<exists>S' E' B'. succ (ready lib runner_sids E B) (worker_body lib) (ready lib S' E' B')"
  unfolding worker_body_def
  apply (intro exI)
  apply (rule succ_seq ready_setters ready_bind [OF assms(1)] ready_connect [OF assms(1)] succ_nil |
       (use assms(2-) in \<open>simp add: sid_defs inproc_inj runner_sids_def\<close>; fail))+
  done

lemma members_succeed:
  assumes lib: "inproc_ok lib" and w: "empty_world w" "zw_calls w = []"
  shows "\<exists>w' E. Runner_members lib w = (Inr (), w') \<and> ready lib {} E {} w'"
proof -
  define w1 where "w1 = upd_sock zfinr (\<lambda>_. ZSocket_new PULL) (upd_sock zfins (\<lambda>_. ZSocket_new PUSH)
    (upd_sock zevr (\<lambda>_. ZSocket_new DISH) (upd_sock zevs (\<lambda>_. ZSocket_new RADIO)
    (upd_sock zopr (\<lambda>_. ZSocket_new PAIR) (upd_sock zops (\<lambda>_. ZSocket_new PAIR) w)))))"
  have e: "empty_world w1" unfolding w1_def by (intro empty_world_new w(1))
  have c: "zw_calls w1 = []" using w(2) by (simp add: w1_def upd_sock_def)
  have p: "plain_call (CPollerNew zevpoll)" by (simp add: plain_call_def)
  then obtain v where v: "zl_answer lib [] (CPollerNew zevpoll) = ZOk v" using inproc_okD(2) [OF lib] by blast
  have "\<not> isOpen w1 zevr" using e by (simp add: empty_world_def)
  then have step: "create_step lib zevpoll True rd wr zevr (w1\<lparr>zw_calls := cs\<rparr>) =
      (Inr (), upd_sock zevr (registerPoller zevpoll) (w1\<lparr>zw_calls := cs\<rparr>))" for rd wr cs
    by (simp add: create_step_def thenA_def bindA_def updA_def readA_def retA_def upd_sock_def isOpen_def)
  have "createPoller lib zevpoll True [zevr] rd wr w1 = (Inr (), upd_sock zevr (registerPoller zevpoll) (w1\<lparr>zw_calls := [CPollerNew zevpoll]\<rparr>))" for rd wr
    using v c step by (simp add: createPoller_eq guardA_def thenA_def bindA_def retA_def Let_def)
  then obtain w' where run: "PollerAuto_new_tmeo lib zevpoll PollRead 0 [zevr] w1 = (Inr (), w')" "zw_calls w' = [CPollerNew zevpoll]"
    by (simp add: PollerAuto_new_tmeo_def Poller_new_tmeo_def Poller_new_def thenA_def bindA_def updA_def upd_sock_def)
  then have members: "Runner_members lib w = (Inr (), w')"
    unfolding w1_def by (simp add: Runner_members_def seqA_def setS_def thenA_def bindA_def updA_def retA_def)
  have spec: "poll_inv w'" "\<forall>t. \<not> isOpen w' t"
    using Runner_members_spec [OF w(1) members] by (simp_all add: is_abort_def)
  have "{e. bound lib (zw_calls w') e} = {}" by (auto simp: run(2) bound_def Cons_eq_append_conv)
  then show ?thesis using members spec by (auto simp: ready_def)
qed

lemma worker_wire_succeeds:
  assumes lib: "inproc_ok lib" and w: "ready lib runner_sids E B w" and B: "inproc ''worker-seqn'' \<notin> B"
    and obs: "\<forall>s\<in>{zseqs, zseqr}. zs_observers (zw_socks w s) = []"
  shows "\<exists>w'. Worker_wire lib w = (Inr (), w')"
proof -
  let ?w = "upd_sock zseqr (\<lambda>_. ZSocket_new PULL) (upd_sock zseqs (\<lambda>_. ZSocket_new PUSH) w)"
  have b: "Worker_wire lib w = worker_body lib ?w"
    by (simp add: Worker_wire_def worker_body_def seqA_def setS_def thenA_def bindA_def updA_def)
  have c: "\<not> isOpen w zseqs" "\<not> isOpen w zseqr" using w by (simp_all add: ready_def runner_sids_def sid_defs)
  have "poll_inv w" using w by (simp add: ready_def)
  then have inv: "poll_inv ?w"
    by (rule poll_inv_cong) (use obs c in \<open>auto simp: upd_sock_def ZSocket_new_def isOpen_def\<close>)
  have "ready lib runner_sids (\<lambda>s. zs_endpoints (zw_socks ?w s)) B ?w"
    using w c inv unfolding ready_def by (auto simp: upd_sock_def isOpen_def ZSocket_new_def split: if_splits)
  moreover obtain S' E' B' where "succ (ready lib runner_sids (\<lambda>s. zs_endpoints (zw_socks ?w s)) B) (worker_body lib) (ready lib S' E' B')"
    using ready_worker [OF lib B] by blast
  ultimately obtain u w' where "worker_body lib ?w = (Inr u, w')" using succD by blast
  then show ?thesis using b by auto
qed

section \<open>Workers\<close>

text \<open>The types of sockets that can talk to each other.\<close>

definition talks :: "Socket_Type \<Rightarrow> Socket_Type \<Rightarrow> bool" where
  "talks a b \<longleftrightarrow> (a, b) \<in> {(PAIR, PAIR), (PUB, SUB), (SUB, PUB), (REQ, REP), (REP, REQ), (PUSH, PULL), (PULL, PUSH),
     (SERVER, CLIENT), (CLIENT, SERVER), (RADIO, DISH), (DISH, RADIO)}"

text \<open>The pairs of a worker: the one that binds, the one that connects, the name of their endpoint and whether
  only the last message is kept.\<close>

definition worker_pairs :: "(sid \<times> sid \<times> string \<times> bool) list" where
  "worker_pairs = [(zopr, zops, ''runner-loop'', False), (zevs, zevr, ''runner-events'', False),
     (zfinr, zfins, ''runner-terminate'', True), (zseqr, zseqs, ''worker-seqn'', True)]"

definition wired_pair :: "zworld \<Rightarrow> sid \<times> sid \<times> string \<times> bool \<Rightarrow> bool" where
  "wired_pair w = (\<lambda>(b, k, nm, keep). talks (zs_type (zw_socks w b)) (zs_type (zw_socks w k)) \<and>
     (\<forall>s\<in>{b, k}. isOpen w s \<and> zs_endpoints (zw_socks w s) = [inproc nm] \<and> zs_conflate (zw_socks w s) = keep \<and>
        (keep \<longrightarrow> zs_hwmsnd (zw_socks w s) = 1 \<and> zs_hwmrcv (zw_socks w s) = 1)))"

definition worker_wired :: "Context \<Rightarrow> bool" where
  "worker_wired c \<longleftrightarrow> cx_ptr c \<and> cx_iowork c \<and> (\<forall>p\<in>set worker_pairs. wired_pair (cx_world c) p) \<and>
     zs_groups (zw_socks (cx_world c) zevr) = [GROUP_EVENTS] \<and> (zevpoll, zevr) \<in> set (zw_polled (cx_world c))"

lemma wired_views:
  assumes "sviews w = worker_wire_view (runner_wire_view (runner_members_view v))"
  shows "\<forall>p\<in>set worker_pairs. wired_pair w p" and "zs_groups (zw_socks w zevr) = [GROUP_EVENTS]"
proof -
  let ?V = "worker_wire_view (runner_wire_view (runner_members_view v))"
  have k: "sview (zw_socks w s) = ?V s" for s using fun_cong [OF assms, of s] by (simp add: sviews_def)
  have f: "zs_type (zw_socks w s) = zs_type (?V s)" "zs_ptr (zw_socks w s) = zs_ptr (?V s)"
    "zs_endpoints (zw_socks w s) = zs_endpoints (?V s)" "zs_conflate (zw_socks w s) = zs_conflate (?V s)"
    "zs_hwmsnd (zw_socks w s) = zs_hwmsnd (?V s)" "zs_hwmrcv (zw_socks w s) = zs_hwmrcv (?V s)"
    "zs_groups (zw_socks w s) = zs_groups (?V s)" for s
    unfolding k [symmetric] by (simp_all add: sview_def)
  note V = worker_wire_view_def runner_wire_view_def runner_members_view_def sid_defs latest_def wired_to_def ZSocket_new_def
  show "\<forall>p\<in>set worker_pairs. wired_pair w p"
    unfolding worker_pairs_def wired_pair_def isOpen_def by (simp add: f talks_def V)
  show "zs_groups (zw_socks w zevr) = [GROUP_EVENTS]" by (simp add: f V)
qed

lemma returns_worker_undo:
  assumes "zlib_ok lib" and "poll_inv (cx_world c)" and "\<forall>t. isOpen (cx_world c) t \<longrightarrow> t \<in> runner_sids \<union> {zseqs, zseqr}"
  shows "returns gone (Worker_destroy lib cl (retA ()) c)"
proof -
  obtain r w where u: "Worker_unwire lib (cx_world c) = (r, w)" by fastforce
  show ?thesis
  proof (cases "is_abort r")
    case True
    then obtain m where "r = Inl (Abort m)" by (auto simp: is_abort_def split: sum.splits fault.splits)
    then show ?thesis using u by (simp add: Worker_destroy_def thenA_def bindA_def onWorld_def)
  next
    case False
    note s = close_all [OF assms(1,2) u [unfolded unwire_lists] False]
    then have "returns gone (Runner_destroy lib cl (c\<lparr>cx_world := w\<rparr>))"
      using assms(3) by (intro returns_destroy [OF assms(1)]) auto
    then show ?thesis using u s by (simp add: Worker_destroy_def thenA_def bindA_def retA_def onWorld_def)
  qed
qed

lemma Worker_construct_spec:
  assumes lib: "zlib_ok lib" and fresh: "fresh_context c"
  shows "returns worker_wired (Worker_construct lib cl evs c)"
proof (cases "\<exists>c1. Runner_construct lib cl evs c = Some (Inr (), c1)")
  case False
  then show ?thesis using Runner_construct_spec [OF assms, of cl evs]
    by (cases "Runner_construct lib cl evs c") (auto simp: Worker_construct_def returns_def split: sum.splits fault.splits)
next
  case True
  then obtain c1 where 1: "Runner_construct lib cl evs c = Some (Inr (), c1)" by blast
  then have b: "runner_built c1" using Runner_construct_spec [OF assms, of cl evs] by simp
  let ?c = "c1\<lparr>cx_socks := [zseqs, zseqr] @ cx_socks c1\<rparr>"
  have out: "zseqs \<notin> runner_sids" "zseqr \<notin> runner_sids" by (simp_all add: runner_sids_def sid_defs)
  have inv: "poll_inv (cx_world c1)" and cl1: "\<forall>s\<in>{zseqs, zseqr}. \<not> isOpen (cx_world c1) s \<and> zs_observers (zw_socks (cx_world c1) s) = []"
    and closed: "\<And>t. t \<notin> runner_sids \<Longrightarrow> \<not> isOpen (cx_world c1) t" using b out by (auto simp: runner_built_def)
  obtain v pl where v: "sviews (cx_world c1) = runner_wire_view (runner_members_view v)" "zw_pollers (cx_world c1) = [zevpoll \<mapsto> pl]"
    "zp_sockets pl = [zevr]" "zp_obs pl" using b by (auto simp: runner_built_def)
  obtain r w where 2: "Worker_wire lib (cx_world c1) = (r, w)" by fastforce
  show ?thesis
  proof (cases "is_abort r")
    case True
    then show ?thesis using 1 2 unwind_abort by (cases r) (simp_all add: Worker_construct_def onWorld_def is_abort_def)
  next
    case False
    note s = Worker_wire_spec [OF lib inv 2 False cl1]
    have sub: "isOpen w t \<longrightarrow> t \<in> runner_sids \<union> {zseqs, zseqr}" for t
      using s closed [of t] by (auto simp: isOpen_def)
    show ?thesis
    proof (cases r)
      case (Inl f)
      have "returns gone (Worker_destroy lib cl (retA ()) (?c\<lparr>cx_world := w\<rparr>))"
        using s sub by (intro returns_worker_undo [OF lib]) simp_all
      from returns_unwind [where undo = "Worker_destroy lib cl (retA ())", OF this]
      show ?thesis using 1 2 Inl by (simp add: Worker_construct_def onWorld_def)
    next
      case (Inr u)
      have "sviews w = worker_wire_view (runner_wire_view (runner_members_view v))" using s v Inr by simp
      note wv = wired_views [OF this]
      moreover have "(zevpoll, zevr) \<in> set (zw_polled w)"
      proof -
        have "isOpen w zevr" using wv(1) by (simp add: worker_pairs_def wired_pair_def)
        then show ?thesis using s v unfolding poll_inv_def by auto
      qed
      ultimately have "worker_wired (?c\<lparr>cx_world := w\<rparr>)" using b by (simp add: worker_wired_def runner_built_def)
      then show ?thesis using 1 2 Inr by (simp add: Worker_construct_def onWorld_def)
    qed
  qed
qed

lemma Runner_construct_succeeds:
  assumes lib: "inproc_ok lib" and fresh: "fresh_context c" "zw_calls (cx_world c) = []" and ctx: "cl_new cl = None" "cl_async cl = None"
  shows "\<exists>c1 E B. Runner_construct lib cl evs c = Some (Inr (), c1) \<and> ready lib runner_sids E B (cx_world c1) \<and>
    inproc ''worker-seqn'' \<notin> B"
proof -
  have e: "empty_world (cx_world c)" using fresh(1) by (simp add: fresh_context_def)
  obtain w1 E where 1: "Runner_members lib (cx_world c) = (Inr (), w1)" "ready lib {} E {} w1"
    using members_succeed [OF lib e fresh(2)] by blast
  obtain E' B where 2: "succ (ready lib {} E {}) (Runner_wire lib evs) (ready lib runner_sids E' B)" "inproc ''worker-seqn'' \<notin> B"
    using ready_runner [OF lib] by blast
  obtain u w2 where 3: "Runner_wire lib evs w1 = (Inr u, w2)" "ready lib runner_sids E' B w2" using succD [OF 2(1) 1(2)] by blast
  show ?thesis using 1 2(2) 3 ctx by (auto simp: Runner_construct_def Context_new_def onWorld_def Let_def)
qed

section \<open>Cancellations\<close>

text \<open>The sockets of a cancellation before they are opened.\<close>

definition cancel_pre :: "string \<Rightarrow> sid \<Rightarrow> sid \<Rightarrow> zworld \<Rightarrow> zworld" where
  "cancel_pre nm t r w =
     upd_sock r (\<lambda>_. zs_setGroups [str ''deadln''] (zs_setEndpoints [inproc nm] (ZSocket_new DISH)))
       (upd_sock t (\<lambda>_. zs_setEndpoints [inproc nm] (ZSocket_new RADIO)) w)"

lemma Cancellation_wire_eq:
  assumes "t \<noteq> r"
  shows "Cancellation_wire lib nm t r w =
    guardA (seqA [zs_bind lib r, zs_connect lib t]) (seqA [zs_close lib r, zs_close lib t]) (cancel_pre nm t r w)"
  using assms by (simp add: Cancellation_wire_def cancel_pre_def seqA_def setS_def action_defs upd_sock_def
    fun_upd_twist [of t r] guardA_def split: prod.split sum.split fault.split)

lemma cancel_pre_ready:
  assumes "ready lib S E B w" and "t \<notin> S" "r \<notin> S" "t \<noteq> r"
    and "zs_observers (zw_socks w t) = []" "zs_observers (zw_socks w r) = []"
  shows "ready lib S (E(t := [inproc nm], r := [inproc nm])) B (cancel_pre nm t r w)"
proof -
  have "poll_inv w" using assms(1) by (simp add: ready_def)
  then have "poll_inv (cancel_pre nm t r w)"
    by (rule poll_inv_cong) (use assms in \<open>auto simp: cancel_pre_def setter_apply upd_sock_def ZSocket_new_def isOpen_def ready_def\<close>)
  moreover have "zw_calls (cancel_pre nm t r w) = zw_calls w" by (simp add: cancel_pre_def upd_sock_def)
  ultimately show ?thesis using assms(1-4)
    by (auto simp: ready_def cancel_pre_def upd_sock_def isOpen_def ZSocket_new_def setter_apply)
qed

lemma cancellation_succeeds:
  assumes lib: "inproc_ok lib" and w: "ready lib S E B w" and new: "t \<notin> S" "r \<notin> S" "t \<noteq> r"
    and obs: "zs_observers (zw_socks w t) = []" "zs_observers (zw_socks w r) = []" and e: "inproc nm \<notin> B"
  shows "\<exists>w' E'. Cancellation_wire lib nm t r w = (Inr (), w') \<and> ready lib (insert t (insert r S)) E' (insert (inproc nm) B) w' \<and>
    (\<forall>s. s \<noteq> t \<and> s \<noteq> r \<longrightarrow> zw_socks w' s = zw_socks w s)"
proof -
  let ?E = "E(t := [inproc nm], r := [inproc nm])" and ?f = "seqA [zs_bind lib r, zs_connect lib t]"
  note p = cancel_pre_ready [OF w new obs, of nm]
  have 1: "succ (ready lib S ?E B) (zs_bind lib r) (ready lib (insert r S) ?E (insert (inproc nm) B))"
    by (rule ready_bind [OF lib new(2) _ e]) simp
  have 2: "succ (ready lib (insert r S) ?E (insert (inproc nm) B)) (zs_connect lib t)
      (ready lib (insert t (insert r S)) ?E (insert (inproc nm) B))"
    by (rule ready_connect [OF lib, where e = "inproc nm"]) (use new in simp_all)
  obtain w' where run: "?f (cancel_pre nm t r w) = (Inr (), w')" "ready lib (insert t (insert r S)) ?E (insert (inproc nm) B) w'"
    using succD [OF succ_seq [OF 1 succ_seq [OF 2 succ_nil]] p] by auto
  note wr = wires_seq [OF wires_open [OF inproc_okD(1) [OF lib] act_ok_code(2), of r]
      wires_seq [OF wires_open [OF inproc_okD(1) [OF lib] act_ok_code(1), of t] wires_nil]]
  have "zw_socks w' s = zw_socks w s" if "s \<noteq> t \<and> s \<noteq> r" for s
    using wiresD(3) [OF wr _ run(1) [unfolded zs_bind_def zs_connect_def], of s] p that
    by (simp add: ready_def is_abort_def cancel_pre_def upd_sock_def)
  then show ?thesis using run by (auto simp: Cancellation_wire_eq [OF new(3)] guardA_def)
qed

text \<open>An endpoint that is bound stays so while another socket tries to bind it.\<close>

lemma bind_loop_bound:
  "bind_loop lib s endp tmo start w = Some y \<Longrightarrow> inproc_ok lib \<and> bound lib (zw_calls w) endp \<longrightarrow> fst y = ZErr EADDRINUSE"
proof (erule bind_loop.raw_induct [rotated])
  fix f and lib :: zlib and s endp tmo start w y
  assume IH: "\<And>lib s endp tmo start w y. f lib s endp tmo start w = Some y \<Longrightarrow>
      inproc_ok lib \<and> bound lib (zw_calls w) endp \<longrightarrow> fst y = ZErr EADDRINUSE"
    and f: "(let a = zl_answer lib (zw_calls w) (CBind s endp); w' = w\<lparr>zw_calls := zw_calls w @ [CBind s endp]\<rparr>
      in if a \<noteq> ZErr EADDRINUSE \<or> tmo < 0 then Some (a, w')
         else if 0 < tmo \<and> tmo \<le> zl_clock lib (zw_calls w') - start then Some (a, w')
         else f lib s endp tmo start w') = Some y"
  let ?w = "w\<lparr>zw_calls := zw_calls w @ [CBind s endp]\<rparr>"
  show "inproc_ok lib \<and> bound lib (zw_calls w) endp \<longrightarrow> fst y = ZErr EADDRINUSE"
  proof
    assume ok: "inproc_ok lib \<and> bound lib (zw_calls w) endp"
    then have "zl_answer lib (zw_calls w) (CBind s endp) = ZErr EADDRINUSE" using inproc_okD(6) by blast
    moreover have "bound lib (zw_calls ?w) endp" using ok by (simp add: bound_snoc)
    ultimately show "fst y = ZErr EADDRINUSE"
      using f IH [of lib s endp tmo start ?w y] ok by (auto simp: Let_def split: if_splits)
  qed
qed

lemma bindTo_bound:
  assumes "inproc_ok lib" and "clock_ok lib" and "bound lib (zw_calls w) endp"
  shows "\<exists>w'. zs_bindTo lib 5000 s endp w = (Inl (Throw ZMQSocketBindFailed ''could not bind socket'' 0), w')"
proof -
  obtain a w' where "bind_loop lib s endp 5000 (zl_clock lib (zw_calls w)) w = Some (a, w')"
    using bind_loop_within [OF assms(2), of 5000 w "zl_clock lib (zw_calls w)" 499 s endp] by auto
  moreover from bind_loop_bound [OF this] have "a = ZErr EADDRINUSE" using assms(1,3) by simp
  ultimately show ?thesis by (simp add: zs_bindTo_def)
qed

lemma bind_bound:
  assumes lib: "inproc_ok lib" "clock_ok lib" and w: "\<not> isOpen w s" "zs_observers (zw_socks w s) = []"
    and e: "zs_endpoints (zw_socks w s) = [endp]" "bound lib (zw_calls w) endp"
  shows "\<exists>w'. zs_bind lib s w = (Inl (Throw ZMQSocketBindFailed ''could not bind socket'' 0), w') \<and>
    (\<forall>t. isOpen w' t = isOpen w t)"
proof -
  let ?c = "CSocket s (zs_type (zw_socks w s))" and ?B = "{e. bound lib (zw_calls w) e}"
  define w1 where "w1 = upd_sock s (\<lambda>k. k\<lparr>zs_ptr := True\<rparr>) (w\<lparr>zw_calls := zw_calls w @ [?c]\<rparr>)"
  have p: "plain_call ?c" by (simp add: plain_call_def)
  then obtain v where v: "zl_answer lib (zw_calls w) ?c = ZOk v" using inproc_okD(2) [OF lib(1)] by blast
  have m: "mid lib (zw_socks w1) (zw_pollers w) ?B s w1"
    using bound_plain [OF p] unfolding mid_def
    by (auto simp: w1_def upd_sock_def intro!: exI [of _ "zs_openEndpoints (zw_socks w s)"])
  obtain u w2 where 2: "zs_configure lib s w1 = (Inr u, w2)" "mid lib (zw_socks w1) (zw_pollers w) ?B s w2"
    using succD [OF mid_configure [OF lib(1)] m] by blast
  have k: "zs_endpoints (zw_socks w2 s) = [endp]" "bound lib (zw_calls w2) endp"
    using 2(2) e by (auto simp: mid_def w1_def upd_sock_def)
  obtain w3 where 3: "zs_bindTo lib 5000 s endp w2 = (Inl (Throw ZMQSocketBindFailed ''could not bind socket'' 0), w3)"
    using bindTo_bound [OF lib k(2)] by blast
  have "lib_step w2 w3" using frame_bindTo [of lib 5000 s endp, unfolded frameA_def, rule_format, of w2] 3 by simp
  then have s3: "zw_socks w3 = zw_socks w2" by (simp add: lib_step_def)
  have open3: "isOpen w3 t \<longleftrightarrow> t = s \<or> isOpen w t" and o3: "zs_observers (zw_socks w3 s) = []" for t
    using 2(2) w by (auto simp: mid_def s3 isOpen_def w1_def upd_sock_def split: if_splits)
  obtain w4 where 4: "zs_close lib s w3 = (Inr (), w4)" "isOpen w4 t \<longleftrightarrow> t \<noteq> s \<and> isOpen w3 t" for t
    using inproc_okD(3) [OF lib(1), of "zw_calls w3" s] open3 [of s] o3
    by (auto simp: zs_close_def action_defs zcallA_def upd_sock_def isOpen_def)
  have "open_body lib (zs_bindTo lib 5000) s w1 = (Inl (Throw ZMQSocketBindFailed ''could not bind socket'' 0), w3)"
    using 2(1) 3 k(1) by (simp add: open_body_def zs_attach_def thenA_def bindA_def)
  moreover have "zs_bind lib s w = guardA (open_body lib (zs_bindTo lib 5000) s) (zs_close lib s) w1"
    using w(1) v by (simp add: zs_bind_def zs_open_def open_body_def action_defs zcallA_def w1_def)
  ultimately have "zs_bind lib s w = (Inl (Throw ZMQSocketBindFailed ''could not bind socket'' 0), w4)"
    using 4(1) by (simp add: guardA_def)
  then show ?thesis using 4(2) open3 w(1) by auto
qed

text \<open>While a cancellation is there, the constructor of another one of its name throws and leaves its sockets closed.\<close>

lemma cancellation_twice:
  assumes "inproc_ok lib" and "clock_ok lib" and "poll_inv w"
    and "distinct [t, r, t', r']" and "\<forall>s\<in>{t, r, t', r'}. \<not> isOpen w s \<and> zs_observers (zw_socks w s) = []"
    and "\<not> bound lib (zw_calls w) (inproc nm)"
  shows "\<exists>w1 w2. Cancellation_wire lib nm t r w = (Inr (), w1) \<and>
    Cancellation_wire lib nm t' r' w1 =
      (Inl (Throw ZMQSocketBindFailed ''could not bind socket'' 0), w2) \<and>
    isOpen w1 t \<and> isOpen w1 r \<and> (\<forall>s. isOpen w2 s = isOpen w1 s) \<and> \<not> isOpen w2 t' \<and> \<not> isOpen w2 r'"
proof -
  let ?nm = nm and ?S = "{s. isOpen w s}"
  have "ready lib ?S (\<lambda>s. zs_endpoints (zw_socks w s)) {e. bound lib (zw_calls w) e} w" using assms(3) by (simp add: ready_def)
  from cancellation_succeeds [OF assms(1) this, of t r ?nm] obtain w1 E where
    1: "Cancellation_wire lib ?nm t r w = (Inr (), w1)"
      "ready lib (insert t (insert r ?S)) E (insert (inproc ?nm) {e. bound lib (zw_calls w) e}) w1"
    and k: "\<And>s. s \<noteq> t \<and> s \<noteq> r \<Longrightarrow> zw_socks w1 s = zw_socks w s" using assms(4-6) by auto
  have op1: "isOpen w1 s \<longleftrightarrow> s = t \<or> s = r \<or> isOpen w s" for s using 1(2) by (simp add: ready_def)
  have b: "bound lib (zw_calls w1) (inproc ?nm)" using 1(2) by (auto simp: ready_def)
  let ?v = "cancel_pre ?nm t' r' w1"
  have ne: "t' \<noteq> r'" "t' \<noteq> t" "t' \<noteq> r" "r' \<noteq> t" "r' \<noteq> r" using assms(4) by auto
  have v: "zw_calls ?v = zw_calls w1" "zs_endpoints (zw_socks ?v r') = [inproc ?nm]" "zs_observers (zw_socks ?v r') = []"
    by (simp_all add: cancel_pre_def upd_sock_def setter_apply ZSocket_new_def)
  have opv: "isOpen ?v s = isOpen w1 s" for s
    using assms(5) ne op1 [of t'] op1 [of r'] by (auto simp: cancel_pre_def upd_sock_def setter_apply ZSocket_new_def isOpen_def)
  have cl: "\<not> isOpen w1 t'" "\<not> isOpen w1 r'" using assms(5) ne op1 by auto
  obtain w2 where 2: "zs_bind lib r' ?v = (Inl (Throw ZMQSocketBindFailed ''could not bind socket'' 0), w2)"
      "\<And>s. isOpen w2 s = isOpen w1 s"
    using bind_bound [OF assms(1,2), of ?v r' "inproc ?nm"] v opv cl(2) b by auto
  have "Cancellation_wire lib ?nm t' r' w1 = (Inl (Throw ZMQSocketBindFailed ''could not bind socket'' 0), w2)"
    using 2 cl unfolding Cancellation_wire_eq [OF ne(1)]
    by (simp add: guardA_def seqA_def thenA_def bindA_def retA_def zs_close_def)
  then show ?thesis using 1(1) 2(2) op1 cl by blast
qed

section \<open>A library\<close>

text \<open>A library that keeps the endpoints bound, each with its socket.\<close>

fun bind_step :: "(sid \<times> bytes) list \<Rightarrow> zcall \<Rightarrow> (sid \<times> bytes) list" where
  "bind_step bs (CBind s e) = (if e \<in> snd ` set bs then bs else (s, e) # bs)"
| "bind_step bs (CClose s) = filter (\<lambda>x. fst x \<noteq> s) bs"
| "bind_step bs _ = bs"

definition binds :: "zcall list \<Rightarrow> (sid \<times> bytes) list" where
  "binds calls = foldl bind_step [] calls"

definition inproc_lib :: zlib where
  "inproc_lib =
     \<lparr>zl_answer = (\<lambda>calls c. case c of
          CBind s e \<Rightarrow> if e \<in> snd ` set (binds calls) then ZErr EADDRINUSE else ZOk []
        | CConnect s e \<Rightarrow> if e \<in> snd ` set (binds calls) then ZOk [] else ZErr 111
        | _ \<Rightarrow> ZOk []),
      zl_remove = (\<lambda>calls there. if there then ZOk [] else ZErr EINVAL),
      zl_clock = (\<lambda>calls. 10 * int (length calls)), zl_long = 9223372036854775807\<rparr>"

lemma binds_snoc: "binds (calls @ [c]) = bind_step (binds calls) c"
  by (simp add: binds_def)

lemma binds_iff:
  "(t, e) \<in> set (binds calls) \<longleftrightarrow>
    (\<exists>pre post. calls = pre @ CBind t e # post \<and> e \<notin> snd ` set (binds pre) \<and> CClose t \<notin> set post)"
proof (induction calls rule: rev_induct)
  case Nil
  then show ?case by (simp add: binds_def)
next
  case (snoc c calls)
  have "(\<exists>pre post. calls @ [c] = pre @ CBind t e # post \<and> e \<notin> snd ` set (binds pre) \<and> CClose t \<notin> set post) \<longleftrightarrow>
      c = CBind t e \<and> e \<notin> snd ` set (binds calls) \<or> c \<noteq> CClose t \<and> (t, e) \<in> set (binds calls)" (is "?L \<longleftrightarrow> ?R")
  proof
    assume ?L
    then obtain pre post where p: "calls @ [c] = pre @ CBind t e # post" "e \<notin> snd ` set (binds pre)" "CClose t \<notin> set post" by blast
    show ?R
    proof (cases post rule: rev_cases)
      case (snoc q d)
      then have "calls = pre @ CBind t e # q" "d = c" using p(1) by simp_all
      then show ?thesis using p(2,3) snoc snoc.IH by auto
    qed (use p in auto)
  next
    assume ?R
    then show ?L
    proof
      assume "c = CBind t e \<and> e \<notin> snd ` set (binds calls)"
      then show ?L by (intro exI [of _ calls] exI [of _ "[]"]) simp
    next
      assume "c \<noteq> CClose t \<and> (t, e) \<in> set (binds calls)"
      then obtain pre post where "calls = pre @ CBind t e # post" "e \<notin> snd ` set (binds pre)" "CClose t \<notin> set (post @ [c])"
        using snoc.IH by auto
      then show ?L by (intro exI [of _ pre] exI [of _ "post @ [c]"]) simp
    qed
  qed
  moreover have "(t, e) \<in> set (binds (calls @ [c])) \<longleftrightarrow>
      c = CBind t e \<and> e \<notin> snd ` set (binds calls) \<or> c \<noteq> CClose t \<and> (t, e) \<in> set (binds calls)"
    by (cases c) (auto simp: binds_snoc)
  ultimately show ?case by blast
qed

lemma inproc_bound: "bound inproc_lib calls e \<longleftrightarrow> e \<in> snd ` set (binds calls)"
proof -
  have "e \<in> snd ` set (binds calls) \<longleftrightarrow> (\<exists>t. (t, e) \<in> set (binds calls))" by force
  then show ?thesis by (simp add: binds_iff bound_def inproc_lib_def) blast
qed

lemma inproc_lib_ok: "inproc_ok inproc_lib" "clock_ok inproc_lib"
proof -
  show "clock_ok inproc_lib" by (simp add: clock_ok_def inproc_lib_def)
  have "plain_call c \<Longrightarrow> \<exists>v. zl_answer inproc_lib calls c = ZOk v" for calls c
    by (cases c) (simp_all add: plain_call_def inproc_lib_def)
  then show "inproc_ok inproc_lib"
    unfolding inproc_ok_def inproc_bound by (simp add: zlib_ok_def inproc_lib_def EINVAL_def)
qed

definition fresh :: Context where
  "fresh = \<lparr>cx_ptr = False, cx_iowork = False, cx_socks = [],
     cx_world = \<lparr>zw_socks = (\<lambda>s. ZSocket_new PULL), zw_pollers = Map.empty, zw_calls = [], zw_polled = []\<rparr>\<rparr>"

definition ctx_lib :: ctxlib where
  "ctx_lib = \<lparr>cl_new = None, cl_async = None, cl_stop = None, cl_term = 0\<rparr>"

text \<open>A context in which one socket is open.\<close>

definition holding :: "sid \<Rightarrow> Context" where
  "holding s = fresh\<lparr>cx_ptr := True, cx_iowork := True, cx_socks := [s],
     cx_world := upd_sock s (\<lambda>k. k\<lparr>zs_ptr := True\<rparr>) (cx_world fresh)\<rparr>"

lemma fresh_ok: "fresh_context fresh"
  by (simp add: fresh_context_def fresh_def empty_world_def isOpen_def ZSocket_new_def)

lemma sample_invs: "poll_inv (cx_world (holding s))" "poll_inv (cx_world fresh)"
  by (simp_all add: poll_inv_def observed_def holding_def fresh_def upd_sock_def ZSocket_new_def)

lemmas holding_eval = Worker_destroy_def Runner_destroy_def Worker_unwire_def Runner_unwire_def seqA_def onWorld_def action_defs zs_close_def holding_def
  fresh_def upd_sock_def isOpen_def ZSocket_new_def zcallA_def Poller_delete_def Context_delete_def IOWork_stop_def
  Context_terminate_def ASSERT_def ctx_lib_def inproc_lib_def sid_defs

section \<open>Properties\<close>



text \<open>C17: On a library that answers as documented, with memory and threads, the constructor of a worker succeeds: every
  socket that connects does so after its partner was bound.\<close>

theorem worker_construct_succeeds:
  assumes "inproc_ok lib" and "fresh_context c" and "zw_calls (cx_world c) = []" and "cl_new cl = None" and "cl_async cl = None"
  shows "\<exists>c'. Worker_construct lib cl evs c = Some (Inr (), c') \<and> worker_wired c'"
proof -
  obtain c1 E B where 1: "Runner_construct lib cl evs c = Some (Inr (), c1)" "ready lib runner_sids E B (cx_world c1)"
    "inproc ''worker-seqn'' \<notin> B" using Runner_construct_succeeds [OF assms] by blast
  have "runner_built c1" using Runner_construct_spec [OF inproc_okD(1) [OF assms(1)] assms(2), of cl evs] 1(1) by simp
  then have "\<forall>s\<in>{zseqs, zseqr}. zs_observers (zw_socks (cx_world c1) s) = []"
    by (simp add: runner_built_def runner_sids_def sid_defs)
  then obtain w where "Worker_wire lib (cx_world c1) = (Inr (), w)"
    using worker_wire_succeeds [OF assms(1) 1(2,3)] by blast
  then obtain c' where c': "Worker_construct lib cl evs c = Some (Inr (), c')"
    using 1(1) by (simp add: Worker_construct_def onWorld_def)
  then show ?thesis using Worker_construct_spec [OF inproc_okD(1) [OF assms(1)] assms(2), of cl evs] by simp
qed

theorem worker_construct_succeeds_witness:
  "\<exists>c'. Worker_construct inproc_lib ctx_lib [] fresh = Some (Inr (), c') \<and> worker_wired c'"
  by (rule worker_construct_succeeds [OF inproc_lib_ok(1) fresh_ok]) (simp_all add: fresh_def ctx_lib_def)



text \<open>The destructor of a running worker tells the session to stop too late. When it does, the socket the session sends its
  sequence numbers to is closed and deleted already, as it is a member of the derived class: a session that sends
  a number before it reads the stop gets the error that the notification makes a fatal one.\<close>

theorem worker_stops_late:
  assumes "zlib_ok lib" and "poll_inv (cx_world c)" and "onWorld (Worker_unwire lib) c = (r, d)" and "\<not> is_abort r"
  shows "Worker_destroy lib cl stopping c =
      (case stopping d of (Inl e, c') \<Rightarrow> Some (Inl e, c') | (Inr _, c') \<Rightarrow> Runner_destroy lib cl c') \<and>
    \<not> isOpen (cx_world d) zseqs \<and> isOpen (cx_world d) zops = isOpen (cx_world c) zops \<and>
    sendMessagePart net ChSeqs (isOpen (cx_world d) zseqs) p i =
      (Inl (Throw ZMQSocketSendFailed ''could not send message part'' ENOTSOCK), i)"
proof -
  obtain w where w: "Worker_unwire lib (cx_world c) = (r, w)" "d = c\<lparr>cx_world := w\<rparr>"
    using assms(3) by (auto simp: onWorld_def split: prod.splits)
  note s = close_all [OF assms(1,2) w(1) [unfolded unwire_lists] assms(4)]
  have "zops \<notin> {zseqr, zseqs}" by (simp add: sid_defs)
  then show ?thesis using assms(3) s w(2) by (auto simp: Worker_destroy_def thenA_def bindA_def sendMessagePart_def)
qed

theorem worker_stops_late_witness:
  "\<exists>r d. onWorld (Worker_unwire inproc_lib) (holding zseqs) = (r, d) \<and> isOpen (cx_world (holding zseqs)) zseqs \<and>
    sendMessagePart \<lparr>nt_send = (\<lambda>_. Sent), nt_open = (\<lambda>_. None)\<rparr> ChSeqs (isOpen (cx_world d) zseqs) zmq_msg_init io_init =
      (Inl (Throw ZMQSocketSendFailed ''could not send message part'' ENOTSOCK), io_init)"
proof -
  obtain r d where run: "onWorld (Worker_unwire inproc_lib) (holding zseqs) = (r, d)" by fastforce
  then have "\<not> is_abort r" by (auto simp: holding_eval is_abort_def)
  from worker_stops_late [OF inproc_okD(1) [OF inproc_lib_ok(1)] sample_invs(1) run this] run show ?thesis
    by (intro exI conjI) (assumption, simp add: holding_def upd_sock_def isOpen_def, blast)
qed

end
