(* ===== verification/Fuurin_Lrucache.thy ===== *)
theory Fuurin_Lrucache
  imports Fuurin_Prelude
begin

text \<open>
  The cache of \<^verbatim>\<open>include/fuurin/lrucache.h\<close>: a doubly linked list of items ordered from the least
  to the most recently put, and a hash map from keys to iterators into that list. A list node is
  modelled with the identity its iterators carry, so that the map really holds iterators; the
  counter of node identities stands for the allocator. The interface that the sessions rely on is
  the locale \<open>bounded_map\<close>; the abstract cache is a plain association list.
\<close>

section \<open>The cache\<close>

type_synonym iter = nat

record ('k, 'v) LRUCache =
  lru_capacity :: nat
  lru_nodes :: "(iter \<times> 'k \<times> 'v) list"
  lru_map :: "('k \<times> iter) list"
  lru_fresh :: iter

definition LRUCache_new :: "nat \<Rightarrow> ('k, 'v) LRUCache" where
  "LRUCache_new sz = \<lparr>lru_capacity = sz, lru_nodes = [], lru_map = [], lru_fresh = 0\<rparr>"

definition lru_size :: "('k, 'v) LRUCache \<Rightarrow> nat" where
  "lru_size c = length (lru_nodes c)"

definition lru_empty :: "('k, 'v) LRUCache \<Rightarrow> bool" where
  "lru_empty c = (lru_size c = 0)"

definition lru_clear :: "('k, 'v) LRUCache \<Rightarrow> ('k, 'v) LRUCache" where
  "lru_clear c = c\<lparr>lru_nodes := [], lru_map := []\<rparr>"

text \<open>\<^verbatim>\<open>std::list::erase\<close> through an iterator.\<close>

definition list_erase :: "iter \<Rightarrow> (iter \<times> 'k \<times> 'v) list \<Rightarrow> (iter \<times> 'k \<times> 'v) list" where
  "list_erase it l = filter (\<lambda>n. fst n \<noteq> it) l"

text \<open>
  The first half of \<^verbatim>\<open>put\<close>: make room, or drop the node of the key being replaced. The case of an
  empty list would be undefined behaviour in the source (\<^verbatim>\<open>front()\<close> of an empty list); it is not
  reached under the invariant, see \<open>lru_room_front\<close>.
\<close>

definition lru_room :: "'k \<Rightarrow> ('k, 'v) LRUCache \<Rightarrow> ('k, 'v) LRUCache" where
  "lru_room k c =
     (case map_of (lru_map c) k of
        None \<Rightarrow>
          if lru_capacity c > 0 \<and> length (lru_map c) \<ge> lru_capacity c
          then (case lru_nodes c of
                  [] \<Rightarrow> c
                | (_, k', _) # l \<Rightarrow> c\<lparr>lru_map := AList.delete k' (lru_map c), lru_nodes := l\<rparr>)
          else c
      | Some it \<Rightarrow> c\<lparr>lru_nodes := list_erase it (lru_nodes c)\<rparr>)"

definition lru_put :: "'k \<Rightarrow> 'v \<Rightarrow> ('k, 'v) LRUCache \<Rightarrow> iter \<times> ('k, 'v) LRUCache" where
  "lru_put k v c =
     (let c1 = lru_room k c; it = lru_fresh c1
      in (it, c1\<lparr>lru_nodes := lru_nodes c1 @ [(it, k, v)], lru_map := AList.update k it (lru_map c1),
               lru_fresh := Suc it\<rparr>))"

text \<open>Dereferencing an iterator; \<^verbatim>\<open>None\<close> for one that is not in the list.\<close>

definition lru_deref :: "('k, 'v) LRUCache \<Rightarrow> iter \<Rightarrow> ('k \<times> 'v) option" where
  "lru_deref c it = map_of (lru_nodes c) it"

definition lru_get :: "'k \<Rightarrow> ('k, 'v) LRUCache \<Rightarrow> ('k \<times> 'v) option \<times> ('k, 'v) LRUCache" where
  "lru_get k c =
     (case map_of (lru_map c) k of
        None \<Rightarrow> (None, c)
      | Some it \<Rightarrow> (lru_deref c it,
          c\<lparr>lru_map := AList.delete k (lru_map c), lru_nodes := list_erase it (lru_nodes c)\<rparr>))"

text \<open>\<^verbatim>\<open>find\<close>: \<^verbatim>\<open>None\<close> is \<^verbatim>\<open>list_.end()\<close>.\<close>

definition lru_find :: "'k \<Rightarrow> ('k, 'v) LRUCache \<Rightarrow> iter option" where
  "lru_find k c = map_of (lru_map c) k"

definition lru_list :: "('k, 'v) LRUCache \<Rightarrow> ('k \<times> 'v) list" where
  "lru_list c = map snd (lru_nodes c)"

definition lru_eq :: "('k, 'v) LRUCache \<Rightarrow> ('k, 'v) LRUCache \<Rightarrow> bool" where
  "lru_eq a b = (lru_list a = lru_list b)"

text \<open>The constructor from an initializer list: capacity equal to its length, then one put each.\<close>

definition LRUCache_init :: "('k \<times> 'v) list \<Rightarrow> ('k, 'v) LRUCache" where
  "LRUCache_init l = foldl (\<lambda>c (k, v). snd (lru_put k v c)) (LRUCache_new (length l)) l"

text \<open>Assignment through an iterator, \<^verbatim>\<open>it->second = f(it->second)\<close>.\<close>

definition lru_modify :: "iter \<Rightarrow> ('v \<Rightarrow> 'v) \<Rightarrow> ('k, 'v) LRUCache \<Rightarrow> ('k, 'v) LRUCache" where
  "lru_modify it f c =
     c\<lparr>lru_nodes := map (\<lambda>(i, k, v). if i = it then (i, k, f v) else (i, k, v)) (lru_nodes c)\<rparr>"

text \<open>The value stored under a key: \<^verbatim>\<open>find(k)->second\<close>.\<close>

definition lru_lookup :: "('k, 'v) LRUCache \<Rightarrow> 'k \<Rightarrow> 'v option" where
  "lru_lookup c k = (case lru_find k c of None \<Rightarrow> None | Some it \<Rightarrow> map_option snd (lru_deref c it))"

section \<open>Invariant\<close>

text \<open>
  Node identities and keys are unique, the map's iterators are exactly the list's nodes, identities
  are below the allocator's counter, and a limited cache is never above its capacity.
\<close>

definition lru_keys :: "('k, 'v) LRUCache \<Rightarrow> 'k list" where
  "lru_keys c = map (fst \<circ> snd) (lru_nodes c)"

definition lru_inv :: "('k, 'v) LRUCache \<Rightarrow> bool" where
  "lru_inv c \<longleftrightarrow>
     distinct (map fst (lru_nodes c)) \<and> distinct (lru_keys c) \<and> distinct (map fst (lru_map c)) \<and>
     (\<forall>k i. map_of (lru_map c) k = Some i \<longleftrightarrow> (\<exists>v. (i, k, v) \<in> set (lru_nodes c))) \<and>
     (\<forall>n\<in>set (lru_nodes c). fst n < lru_fresh c) \<and>
     (0 < lru_capacity c \<longrightarrow> length (lru_nodes c) \<le> lru_capacity c)"

text \<open>The abstract cache: an association list in order of use.\<close>

definition acache_put :: "nat \<Rightarrow> 'k \<Rightarrow> 'v \<Rightarrow> ('k \<times> 'v) list \<Rightarrow> ('k \<times> 'v) list" where
  "acache_put cap k v xs =
     (if k \<in> fst ` set xs then filter (\<lambda>p. fst p \<noteq> k) xs
      else if 0 < cap \<and> cap \<le> length xs then tl xs else xs) @ [(k, v)]"

definition acache_get :: "'k \<Rightarrow> ('k \<times> 'v) list \<Rightarrow> ('k \<times> 'v) list" where
  "acache_get k xs = filter (\<lambda>p. fst p \<noteq> k) xs"

section \<open>Lemmas\<close>

lemma lru_invD:
  assumes "lru_inv c"
  shows "distinct (map fst (lru_nodes c))" and "distinct (lru_keys c)"
    and "distinct (map fst (lru_map c))"
    and "\<And>k i. map_of (lru_map c) k = Some i \<longleftrightarrow> (\<exists>v. (i, k, v) \<in> set (lru_nodes c))"
    and "\<And>n. n \<in> set (lru_nodes c) \<Longrightarrow> fst n < lru_fresh c"
    and "0 < lru_capacity c \<Longrightarrow> length (lru_nodes c) \<le> lru_capacity c"
  using assms by (auto simp: lru_inv_def)

lemma set_lru_keys: "set (lru_keys c) = {k. \<exists>i v. (i, k, v) \<in> set (lru_nodes c)}"
  by (force simp: lru_keys_def)

lemma lru_keys_dom: "lru_inv c \<Longrightarrow> set (lru_keys c) = dom (map_of (lru_map c))"
  by (auto simp: set_lru_keys dom_def lru_invD(4))

lemma lru_map_length:
  assumes "lru_inv c"
  shows "length (lru_map c) = length (lru_nodes c)"
proof -
  have "set (map fst (lru_map c)) = set (lru_keys c)"
    by (simp add: lru_keys_dom [OF assms] dom_map_of_conv_image_fst)
  then have "length (map fst (lru_map c)) = length (lru_keys c)"
    using lru_invD(2,3) [OF assms] by (metis distinct_card)
  then show ?thesis by (simp add: lru_keys_def)
qed

text \<open>The list is not empty where \<^verbatim>\<open>put\<close> reads its front.\<close>

lemma lru_room_front:
  assumes "lru_inv c" and "0 < lru_capacity c" and "lru_capacity c \<le> length (lru_map c)"
  shows "lru_nodes c \<noteq> []"
  using assms lru_map_length [OF assms(1)] by auto

lemma lru_node_unique:
  assumes "lru_inv c" and "(i, k, v) \<in> set (lru_nodes c)" and "(j, k, w) \<in> set (lru_nodes c)"
  shows "i = j \<and> v = w"
proof -
  have "i = j"
    using assms lru_invD(4) [OF assms(1), of k] by (metis option.inject)
  with assms lru_invD(1) [OF assms(1)] show ?thesis
    by (metis Pair_inject eq_key_imp_eq_value)
qed

lemma lru_erase_key:
  assumes inv: "lru_inv c" and "map_of (lru_map c) k = Some it"
  shows "list_erase it (lru_nodes c) = filter (\<lambda>n. fst (snd n) \<noteq> k) (lru_nodes c)"
proof -
  obtain v where v: "(it, k, v) \<in> set (lru_nodes c)"
    using assms by (auto simp: lru_invD(4))
  have "fst n \<noteq> it \<longleftrightarrow> fst (snd n) \<noteq> k" if "n \<in> set (lru_nodes c)" for n
  proof -
    obtain i k' v' where n: "n = (i, k', v')" by (cases n) auto
    show ?thesis
    proof
      assume "fst n \<noteq> it"
      then show "fst (snd n) \<noteq> k" using lru_node_unique [OF inv v] that n by auto
    next
      assume "fst (snd n) \<noteq> k"
      then show "fst n \<noteq> it"
        using eq_key_imp_eq_value [OF lru_invD(1) [OF inv] v] that n by auto
    qed
  qed
  then show ?thesis by (simp add: list_erase_def cong: filter_cong)
qed

text \<open>What \<open>lru_room\<close> leaves: the node list without the key, with room for one more.\<close>

definition lru_roomy :: "'k \<Rightarrow> ('k, 'v) LRUCache \<Rightarrow> bool" where
  "lru_roomy k c \<longleftrightarrow>
     distinct (map fst (lru_nodes c)) \<and> distinct (lru_keys c) \<and> distinct (map fst (lru_map c)) \<and>
     k \<notin> set (lru_keys c) \<and>
     (\<forall>k' i. k' \<noteq> k \<longrightarrow>
        (map_of (lru_map c) k' = Some i \<longleftrightarrow> (\<exists>v. (i, k', v) \<in> set (lru_nodes c)))) \<and>
     (\<forall>n\<in>set (lru_nodes c). fst n < lru_fresh c) \<and>
     (0 < lru_capacity c \<longrightarrow> length (lru_nodes c) < lru_capacity c)"

lemma lru_roomy_put:
  assumes "lru_roomy k c"
  shows "lru_inv (c\<lparr>lru_nodes := lru_nodes c @ [(lru_fresh c, k, v)],
                  lru_map := AList.update k (lru_fresh c) (lru_map c),
                  lru_fresh := Suc (lru_fresh c)\<rparr>)"
proof -
  have "\<And>i v. (i, k, v) \<notin> set (lru_nodes c)"
    using assms by (auto simp: lru_roomy_def set_lru_keys)
  then show ?thesis
    using assms
    by (auto simp: lru_roomy_def lru_inv_def lru_keys_def update_conv' distinct_update)
qed

lemma lru_roomy_erase:
  assumes inv: "lru_inv c" and key: "map_of (lru_map c) k = Some it"
  shows "lru_roomy k (c\<lparr>lru_nodes := list_erase it (lru_nodes c)\<rparr>)"
proof -
  obtain v where v: "(it, k, v) \<in> set (lru_nodes c)"
    using assms by (auto simp: lru_invD(4))
  then have "length (list_erase it (lru_nodes c)) = length (lru_nodes c) - 1"
    unfolding list_erase_def
    by (intro length_filter_remove1_key lru_invD(1) [OF inv]) (auto intro: rev_image_eqI)
  moreover have "0 < length (lru_nodes c)" using v by auto
  ultimately have "0 < lru_capacity c \<longrightarrow> length (list_erase it (lru_nodes c)) < lru_capacity c"
    using lru_invD(6) [OF inv] by auto
  with lru_invD [OF inv] show ?thesis
    by (auto simp: lru_roomy_def lru_keys_def lru_erase_key [OF inv key] distinct_map_filter
        simp del: map_map)
qed

lemma lru_roomy_evict:
  assumes inv: "lru_inv c" and nodes: "lru_nodes c = (i, k', v') # l"
    and new: "map_of (lru_map c) k = None"
  shows "lru_roomy k (c\<lparr>lru_map := AList.delete k' (lru_map c), lru_nodes := l\<rparr>)"
proof -
  have "k \<notin> set (lru_keys c)" using new by (simp add: lru_keys_dom [OF inv] domIff)
  moreover have "\<And>j w. (j, k', w) \<notin> set l"
    using lru_invD(2) [OF inv] nodes by (force simp: lru_keys_def)
  ultimately show ?thesis
    using lru_invD [OF inv] nodes
    by (auto simp: lru_roomy_def lru_keys_def delete_conv' distinct_delete)
qed

lemma lru_roomy_room:
  assumes inv: "lru_inv c"
  shows "lru_roomy k (lru_room k c)"
proof (cases "map_of (lru_map c) k")
  case (Some it)
  then show ?thesis by (simp add: lru_room_def lru_roomy_erase [OF inv])
next
  case None
  show ?thesis
  proof (cases "0 < lru_capacity c \<and> lru_capacity c \<le> length (lru_map c)")
    case True
    then obtain i k' v' l where "lru_nodes c = (i, k', v') # l"
      using lru_room_front [OF inv] by (metis list.exhaust prod_cases3)
    with True None show ?thesis by (simp add: lru_room_def lru_roomy_evict [OF inv])
  next
    case False
    have "k \<notin> set (lru_keys c)" using None by (simp add: lru_keys_dom [OF inv] domIff)
    with False None lru_invD [OF inv] show ?thesis
      by (auto simp: lru_room_def lru_roomy_def lru_map_length [OF inv])
  qed
qed

subsection \<open>Every operation keeps the invariant\<close>

lemma lru_inv_new [simp, intro]: "lru_inv (LRUCache_new n)"
  by (simp add: lru_inv_def LRUCache_new_def lru_keys_def)

lemma lru_inv_put [intro]: "lru_inv c \<Longrightarrow> lru_inv (snd (lru_put k v c))"
  using lru_roomy_put [OF lru_roomy_room] by (simp add: lru_put_def Let_def)

lemma lru_inv_clear [intro]: "lru_inv c \<Longrightarrow> lru_inv (lru_clear c)"
  by (simp add: lru_inv_def lru_clear_def lru_keys_def)

lemma lru_inv_get [intro]:
  assumes inv: "lru_inv c"
  shows "lru_inv (snd (lru_get k c))"
proof (cases "map_of (lru_map c) k")
  case None
  then show ?thesis by (simp add: lru_get_def inv)
next
  case (Some it)
  have "\<And>i v. (i, k, v) \<notin> set (list_erase it (lru_nodes c))"
    using lru_roomy_erase [OF inv Some] by (auto simp: lru_roomy_def set_lru_keys)
  then show ?thesis
    using lru_roomy_erase [OF inv Some]
    by (auto simp: lru_get_def Some lru_roomy_def lru_inv_def delete_conv' distinct_delete
        set_lru_keys lru_keys_def split: if_splits)
qed

lemma lru_modify_simps [simp]:
  "map fst (lru_nodes (lru_modify it f c)) = map fst (lru_nodes c)"
  "lru_keys (lru_modify it f c) = lru_keys c"
  "lru_map (lru_modify it f c) = lru_map c"
  "lru_fresh (lru_modify it f c) = lru_fresh c"
  "lru_capacity (lru_modify it f c) = lru_capacity c"
  by (auto simp: lru_modify_def lru_keys_def split: prod.splits)

lemma lru_modify_nodes:
  "(\<exists>v. (i, k, v) \<in> set (lru_nodes (lru_modify it f c))) \<longleftrightarrow> (\<exists>v. (i, k, v) \<in> set (lru_nodes c))"
proof -
  have "(\<exists>v. (i, k, v) \<in> set xs) \<longleftrightarrow> (i, k) \<in> (\<lambda>(i, k, v). (i, k)) ` set xs"
    for xs :: "(iter \<times> 'b \<times> 'a) list" by force
  moreover have "(\<lambda>(i, k, v). (i, k)) ` set (lru_nodes (lru_modify it f c))
      = (\<lambda>(i, k, v). (i, k)) ` set (lru_nodes c)"
    by (auto simp: lru_modify_def image_image intro!: image_cong split: prod.splits)
  ultimately show ?thesis by simp
qed

lemma lru_inv_modify [intro]:
  assumes inv: "lru_inv c"
  shows "lru_inv (lru_modify it f c)"
proof -
  have "fst n < lru_fresh c" if "n \<in> set (lru_nodes (lru_modify it f c))" for n
    using that lru_invD(5) [OF inv] by (auto simp: lru_modify_def split: if_splits)
  moreover have "length (lru_nodes (lru_modify it f c)) = length (lru_nodes c)"
    by (simp add: lru_modify_def)
  ultimately show ?thesis
    using lru_invD(5) [OF inv] lru_invD(1,2,3,4,6) [OF inv]
    by (auto simp: lru_inv_def lru_modify_nodes)
qed

subsection \<open>The cache refines the abstract one\<close>

lemma lru_list_new [simp]: "lru_list (LRUCache_new n) = []" "lru_capacity (LRUCache_new n) = n"
  by (simp_all add: lru_list_def LRUCache_new_def)

lemma lru_size_le: "lru_inv c \<Longrightarrow> lru_capacity c \<noteq> 0 \<Longrightarrow> lru_size c \<le> lru_capacity c"
  using lru_invD(6) [of c] by (simp add: lru_size_def)

lemma lru_lookup_new [simp]: "lru_lookup (LRUCache_new n) k = None"
  by (simp add: lru_lookup_def lru_find_def LRUCache_new_def)

lemma lru_list_keys: "fst ` set (lru_list c) = set (lru_keys c)"
  by (force simp: lru_list_def lru_keys_def)

lemma lru_list_room:
  assumes inv: "lru_inv c"
  shows "lru_list (lru_room k c) =
    (if k \<in> fst ` set (lru_list c) then filter (\<lambda>p. fst p \<noteq> k) (lru_list c)
     else if 0 < lru_capacity c \<and> lru_capacity c \<le> length (lru_list c) then tl (lru_list c)
     else lru_list c)"
proof (cases "map_of (lru_map c) k")
  case (Some it)
  then have "k \<in> fst ` set (lru_list c)"
    by (simp add: lru_list_keys lru_keys_dom [OF inv] domIff)
  with Some show ?thesis
    by (simp add: lru_room_def lru_list_def lru_erase_key [OF inv] filter_map comp_def)
next
  case None
  then have "k \<notin> fst ` set (lru_list c)"
    by (simp add: lru_list_keys lru_keys_dom [OF inv] domIff)
  with None show ?thesis
    by (auto simp: lru_room_def lru_list_def lru_map_length [OF inv] split: list.splits)
qed

lemma lru_list_put:
  "lru_inv c \<Longrightarrow> lru_list (snd (lru_put k v c)) = acache_put (lru_capacity c) k v (lru_list c)"
  using lru_list_room [of c k]
  by (simp add: lru_put_def Let_def acache_put_def lru_list_def)

lemma lru_capacity_put [simp]: "lru_capacity (snd (lru_put k v c)) = lru_capacity c"
  by (auto simp: lru_put_def Let_def lru_room_def split: option.splits list.splits)

lemma lru_list_get:
  assumes inv: "lru_inv c"
  shows "lru_list (snd (lru_get k c)) = acache_get k (lru_list c)"
proof (cases "map_of (lru_map c) k")
  case (Some it)
  then show ?thesis
    by (simp add: lru_get_def acache_get_def lru_list_def lru_erase_key [OF inv] filter_map comp_def)
next
  case None
  then have "k \<notin> fst ` set (lru_list c)"
    by (simp add: lru_list_keys lru_keys_dom [OF inv] domIff)
  then have "\<forall>p\<in>set (lru_list c). fst p \<noteq> k" by auto
  with None show ?thesis by (simp add: lru_get_def acache_get_def)
qed

lemma lru_distinct_list: "lru_inv c \<Longrightarrow> distinct (map fst (lru_list c))"
  using lru_invD(2) by (simp add: lru_list_def lru_keys_def)

lemma lru_deref_node:
  assumes "lru_inv c" and "(it, k, v) \<in> set (lru_nodes c)"
  shows "lru_deref c it = Some (k, v)"
  using assms lru_invD(1) [OF assms(1)] by (simp add: lru_deref_def)

lemma lru_lookup_list:
  assumes inv: "lru_inv c"
  shows "lru_lookup c k = map_of (lru_list c) k"
proof (cases "map_of (lru_map c) k")
  case None
  then have "k \<notin> fst ` set (lru_list c)"
    by (simp add: lru_list_keys lru_keys_dom [OF inv] domIff)
  then have "map_of (lru_list c) k = None" by (simp add: map_of_eq_None_iff)
  with None show ?thesis by (simp only: lru_lookup_def lru_find_def option.case)
next
  case (Some it)
  then obtain v where v: "(it, k, v) \<in> set (lru_nodes c)" using lru_invD(4) [OF inv] by auto
  then have "(k, v) \<in> set (lru_list c)" by (force simp: lru_list_def)
  then show ?thesis
    using Some v lru_deref_node [OF inv v] lru_distinct_list [OF inv]
    by (simp add: lru_lookup_def lru_find_def)
qed

subsection \<open>The abstract cache\<close>

definition acache_victim :: "nat \<Rightarrow> 'k \<Rightarrow> ('k \<times> 'v) list \<Rightarrow> 'k option" where
  "acache_victim cap k xs =
     (if k \<notin> fst ` set xs \<and> 0 < cap \<and> cap \<le> length xs then Some (fst (hd xs)) else None)"

lemma acache_put_length:
  assumes "distinct (map fst xs)"
  shows "length (acache_put cap k v xs) =
    (if k \<in> fst ` set xs \<or> acache_victim cap k xs \<noteq> None then length xs else Suc (length xs))"
proof (cases "k \<in> fst ` set xs")
  case True
  then have "length (filter (\<lambda>p. fst p \<noteq> k) xs) = length xs - 1"
    using length_filter_remove1_key [OF assms] by auto
  with True show ?thesis by (cases xs) (auto simp: acache_put_def)
next
  case False
  then show ?thesis by (cases xs) (auto simp: acache_put_def acache_victim_def)
qed

lemma map_of_acache_put:
  assumes "distinct (map fst xs)"
  shows "map_of (acache_put cap k v xs) k' =
    (if k' = k then Some v else if acache_victim cap k xs = Some k' then None else map_of xs k')"
proof (cases "k \<in> fst ` set xs")
  case True
  have "map_of (filter (\<lambda>p. fst p \<noteq> k) xs) k' = (if k' = k then None else map_of xs k')"
    by (induction xs) auto
  with True show ?thesis 
    by (simp add: acache_put_def acache_victim_def map_add_def split: option.split)
next
  case False
  then have k: "map_of xs k = None" by (simp add: map_of_eq_None_iff)
  have "map_of (tl xs) k' = (if xs \<noteq> [] \<and> k' = fst (hd xs) then None else map_of xs k')"
    using assms by (cases xs) (auto simp: map_of_eq_None_iff)
  moreover have "k' \<noteq> k \<Longrightarrow> (case m of None \<Rightarrow> [k \<mapsto> v] k' | Some x \<Rightarrow> Some x) = m" for m
    by (cases m) simp_all
  ultimately show ?thesis
    using False k by (auto simp: acache_put_def acache_victim_def map_add_def)
qed

section \<open>The interface of the sessions\<close>

text \<open>
  What a client of the cache relies on: the stored associations in order of use, and that a put
  acts on them as on the abstract cache.
\<close>

locale bounded_map =
  fixes inv :: "'c \<Rightarrow> bool" and cap :: "'c \<Rightarrow> nat" and assocs :: "'c \<Rightarrow> ('k \<times> 'v) list"
    and put :: "'k \<Rightarrow> 'v \<Rightarrow> 'c \<Rightarrow> 'c" and look :: "'c \<Rightarrow> 'k \<Rightarrow> 'v option"
  assumes put_inv: "inv c \<Longrightarrow> inv (put k v c)"
    and put_cap: "cap (put k v c) = cap c"
    and assocs_distinct: "inv c \<Longrightarrow> distinct (map fst (assocs c))"
    and look_assocs: "inv c \<Longrightarrow> look c k = map_of (assocs c) k"
    and assocs_put: "inv c \<Longrightarrow> assocs (put k v c) = acache_put (cap c) k v (assocs c)"
begin

lemma look_put:
  "inv c \<Longrightarrow> look (put k v c) k' =
     (if k' = k then Some v else if acache_victim (cap c) k (assocs c) = Some k' then None
      else look c k')"
  by (simp add: look_assocs put_inv assocs_put map_of_acache_put assocs_distinct)

lemma look_put_same: "inv c \<Longrightarrow> look (put k v c) k = Some v"
  by (simp add: look_put)

lemma look_put_present:
  "inv c \<Longrightarrow> look c k \<noteq> None \<Longrightarrow> k' \<noteq> k \<Longrightarrow> look (put k v c) k' = look c k'"
  by (auto simp: look_put acache_victim_def look_assocs map_of_eq_None_iff)

lemma last_put: "inv c \<Longrightarrow> last (assocs (put k v c)) = (k, v)"
  by (simp add: assocs_put acache_put_def)

lemma assocs_put_nonempty: "inv c \<Longrightarrow> assocs (put k v c) \<noteq> []"
  by (simp add: assocs_put acache_put_def)

lemma set_assocs_put: "inv c \<Longrightarrow> set (assocs (put k v c)) \<subseteq> insert (k, v) (set (assocs c))"
  by (auto simp: assocs_put acache_put_def dest: subsetD [OF set_tl_subset] split: if_splits)

lemma unbounded_put: "inv c \<Longrightarrow> cap c = 0 \<Longrightarrow> look (put k v c) = (look c)(k \<mapsto> v)"
  by (rule ext) (simp add: look_put acache_victim_def)

end

interpretation lru: bounded_map lru_inv lru_capacity lru_list "\<lambda>k v c. snd (lru_put k v c)" lru_lookup
  by unfold_locales
    (simp_all only: lru_inv_put lru_distinct_list lru_lookup_list lru_list_put lru_capacity_put)

lemma lru_put_iter:
  assumes inv: "lru_inv c"
  shows "lru_deref (snd (lru_put k v c)) (fst (lru_put k v c)) = Some (k, v)"
  by (rule lru_deref_node [OF lru_inv_put [OF inv]]) (simp add: lru_put_def Let_def)

lemma lru_find_put:
  assumes inv: "lru_inv c"
  shows "lru_find k (snd (lru_put k v c)) = Some (fst (lru_put k v c))"
  by (simp add: lru_find_def lru_put_def Let_def update_conv')

lemma acache_put_fresh:
  "k \<notin> fst ` set xs \<Longrightarrow> length xs < cap \<Longrightarrow> acache_put cap k v xs = xs @ [(k, v)]"
  by (simp add: acache_put_def)

lemma lru_puts_fresh:
  assumes "lru_inv c" and "distinct (map fst (lru_list c @ l))"
    and "length (lru_list c) + length l \<le> lru_capacity c"
  shows "lru_list (foldl (\<lambda>c (k, v). snd (lru_put k v c)) c l) = lru_list c @ l"
  using assms
proof (induction l arbitrary: c)
  case Nil
  then show ?case by simp
next
  case (Cons p l)
  obtain k v where p: "p = (k, v)" by (cases p)
  have "lru_list (snd (lru_put k v c)) = lru_list c @ [(k, v)]"
    using Cons.prems p by (simp add: lru_list_put acache_put_fresh)
  then show ?case
    using Cons.IH [of "snd (lru_put k v c)"] Cons.prems p by (simp add: lru_inv_put)
qed

lemma lru_find_node:
  assumes inv: "lru_inv c" and "lru_find k c = Some it"
  shows "\<exists>v. (it, k, v) \<in> set (lru_nodes c)"
  using lru_invD(4) [OF inv, of k it] assms(2) by (simp add: lru_find_def)

text \<open>Assignment through the iterator of a key changes the value of that key in place.\<close>

lemma lru_list_modify:
  assumes inv: "lru_inv c" and find: "lru_find k c = Some it"
  shows "lru_list (lru_modify it f c) =
    map (\<lambda>p. if fst p = k then (fst p, f (snd p)) else p) (lru_list c)"
proof -
  have "(i = it) \<longleftrightarrow> (k' = k)" if n: "(i, k', v) \<in> set (lru_nodes c)" for i k' v
  proof -
    obtain w where w: "(it, k, w) \<in> set (lru_nodes c)" using lru_find_node [OF inv find] by auto
    show ?thesis
      using lru_node_unique [OF inv n, of it w] eq_key_imp_eq_value [OF lru_invD(1) [OF inv] n, of "(k, w)"] w
      by auto
  qed
  then show ?thesis by (auto simp: lru_list_def lru_modify_def)
qed

lemma lru_find_None_iff: "lru_inv c \<Longrightarrow> lru_find k c = None \<longleftrightarrow> lru_lookup c k = None"
  using lru_find_node [of c k] lru_deref_node [of c] by (cases "lru_find k c") (auto simp: lru_lookup_def)

lemma lru_lookup_modify:
  assumes inv: "lru_inv c" and find: "lru_find k c = Some it"
  shows "lru_lookup (lru_modify it f c) k' =
    (if k' = k then map_option f (lru_lookup c k) else lru_lookup c k')"
proof -
  have "map_of (map (\<lambda>p. if fst p = k then (fst p, f (snd p)) else p) xs) k' =
      (if k' = k then map_option f (map_of xs k) else map_of xs k')" for xs
    by (induction xs) auto
  then show ?thesis
    by (simp add: lru_lookup_list lru_inv_modify inv lru_list_modify [OF inv find])
qed

section \<open>Properties\<close>

text \<open>Sequences of operations on the cache and on the abstract one.\<close>

datatype ('k, 'v) lru_op = OpPut 'k 'v | OpGet 'k | OpClear

fun lru_step :: "('k, 'v) LRUCache \<Rightarrow> ('k, 'v) lru_op \<Rightarrow> ('k, 'v) LRUCache" where
  "lru_step c (OpPut k v) = snd (lru_put k v c)"
| "lru_step c (OpGet k) = snd (lru_get k c)"
| "lru_step c OpClear = lru_clear c"

fun acache_step :: "nat \<Rightarrow> ('k \<times> 'v) list \<Rightarrow> ('k, 'v) lru_op \<Rightarrow> ('k \<times> 'v) list" where
  "acache_step n xs (OpPut k v) = acache_put n k v xs"
| "acache_step n xs (OpGet k) = acache_get k xs"
| "acache_step n xs OpClear = []"

lemma lru_step_refines:
  assumes inv: "lru_inv c" and cap: "lru_capacity c = n"
  shows "lru_inv (lru_step c op)" and "lru_capacity (lru_step c op) = n"
    and "lru_list (lru_step c op) = acache_step n (lru_list c) op"
proof -
  show "lru_inv (lru_step c op)" using inv by (cases op) (simp_all add: lru_inv_put lru_inv_get lru_inv_clear)
  show "lru_capacity (lru_step c op) = n"
    using cap by (cases op) (simp_all add: lru_get_def lru_clear_def split: option.split)
  show "lru_list (lru_step c op) = acache_step n (lru_list c) op"
    using inv cap by (cases op) (simp_all add: lru_list_put lru_list_get, simp add: lru_clear_def lru_list_def)
qed

text \<open>C11: The cache refines its specification. After any sequence of puts, gets and clears on a new
  cache, the list of items is what the same sequence gives on a plain association list that drops
  its first item when a new key meets the capacity, the hash map and the list agree, and a limited
  cache never holds more items than its capacity.\<close>

theorem lru_refines:
  "lru_list (foldl lru_step (LRUCache_new n) ops) = foldl (acache_step n) [] ops \<and>
   lru_inv (foldl lru_step (LRUCache_new n) ops) \<and>
   (n = 0 \<or> lru_size (foldl lru_step (LRUCache_new n) ops) \<le> n)"
proof -
  have "lru_inv (foldl lru_step c ops) \<and> lru_capacity (foldl lru_step c ops) = n \<and>
      lru_list (foldl lru_step c ops) = foldl (acache_step n) (lru_list c) ops"
    if "lru_inv c" "lru_capacity c = n" for c :: "('a, 'b) LRUCache"
    using that by (induction ops arbitrary: c) (simp_all add: lru_step_refines)
  from this [of "LRUCache_new n"] show ?thesis
    using lru_invD(6) [of "foldl lru_step (LRUCache_new n) ops"] by (auto simp: lru_size_def)
qed

text \<open>Lookup after a put. The new key has the new value; the only other key that can change is
  the least recently put one, which is forgotten when a new key is put in a cache at its capacity;
  and the iterator that put returns refers to the new item.\<close>

theorem lru_lookup_put:
  assumes "lru_inv c"
  shows "lru_lookup (snd (lru_put k v c)) k' =
      (if k' = k then Some v
       else if acache_victim (lru_capacity c) k (lru_list c) = Some k' then None
       else lru_lookup c k') \<and>
    lru_deref (snd (lru_put k v c)) (fst (lru_put k v c)) = Some (k, v)"
  using lru.look_put [OF assms] lru_put_iter [OF assms] by simp_all

lemma lru_lookup_put_witness:
  "lru_lookup (snd (lru_put (2::nat) True (snd (lru_put 1 False (LRUCache_new 1))))) 1 = None"
proof -
  let ?c = "snd (lru_put (1::nat) False (LRUCache_new 1))"
  have "acache_victim (lru_capacity ?c) 2 (lru_list ?c) = Some 1" by code_simp
  then show ?thesis
    using lru_lookup_put [OF lru_inv_put [OF lru_inv_new], of 2 True "1::nat" False 1 1] by simp
qed

text \<open>Taking an item out. A get returns the item of the key and removes it, leaving all the other
  keys as they are; on a key that is not there it changes nothing.\<close>

theorem lru_get_removes:
  assumes "lru_inv c"
  shows "fst (lru_get k c) = map_option (Pair k) (lru_lookup c k) \<and>
    (\<forall>k'. lru_lookup (snd (lru_get k c)) k' = (if k' = k then None else lru_lookup c k')) \<and>
    (lru_lookup c k = None \<longrightarrow> snd (lru_get k c) = c)"
proof -
  have ret: "fst (lru_get k c) = map_option (Pair k) (lru_lookup c k)"
  proof (cases "lru_find k c")
    case None
    then show ?thesis by (simp add: lru_get_def lru_find_def lru_lookup_def)
  next
    case (Some it)
    then obtain v where "(it, k, v) \<in> set (lru_nodes c)" using lru_find_node [OF assms] by blast
    from lru_deref_node [OF assms this] Some show ?thesis
      by (simp add: lru_get_def lru_find_def lru_lookup_def)
  qed
  have "map_of (filter (\<lambda>p. fst p \<noteq> k) xs) k' = (if k' = k then None else map_of xs k')"
    for xs :: "('a \<times> 'b) list" and k'
    by (induction xs) auto
  then have "lru_lookup (snd (lru_get k c)) k' = (if k' = k then None else lru_lookup c k')" for k'
    using assms by (simp add: lru_lookup_list lru_inv_get lru_list_get acache_get_def)
  moreover have "snd (lru_get k c) = c" if "lru_lookup c k = None"
    using that lru_find_None_iff [OF assms, of k] by (simp add: lru_get_def lru_find_def)
  ultimately show ?thesis using ret by blast
qed

lemma lru_get_removes_witness:
  "fst (lru_get (1::nat) (snd (lru_put 1 True (LRUCache_new 1)))) = Some (1, True)"
proof -
  have "lru_lookup (snd (lru_put (1::nat) True (LRUCache_new 1))) 1 = Some True" by code_simp
  then show ?thesis using lru_get_removes [OF lru_inv_put [OF lru_inv_new], of 1 "1::nat" True 1] by simp
qed

text \<open>Construction from a list. A cache built from items with distinct keys has exactly those
  items, in the same order, and its capacity is their number.\<close>

theorem lru_init_list:
  assumes "distinct (map fst l)"
  shows "lru_list (LRUCache_init l) = l \<and> lru_capacity (LRUCache_init l) = length l"
proof -
  have "lru_capacity (foldl (\<lambda>c (k, v). snd (lru_put k v c)) c l) = lru_capacity c" for c :: "('a, 'b) LRUCache"
    by (induction l arbitrary: c) (auto split: prod.splits)
  then show ?thesis
    using lru_puts_fresh [of "LRUCache_new (length l)" l] assms by (simp add: LRUCache_init_def)
qed

lemma lru_init_list_witness: "lru_list (LRUCache_init [(1::nat, True), (2, False)]) = [(1, True), (2, False)]"
  using lru_init_list [of "[(1::nat, True), (2, False)]"] by simp

end
