(* ===== verification/Fuurin_Broker.thy ===== *)
theory Fuurin_Broker
  imports Fuurin_Net Fuurin_Lrucache
begin

text \<open>
  The session of a broker, \<^verbatim>\<open>src/sessionbroker.cpp\<close>: it stores the last topics of each name,
  filters them by the sequence numbers of their workers, publishes what it accepts, and answers
  snapshot requests from its storage.
\<close>

section \<open>State\<close>

type_synonym topic_store = "(Name, (uuid, Topic) LRUCache) LRUCache"

record BrokerSession =
  bs_uuid :: uuid
  bs_conf :: BrokerConfig
  bs_storTopic :: topic_store
  bs_storWorker :: "(uuid, u64) LRUCache"
  bs_zhugz :: Timer
  bs_zsnapshot :: Socket
  bs_zdelivery :: Socket
  bs_zdispatch :: Socket
  bs_io :: io

definition BrokerConfig_empty :: BrokerConfig where
  "BrokerConfig_empty = \<lparr>bc_uuid = Uuid_null, bc_endpDelivery = [], bc_endpDispatch = [],
     bc_endpSnapshot = []\<rparr>"

definition BrokerSession_new :: "uuid \<Rightarrow> BrokerSession" where
  "BrokerSession_new u =
     \<lparr>bs_uuid = u, bs_conf = BrokerConfig_empty,
      bs_storTopic = LRUCache_new 1024, bs_storWorker = LRUCache_new 64,
      bs_zhugz = Timer_setSingleShot False (Timer_setInterval 1000 Timer_new),
      bs_zsnapshot = Socket_new, bs_zdelivery = Socket_new, bs_zdispatch = Socket_new,
      bs_io = io_init\<rparr>"

text \<open>Sending on the sockets of the session.\<close>

definition bs_send :: "env \<Rightarrow> chan \<Rightarrow> Part \<Rightarrow> (BrokerSession, int) action" where
  "bs_send P ch p s =
     (case sendMessagePart (en_net P) ch
        (sk_open (case ch of ChSnapshot \<Rightarrow> bs_zsnapshot s | _ \<Rightarrow> bs_zdispatch s)) p (bs_io s) of
        (r, i) \<Rightarrow> (r, s\<lparr>bs_io := i\<rparr>))"

section \<open>Operations\<close>

definition bs_saveConfiguration :: "env \<Rightarrow> Part \<Rightarrow> (BrokerSession, unit) action" where
  "bs_saveConfiguration P part =
     bindA (liftA (BrokerConfig_fromPart (en_mem P) (en_arch P) part))
       (\<lambda>c. updA (\<lambda>s. s\<lparr>bs_conf := c\<rparr>))"

definition bs_bind :: "env \<Rightarrow> (BrokerSession \<Rightarrow> Socket) \<Rightarrow> ((Socket \<Rightarrow> Socket) \<Rightarrow> BrokerSession \<Rightarrow> BrokerSession) \<Rightarrow>
    (BrokerSession, unit) action" where
  "bs_bind P get upd s =
     (case Socket_open (en_net P) (get s) (bs_io s) of
        (r, sk, i) \<Rightarrow> (r, (upd (\<lambda>_. sk) s)\<lparr>bs_io := i\<rparr>))"

definition bs_openSockets :: "env \<Rightarrow> (BrokerSession, unit) action" where
  "bs_openSockets P =
     thenA (updA (\<lambda>s. s\<lparr>bs_zdelivery := (bs_zdelivery s)\<lparr>sk_endpoints := bc_endpDispatch (bs_conf s)\<rparr>,
       bs_zdispatch := (bs_zdispatch s)\<lparr>sk_endpoints := bc_endpDelivery (bs_conf s)\<rparr>,
       bs_zsnapshot := (bs_zsnapshot s)\<lparr>sk_endpoints := bc_endpSnapshot (bs_conf s)\<rparr>\<rparr>))
     (thenA (updA (\<lambda>s. s\<lparr>bs_zdelivery := (bs_zdelivery s)\<lparr>sk_groups := [WorkerHugz, WorkerUpdt]\<rparr>\<rparr>))
     (thenA (bs_bind P bs_zdelivery bs_zdelivery_update)
     (thenA (bs_bind P bs_zdispatch bs_zdispatch_update)
     (bs_bind P bs_zsnapshot bs_zsnapshot_update))))"

definition bs_closeSockets :: "(BrokerSession, unit) action" where
  "bs_closeSockets = updA (\<lambda>s. s\<lparr>bs_zdelivery := Socket_close (bs_zdelivery s),
     bs_zdispatch := Socket_close (bs_zdispatch s), bs_zsnapshot := Socket_close (bs_zsnapshot s)\<rparr>)"

definition bs_operationReady :: "env \<Rightarrow> Operation \<Rightarrow> (BrokerSession, unit) action" where
  "bs_operationReady P oper =
     (case op_type oper of
        OpStart \<Rightarrow> thenA (bs_saveConfiguration P (op_payload oper)) (bs_openSockets P)
      | OpStop \<Rightarrow> bs_closeSockets
      | _ \<Rightarrow> retA ())"

section \<open>Storing topics\<close>

text \<open>
  The cache of a name is created, empty, before the sequence number is looked at. The iterator
  returned by \<^verbatim>\<open>put\<close> is never the end of the list, so the assertions on it hold.
\<close>

definition bs_topicCache :: "Name \<Rightarrow> BrokerSession \<Rightarrow> iter \<times> topic_store" where
  "bs_topicCache name s =
     (case lru_find name (bs_storTopic s) of
        Some it \<Rightarrow> (it, bs_storTopic s)
      | None \<Rightarrow> lru_put name (LRUCache_new 8) (bs_storTopic s))"

definition bs_lastSeqNum :: "BrokerSession \<Rightarrow> uuid \<Rightarrow> u64" where
  "bs_lastSeqNum s w = (case lru_lookup (bs_storWorker s) w of None \<Rightarrow> 0 | Some n \<Rightarrow> n)"

definition bs_storeTopic :: "Topic \<Rightarrow> BrokerSession \<Rightarrow> bool \<times> BrokerSession" where
  "bs_storeTopic t s =
     (let (it, st) = bs_topicCache (tp_name t) s;
          s1 = s\<lparr>bs_storTopic := st\<rparr>
      in if tp_seqn t \<le> bs_lastSeqNum s1 (tp_worker t) then (False, s1)
         else (True, s1\<lparr>bs_storWorker := snd (lru_put (tp_worker t) (tp_seqn t) (bs_storWorker s1)),
           bs_storTopic := lru_modify it (\<lambda>c. snd (lru_put (tp_worker t) t c)) st\<rparr>))"

section \<open>Messages of the workers\<close>

text \<open>\<^verbatim>\<open>strncmp(group, name, strlen(name)) == 0\<close>.\<close>

definition group_is :: "Part \<Rightarrow> bytes \<Rightarrow> bool" where
  "group_is p g = (take (length g) (c_str (zmq_msg_group p)) = g)"

definition bs_dispatchTopic :: "env \<Rightarrow> Topic \<Rightarrow> (BrokerSession, unit) action" where
  "bs_dispatchTopic P t =
     bindA (liftA (bindR (Topic_toPart (en_mem P) (en_arch P) t)
       (withGroup (Some (nm_dd (tp_name t)))))) (\<lambda>p.
     thenA (bs_send P ChDispatch p)
     (bindA (liftA (bindR (Topic_toPart (en_mem P) (en_arch P) t)
       (withGroup (Some BrokerUpdt)))) (\<lambda>q.
     thenA (bs_send P ChDispatch q) (retA ()))))"

definition bs_collectWorkerMessage :: "env \<Rightarrow> Part \<Rightarrow> (BrokerSession, unit) action" where
  "bs_collectWorkerMessage P payload =
     (if group_is payload WorkerHugz
      then updA (\<lambda>s. if \<not> Timer_isActive (bs_zhugz s)
                     then s\<lparr>bs_zhugz := Timer_start (bs_zhugz s)\<rparr> else s)
      else if group_is payload WorkerUpdt
      then bindA (liftA (Topic_fromPart (en_mem P) (en_arch P) payload)) (\<lambda>t0.
           bindA (readA bs_uuid) (\<lambda>u.
           let t = withBroker u t0 in
           bindA (\<lambda>s. case bs_storeTopic t s of (b, s') \<Rightarrow> (Inr b, s')) (\<lambda>stored.
           if stored then bs_dispatchTopic P t else retA ())))
      else retA ())"

definition bs_sendHugz :: "env \<Rightarrow> (BrokerSession, unit) action" where
  "bs_sendHugz P =
     bindA (liftA (withGroup (Some BrokerHugz) zmq_msg_init)) (\<lambda>p.
     thenA (bs_send P ChDispatch p) (retA ()))"

section \<open>Snapshots\<close>

text \<open>One part of a snapshot reply; a send that would block is turned into an error.\<close>

definition reply_part :: "env \<Rightarrow> bytes \<Rightarrow> u8 \<Rightarrow> u32 \<Rightarrow> Part result \<Rightarrow> Part result" where
  "reply_part P reply syncseq rouID params =
     bindR params (\<lambda>q.
     bindR (pack (en_mem P) (en_arch P) [FString reply, FUInt8 syncseq, FPart (pt_data q)])
       (withRoutingID rouID))"

definition bs_trySend :: "env \<Rightarrow> Part result \<Rightarrow> (BrokerSession, unit) action" where
  "bs_trySend P part =
     bindA (liftA part) (\<lambda>p.
     bindA (bs_send P ChSnapshot p) (\<lambda>rc.
     if rc = - 1 then liftA (Inl (Throw ZMQSocketSendFailed '''' EAGAIN)) else retA ()))"

text \<open>Whether the requester wants a stored topic.\<close>

definition wanted :: "WorkerConfig \<Rightarrow> Topic \<Rightarrow> bool" where
  "wanted conf t \<longleftrightarrow>
     \<not> (tp_type t = Event \<or> (\<not> wc_topicsAll conf \<and> tp_name t \<notin> set (wc_topicsNames conf)))"

definition bs_replyElement :: "env \<Rightarrow> WorkerConfig \<Rightarrow> u32 \<Rightarrow> u8 \<Rightarrow> Name \<times> (uuid, Topic) LRUCache \<Rightarrow>
    (BrokerSession, unit) action" where
  "bs_replyElement P conf rouID syncseq el =
     thenA (liftA (ASSERT (lru_list (snd el) \<noteq> []) ''topic entry has empty cache''))
     (let t = snd (last (lru_list (snd el))) in
      if \<not> wanted conf t then retA ()
      else bs_trySend P (reply_part P BrokerSyncElemn syncseq rouID
        (Topic_toPart (en_mem P) (en_arch P) t)))"

definition bs_replyAll :: "env \<Rightarrow> WorkerConfig \<Rightarrow> u32 \<Rightarrow> u8 \<Rightarrow> (BrokerSession, unit) action" where
  "bs_replyAll P conf rouID syncseq =
     bindA (readA bs_uuid) (\<lambda>u.
     thenA (bs_trySend P (reply_part P BrokerSyncBegin syncseq rouID
       (Uuid_toPart (en_mem P) (en_arch P) u)))
     (bindA (readA (\<lambda>s. lru_list (bs_storTopic s))) (\<lambda>els.
     thenA (forA els (bs_replyElement P conf rouID syncseq))
     (bs_trySend P (reply_part P BrokerSyncCompl syncseq rouID
       (Uuid_toPart (en_mem P) (en_arch P) u))))))"

text \<open>The handler around it: a peer that is gone or full only ends this reply.\<close>

definition catch_send :: "('s, unit) action \<Rightarrow> ('s, unit) action" where
  "catch_send m s =
     (case m s of
        (Inl (Throw ZMQSocketSendFailed msg e), s') \<Rightarrow>
          if e = EHOSTUNREACH \<or> e = EAGAIN then (Inr (), s')
          else (Inl (Throw ZMQSocketSendFailed msg e), s')
      | (r, s') \<Rightarrow> (r, s'))"

definition bs_replySnapshot :: "env \<Rightarrow> u32 \<Rightarrow> u8 \<Rightarrow> Part \<Rightarrow> (BrokerSession, unit) action" where
  "bs_replySnapshot P rouID syncseq params =
     bindA (liftA (WorkerConfig_fromPart (en_mem P) (en_arch P) params)) (\<lambda>conf.
     catch_send (bs_replyAll P conf rouID syncseq))"

definition bs_receiveWorkerCommand :: "env \<Rightarrow> Part \<Rightarrow> (BrokerSession, unit) action" where
  "bs_receiveWorkerCommand P payload =
     bindA (liftA (unpack (en_mem P) (en_arch P) [TString, TUInt8, TPart] (pt_data payload))) (\<lambda>fs.
     case fs of
       [FString req, FUInt8 syncseq, FPart params] \<Rightarrow>
         if req \<noteq> BrokerSyncReqst then retA ()
         else bs_replySnapshot P (pt_routing payload) syncseq (zmq_msg_init\<lparr>pt_data := params\<rparr>)
     | _ \<Rightarrow> liftA throwAccessError)"

text \<open>What the poller reports as readable, with the part that is received.\<close>

datatype bs_ready = BSnapshot Part | BDelivery Part | BHugz

fun bs_socketReady :: "env \<Rightarrow> bs_ready \<Rightarrow> (BrokerSession, unit) action" where
  "bs_socketReady P (BSnapshot payload) = bs_receiveWorkerCommand P payload"
| "bs_socketReady P (BDelivery payload) = bs_collectWorkerMessage P payload"
| "bs_socketReady P BHugz =
     thenA (updA (\<lambda>s. s\<lparr>bs_zhugz := Timer_consume (bs_zhugz s)\<rparr>)) (bs_sendHugz P)"

section \<open>Runs\<close>

datatype bs_event = BOperation Operation | BReady bs_ready | BClockHugz

fun bs_handle :: "env \<Rightarrow> bs_event \<Rightarrow> (BrokerSession, unit) action" where
  "bs_handle P (BOperation oper) = bs_operationReady P oper"
| "bs_handle P (BReady r) = bs_socketReady P r"
| "bs_handle P BClockHugz = updA (\<lambda>s. s\<lparr>bs_zhugz := Timer_fire (bs_zhugz s)\<rparr>)"

inductive bs_reach :: "env \<Rightarrow> BrokerSession \<Rightarrow> bool" for P where
  init: "bs_reach P (BrokerSession_new u)"
| step: "bs_reach P s \<Longrightarrow> bs_handle P ev s = (Inr (), s') \<Longrightarrow> bs_reach P s'"

section \<open>Invariant of the storage\<close>

text \<open>
  Every cache is well formed; the cache of a name holds topics of that name, each under its worker.
\<close>

definition cache_of :: "Name \<Rightarrow> (uuid, Topic) LRUCache \<Rightarrow> bool" where
  "cache_of n c \<longleftrightarrow> lru_inv c \<and> lru_capacity c = 8 \<and>
     (\<forall>(w, t)\<in>set (lru_list c). tp_worker t = w \<and> tp_name t = n)"

definition broker_inv :: "BrokerSession \<Rightarrow> bool" where
  "broker_inv s \<longleftrightarrow> lru_inv (bs_storTopic s) \<and> lru_capacity (bs_storTopic s) = 1024 \<and>
     lru_inv (bs_storWorker s) \<and> lru_capacity (bs_storWorker s) = 64 \<and>
     (\<forall>(n, c)\<in>set (lru_list (bs_storTopic s)). cache_of n c)"

text \<open>No name has an empty cache: what the snapshot reply asserts.\<close>

definition no_empty_cache :: "BrokerSession \<Rightarrow> bool" where
  "no_empty_cache s \<longleftrightarrow> (\<forall>(n, c)\<in>set (lru_list (bs_storTopic s)). lru_list c \<noteq> [])"

lemma broker_inv_new: "broker_inv (BrokerSession_new u)" "no_empty_cache (BrokerSession_new u)"
  by (simp_all add: broker_inv_def no_empty_cache_def BrokerSession_new_def lru_list_def
      LRUCache_new_def lru_inv_def lru_keys_def)

lemma cache_of_new: "cache_of n (LRUCache_new 8)"
  by (simp add: cache_of_def)

lemma cache_of_put:
  "cache_of n c \<Longrightarrow> tp_name t = n \<Longrightarrow> cache_of n (snd (lru_put (tp_worker t) t c))"
  using lru.set_assocs_put [of c "tp_worker t" t] by (auto simp: cache_of_def)

lemma bs_topicCache_spec:
  assumes inv: "broker_inv s" and tc: "bs_topicCache n s = (it, st)"
  shows "lru_inv st" and "lru_capacity st = 1024" and "lru_find n st = Some it"
    and "\<forall>(n', c)\<in>set (lru_list st). cache_of n' c"
    and "lru_lookup st n = Some (case lru_lookup (bs_storTopic s) n of None \<Rightarrow> LRUCache_new 8 | Some c \<Rightarrow> c)"
    and "lru_lookup (bs_storTopic s) n = None \<longleftrightarrow> st \<noteq> bs_storTopic s"
    and "set (lru_list st) \<subseteq> insert (n, LRUCache_new 8) (set (lru_list (bs_storTopic s)))"
proof -
  note i = inv [unfolded broker_inv_def]
  show "lru_inv st"
  proof (cases "lru_find n (bs_storTopic s)")
    case (Some it')
    then show ?thesis using tc i by (simp add: bs_topicCache_def)
  next
    case None
    then show ?thesis
      using tc i lru_inv_put [of "bs_storTopic s" n "LRUCache_new 8"] by (simp add: bs_topicCache_def)
  qed
  have "lru_capacity st = 1024 \<and> lru_find n st = Some it \<and>
    (\<forall>(n', c)\<in>set (lru_list st). cache_of n' c) \<and>
    lru_lookup st n = Some (case lru_lookup (bs_storTopic s) n of None \<Rightarrow> LRUCache_new 8 | Some c \<Rightarrow> c) \<and>
    (lru_lookup (bs_storTopic s) n = None \<longleftrightarrow> st \<noteq> bs_storTopic s) \<and>
    set (lru_list st) \<subseteq> insert (n, LRUCache_new 8) (set (lru_list (bs_storTopic s)))"
  proof (cases "lru_find n (bs_storTopic s)")
    case (Some it')
    then have "lru_lookup (bs_storTopic s) n \<noteq> None" using i lru_find_None_iff [of "bs_storTopic s" n] by simp
    with Some show ?thesis using tc i by (auto simp: bs_topicCache_def)
  next
    case None
    then have n: "lru_lookup (bs_storTopic s) n = None" using i lru_find_None_iff [of "bs_storTopic s" n] by simp
    have st: "st = snd (lru_put n (LRUCache_new 8) (bs_storTopic s))"
      and it: "it = fst (lru_put n (LRUCache_new 8) (bs_storTopic s))"
      using tc None by (auto simp: bs_topicCache_def)
    have look: "lru_lookup st n = Some (LRUCache_new 8)" using i st by (simp add: lru.look_put_same)
    then show ?thesis
      using n i st it lru_find_put [of "bs_storTopic s" n "LRUCache_new 8"]
        lru.set_assocs_put [of "bs_storTopic s" n "LRUCache_new 8"] cache_of_new [of n]
      by auto
  qed
  then show "lru_capacity st = 1024" and "lru_find n st = Some it"
    and "\<forall>(n', c)\<in>set (lru_list st). cache_of n' c"
    and "lru_lookup st n = Some (case lru_lookup (bs_storTopic s) n of None \<Rightarrow> LRUCache_new 8 | Some c \<Rightarrow> c)"
    and "lru_lookup (bs_storTopic s) n = None \<longleftrightarrow> st \<noteq> bs_storTopic s"
    and "set (lru_list st) \<subseteq> insert (n, LRUCache_new 8) (set (lru_list (bs_storTopic s)))"
    by blast+
qed

section \<open>Storing a topic\<close>

text \<open>The room for one more worker without forgetting the number of another.\<close>

definition bs_worker_room :: "Topic \<Rightarrow> BrokerSession \<Rightarrow> bool" where
  "bs_worker_room t s \<longleftrightarrow>
     lru_lookup (bs_storWorker s) (tp_worker t) \<noteq> None \<or> lru_size (bs_storWorker s) < 64"

lemma bs_storeTopic_fst:
  "fst (bs_storeTopic t s) \<longleftrightarrow> bs_lastSeqNum s (tp_worker t) < tp_seqn t"
  by (auto simp: bs_storeTopic_def Let_def bs_lastSeqNum_def not_le split: prod.splits)

lemma bs_storeTopic_worker:
  "bs_storWorker (snd (bs_storeTopic t s)) =
     (if fst (bs_storeTopic t s) then snd (lru_put (tp_worker t) (tp_seqn t) (bs_storWorker s))
      else bs_storWorker s)"
  by (auto simp: bs_storeTopic_def Let_def bs_lastSeqNum_def split: prod.splits)

lemma broker_inv_storeTopic [intro]:
  assumes inv: "broker_inv s"
  shows "broker_inv (snd (bs_storeTopic t s))"
proof -
  obtain it st where tc: "bs_topicCache (tp_name t) s = (it, st)" by (cases "bs_topicCache (tp_name t) s")
  note sp = bs_topicCache_spec [OF inv tc]
  let ?f = "\<lambda>c. snd (lru_put (tp_worker t) t c)"
  have "\<forall>(n, c)\<in>set (lru_list (lru_modify it ?f st)). cache_of n c"
    using sp(4) by (auto simp: lru_list_modify [OF sp(1,3)] cache_of_put)
  then show ?thesis
    using inv sp
    by (auto simp: bs_storeTopic_def tc Let_def broker_inv_def lru_inv_put lru_inv_modify)
qed

lemma lru_size_list: "lru_size c = length (lru_list c)"
  by (simp add: lru_size_def lru_list_def)

lemma bs_lastSeqNum_other:
  assumes inv: "broker_inv s" and acc: "fst (bs_storeTopic t s)" and room: "bs_worker_room t s"
    and other: "w \<noteq> tp_worker t"
  shows "bs_lastSeqNum (snd (bs_storeTopic t s)) w = bs_lastSeqNum s w"
proof -
  have i: "lru_inv (bs_storWorker s)" and cap: "lru_capacity (bs_storWorker s) = 64"
    using inv by (auto simp: broker_inv_def)
  have "tp_worker t \<in> fst ` set (lru_list (bs_storWorker s)) \<or> length (lru_list (bs_storWorker s)) < 64"
    using room i by (auto simp: bs_worker_room_def lru_lookup_list lru_size_list map_of_eq_None_iff)
  then have "acache_victim 64 (tp_worker t) (lru_list (bs_storWorker s)) = None"
    by (auto simp: acache_victim_def)
  then show ?thesis
    using lru.look_put [OF i, of "tp_worker t" "tp_seqn t" w] acc other cap
    by (simp add: bs_lastSeqNum_def bs_storeTopic_worker)
qed

interpretation broker_filter: seq_filter broker_inv bs_storeTopic bs_lastSeqNum tp_worker tp_seqn bs_worker_room
proof
  fix s :: BrokerSession and t :: Topic and w :: uuid
  assume inv: "broker_inv s"
  then have i: "lru_inv (bs_storWorker s)" by (simp add: broker_inv_def)
  show "broker_inv (snd (bs_storeTopic t s))" using inv by blast
  show "fst (bs_storeTopic t s) \<longleftrightarrow> bs_lastSeqNum s (tp_worker t) < tp_seqn t"
    by (rule bs_storeTopic_fst)
  show "bs_lastSeqNum (snd (bs_storeTopic t s)) (tp_worker t) = tp_seqn t" if "fst (bs_storeTopic t s)"
    using that lru.look_put_same [OF i] by (simp add: bs_lastSeqNum_def bs_storeTopic_worker)
  show "bs_lastSeqNum (snd (bs_storeTopic t s)) w = bs_lastSeqNum s w"
    if "fst (bs_storeTopic t s)" "bs_worker_room t s" "w \<noteq> tp_worker t"
    using bs_lastSeqNum_other [OF inv that] .
  show "bs_lastSeqNum (snd (bs_storeTopic t s)) w = bs_lastSeqNum s w" if "\<not> fst (bs_storeTopic t s)"
    using that by (simp add: bs_lastSeqNum_def bs_storeTopic_worker)
qed

text \<open>What is stored: an accepted topic is the last one of its name.\<close>

lemma bs_storeTopic_accepted:
  assumes inv: "broker_inv s" and acc: "bs_storeTopic t s = (True, s')"
  shows "\<exists>c. lru_lookup (bs_storTopic s') (tp_name t) = Some c \<and> last (lru_list c) = (tp_worker t, t) \<and>
    lru_list c \<noteq> [] \<and> lru_lookup c (tp_worker t) = Some t"
proof -
  obtain it st where tc: "bs_topicCache (tp_name t) s = (it, st)" by (cases "bs_topicCache (tp_name t) s")
  note sp = bs_topicCache_spec [OF inv tc]
  let ?f = "\<lambda>c. snd (lru_put (tp_worker t) t c)"
  have s': "bs_storTopic s' = lru_modify it ?f st"
    using acc by (auto simp: bs_storeTopic_def tc Let_def split: if_splits)
  obtain c where c: "lru_lookup st (tp_name t) = Some c" using sp(5) by simp
  then have "(tp_name t, c) \<in> set (lru_list st)"
    using sp(1) by (simp add: lru_lookup_list) (rule map_of_SomeD)
  then have ci: "lru_inv c" using sp(4) by (auto simp: cache_of_def)
  have "lru_lookup (bs_storTopic s') (tp_name t) = Some (?f c)"
    using c by (simp add: s' lru_lookup_modify [OF sp(1,3)])
  then show ?thesis
    using lru.last_put [OF ci] lru.assocs_put_nonempty [OF ci] lru.look_put_same [OF ci] by blast
qed

text \<open>A refused topic of a new name leaves that name with an empty cache.\<close>

lemma bs_storeTopic_refused_new:
  assumes inv: "broker_inv s" and ref: "bs_storeTopic t s = (False, s')"
    and new: "lru_lookup (bs_storTopic s) (tp_name t) = None"
  shows "lru_lookup (bs_storTopic s') (tp_name t) = Some (LRUCache_new 8)"
proof -
  obtain it st where tc: "bs_topicCache (tp_name t) s = (it, st)" by (cases "bs_topicCache (tp_name t) s")
  have "bs_storTopic s' = st" using ref by (auto simp: bs_storeTopic_def tc Let_def split: if_splits)
  then show ?thesis using bs_topicCache_spec(5) [OF inv tc] new by simp
qed

text \<open>Every other refused or accepted topic keeps the caches non-empty.\<close>

lemma no_empty_cache_storeTopic:
  assumes inv: "broker_inv s" and ne: "no_empty_cache s"
    and ok: "fst (bs_storeTopic t s) \<or> lru_lookup (bs_storTopic s) (tp_name t) \<noteq> None"
  shows "no_empty_cache (snd (bs_storeTopic t s))"
proof -
  obtain it st where tc: "bs_topicCache (tp_name t) s = (it, st)" by (cases "bs_topicCache (tp_name t) s")
  note sp = bs_topicCache_spec [OF inv tc]
  let ?f = "\<lambda>c. snd (lru_put (tp_worker t) t c)"
  show ?thesis
  proof (cases "fst (bs_storeTopic t s)")
    case False
    then have "st = bs_storTopic s" using ok sp(6) by auto
    then show ?thesis using False ne by (auto simp: bs_storeTopic_def tc Let_def no_empty_cache_def)
  next
    case True
    have f: "lru_list (?f c) \<noteq> []" if "(n, c) \<in> set (lru_list st)" for n c
      using that sp(4) lru.assocs_put_nonempty by (fastforce simp: cache_of_def)
    have "lru_list c \<noteq> []" if "(n, c) \<in> set (lru_list st)" "n \<noteq> tp_name t" for n c
      using that sp(7) ne by (auto simp: no_empty_cache_def)
    then have "\<forall>(n, c)\<in>set (lru_list (lru_modify it ?f st)). lru_list c \<noteq> []"
      using f by (auto simp: lru_list_modify [OF sp(1,3)])
    then show ?thesis using True by (auto simp: bs_storeTopic_def tc Let_def no_empty_cache_def)
  qed
qed

section \<open>Answering a snapshot request\<close>

text \<open>The network takes every part from now on.\<close>

definition net_takes :: "env \<Rightarrow> BrokerSession \<Rightarrow> bool" where
  "net_takes P s \<longleftrightarrow> sk_open (bs_zsnapshot s) \<and> (\<forall>k \<ge> io_sends (bs_io s). nt_send (en_net P) k = Sent)"

definition bs_sent :: "Part list \<Rightarrow> BrokerSession \<Rightarrow> BrokerSession" where
  "bs_sent ps s = s\<lparr>bs_io := (bs_io s)\<lparr>io_sends := io_sends (bs_io s) + length ps,
     io_sent := io_sent (bs_io s) @ map (Pair ChSnapshot) ps\<rparr>\<rparr>"

lemma bs_sent_simps [simp]:
  "bs_sent [] s = s" "bs_sent qs (bs_sent ps s) = bs_sent (ps @ qs) s"
  "bs_storTopic (bs_sent ps s) = bs_storTopic s" "bs_uuid (bs_sent ps s) = bs_uuid s"
  "net_takes P s \<Longrightarrow> net_takes P (bs_sent ps s)"
  by (simp_all add: bs_sent_def net_takes_def)

lemma bs_trySend_ok:
  assumes "net_takes P s"
  shows "bs_trySend P (Inr p) s = (Inr (), bs_sent [p] s)"
  using assms
  by (simp add: bs_trySend_def bs_send_def sendMessagePart_def net_takes_def bs_sent_def action_defs Let_def)

text \<open>The parts of a whole reply: its beginning, the wanted topics in storage order, its end.\<close>

definition snapshot_topics :: "WorkerConfig \<Rightarrow> BrokerSession \<Rightarrow> Topic list" where
  "snapshot_topics conf s =
     filter (wanted conf) (map (\<lambda>el. snd (last (lru_list (snd el)))) (lru_list (bs_storTopic s)))"

definition element_part :: "env \<Rightarrow> u8 \<Rightarrow> u32 \<Rightarrow> Topic \<Rightarrow> Part result" where
  "element_part P syncseq rouID t =
     reply_part P BrokerSyncElemn syncseq rouID (Topic_toPart (en_mem P) (en_arch P) t)"

definition uuid_part :: "env \<Rightarrow> bytes \<Rightarrow> u8 \<Rightarrow> u32 \<Rightarrow> uuid \<Rightarrow> Part result" where
  "uuid_part P reply syncseq rouID u =
     reply_part P reply syncseq rouID (Uuid_toPart (en_mem P) (en_arch P) u)"

definition builds :: "Part result \<Rightarrow> bool" where
  "builds r = (case r of Inl e \<Rightarrow> False | Inr p \<Rightarrow> True)"

definition built :: "Part result \<Rightarrow> Part" where
  "built r = (case r of Inl e \<Rightarrow> zmq_msg_init | Inr p \<Rightarrow> p)"

lemma builds_Inr: "builds r \<Longrightarrow> r = Inr (built r)"
  by (cases r) (simp_all add: builds_def built_def)

lemma bs_replyElement_ok:
  assumes "net_takes P s" and "lru_list (snd el) \<noteq> []"
    and "let t = snd (last (lru_list (snd el))) in wanted conf t \<longrightarrow> builds (element_part P syncseq rouID t)"
  shows "bs_replyElement P conf rouID syncseq el s =
    (Inr (), bs_sent (let t = snd (last (lru_list (snd el))) in
       if wanted conf t then [built (element_part P syncseq rouID t)] else []) s)"
proof -
  have "bs_trySend P (element_part P syncseq rouID t) s =
      (Inr (), bs_sent [built (element_part P syncseq rouID t)] s)"
    if "builds (element_part P syncseq rouID t)" for t
    using bs_trySend_ok [OF assms(1)] builds_Inr [OF that] by metis
  then show ?thesis
    using assms by (auto simp: bs_replyElement_def action_defs Let_def simp flip: element_part_def)
qed

lemma bs_replyElements_ok:
  assumes "net_takes P s" and "\<forall>el\<in>set els. lru_list (snd el) \<noteq> []"
    and "\<forall>t\<in>set (filter (wanted conf) (map (\<lambda>el. snd (last (lru_list (snd el)))) els)).
      builds (element_part P syncseq rouID t)"
  shows "forA els (bs_replyElement P conf rouID syncseq) s =
    (Inr (), bs_sent (map (\<lambda>t. built (element_part P syncseq rouID t))
       (filter (wanted conf) (map (\<lambda>el. snd (last (lru_list (snd el)))) els))) s)"
  using assms
proof (induction els arbitrary: s)
  case Nil
  then show ?case by (simp add: retA_def)
next
  case (Cons el els)
  have el: "bs_replyElement P conf rouID syncseq el s =
    (Inr (), bs_sent (let t = snd (last (lru_list (snd el))) in
       if wanted conf t then [built (element_part P syncseq rouID t)] else []) s)"
    using Cons.prems by (intro bs_replyElement_ok) (auto simp: Let_def)
  show ?case
    using Cons.prems
    by (simp add: thenA_def bindA_def el Cons.IH)
qed

lemma bs_replyAll_ok:
  assumes net: "net_takes P s" and ne: "no_empty_cache s"
    and b0: "builds (uuid_part P BrokerSyncBegin syncseq rouID (bs_uuid s))"
    and b1: "\<forall>t\<in>set (snapshot_topics conf s). builds (element_part P syncseq rouID t)"
    and b2: "builds (uuid_part P BrokerSyncCompl syncseq rouID (bs_uuid s))"
  shows "bs_replyAll P conf rouID syncseq s =
    (Inr (), bs_sent ([built (uuid_part P BrokerSyncBegin syncseq rouID (bs_uuid s))] @
       map (\<lambda>t. built (element_part P syncseq rouID t)) (snapshot_topics conf s) @
       [built (uuid_part P BrokerSyncCompl syncseq rouID (bs_uuid s))]) s)"
proof -
  have tr: "bs_trySend P (uuid_part P r syncseq rouID (bs_uuid s)) s' =
      (Inr (), bs_sent [built (uuid_part P r syncseq rouID (bs_uuid s))] s')"
    if "builds (uuid_part P r syncseq rouID (bs_uuid s))" "net_takes P s'" for r s'
    using bs_trySend_ok [OF that(2)] builds_Inr [OF that(1)] by metis
  have els: "forA (lru_list (bs_storTopic s)) (bs_replyElement P conf rouID syncseq) s' =
    (Inr (), bs_sent (map (\<lambda>t. built (element_part P syncseq rouID t)) (snapshot_topics conf s)) s')"
    if "net_takes P s'" for s'
    unfolding snapshot_topics_def
    using that ne b1 by (intro bs_replyElements_ok) (auto simp: no_empty_cache_def snapshot_topics_def)
  show ?thesis
    using net b0 b2
    by (simp add: bs_replyAll_def thenA_def bindA_def readA_def tr els flip: uuid_part_def)
qed

text \<open>An empty cache in the storage ends the process, once the reply gets to it.\<close>

lemma bs_replyElements_abort:
  assumes "net_takes P s" and "el0 \<in> set els" and "lru_list (snd el0) = []"
    and "\<forall>el\<in>set els. lru_list (snd el) \<noteq> [] \<longrightarrow> wanted conf (snd (last (lru_list (snd el)))) \<longrightarrow>
      builds (element_part P syncseq rouID (snd (last (lru_list (snd el)))))"
  shows "fst (forA els (bs_replyElement P conf rouID syncseq) s) =
    Inl (Abort ''topic entry has empty cache'')"
  using assms
proof (induction els arbitrary: s)
  case Nil
  then show ?case by simp
next
  case (Cons el els)
  show ?case
  proof (cases "lru_list (snd el) = []")
    case True
    then show ?thesis by (simp add: bs_replyElement_def action_defs)
  next
    case False
    have "bs_replyElement P conf rouID syncseq el s =
      (Inr (), bs_sent (let t = snd (last (lru_list (snd el))) in
         if wanted conf t then [built (element_part P syncseq rouID t)] else []) s)"
      using Cons.prems False by (intro bs_replyElement_ok) (auto simp: Let_def)
    then show ?thesis using Cons False by (auto simp: thenA_def bindA_def)
  qed
qed

section \<open>The storage in a run\<close>

text \<open>Two sessions with the same storage, and actions that do not touch it.\<close>

definition same_store :: "BrokerSession \<Rightarrow> BrokerSession \<Rightarrow> bool" where
  "same_store s s' \<longleftrightarrow> bs_storTopic s' = bs_storTopic s \<and> bs_storWorker s' = bs_storWorker s \<and>
     bs_uuid s' = bs_uuid s"

interpretation broker_frame: action_frame same_store
  by unfold_locales (auto simp: same_store_def)

named_theorems store_intro \<open>actions that leave the storage alone\<close>

lemmas store_frame [store_intro] =
  broker_frame.frame_bind broker_frame.frame_then broker_frame.frame_simple broker_frame.frame_upd
  broker_frame.frame_when broker_frame.frame_for

lemma store_send [store_intro]: "frameA same_store (bs_send P ch p)"
  by (simp add: frameA_def bs_send_def same_store_def split: prod.split)

lemma store_bind [store_intro]:
  "frameA same_store (bs_bind P bs_zdelivery bs_zdelivery_update)"
  "frameA same_store (bs_bind P bs_zdispatch bs_zdispatch_update)"
  "frameA same_store (bs_bind P bs_zsnapshot bs_zsnapshot_update)"
  by (simp_all add: frameA_def bs_bind_def same_store_def split: prod.split)

lemma store_operations [store_intro]:
  "frameA same_store (bs_operationReady P oper)"
proof -
  have "frameA same_store (bs_saveConfiguration P p)" "frameA same_store (bs_openSockets P)"
    "frameA same_store bs_closeSockets" for p
    unfolding bs_saveConfiguration_def bs_openSockets_def bs_closeSockets_def
    by (intro store_intro; simp add: same_store_def)+
  then show ?thesis
    by (cases "op_type oper")
      (simp_all add: bs_operationReady_def broker_frame.frame_then broker_frame.frame_simple)
qed

lemma store_trySend [store_intro]: "frameA same_store (bs_trySend P part)"
proof -
  have "frameA same_store (if rc = - 1 then liftA (Inl (Throw ZMQSocketSendFailed '''' EAGAIN)) else retA ())" for rc :: int
    by (simp add: broker_frame.frame_simple)
  then show ?thesis unfolding bs_trySend_def by (intro store_intro)
qed

lemma store_replyElement [store_intro]: "frameA same_store (bs_replyElement P conf rouID syncseq el)"
  unfolding bs_replyElement_def Let_def
  by (rule broker_frame.frame_then) (simp_all add: broker_frame.frame_simple store_trySend)

lemma catch_send_snd: "snd (catch_send f s) = snd (f s)"
proof -
  obtain r s' where f: "f s = (r, s')" by (cases "f s")
  show ?thesis
  proof (cases r)
    case (Inl e)
    show ?thesis
    proof (cases e)
      case (Throw n msg i)
      then show ?thesis using f Inl by (cases n) (simp_all add: catch_send_def)
    qed (simp add: catch_send_def f Inl)
  qed (simp add: catch_send_def f)
qed

lemma store_catch [store_intro]: "frameA same_store f \<Longrightarrow> frameA same_store (catch_send f)"
  by (simp add: frameA_def catch_send_snd)

lemma store_reply [store_intro]: "frameA same_store (bs_replySnapshot P rouID syncseq params)"
  unfolding bs_replySnapshot_def bs_replyAll_def by (intro store_intro)

lemma store_dispatch [store_intro]: "frameA same_store (bs_dispatchTopic P t)" "frameA same_store (bs_sendHugz P)"
  unfolding bs_dispatchTopic_def bs_sendHugz_def by (intro store_intro)+

lemma store_command [store_intro]: "frameA same_store (bs_receiveWorkerCommand P payload)"
proof -
  have "frameA same_store (if req \<noteq> BrokerSyncReqst then retA ()
      else bs_replySnapshot P rid n p)" for req rid n p
    by (simp add: store_reply broker_frame.frame_simple)
  then have "frameA same_store (case fs of
      [FString req, FUInt8 syncseq, FPart params] \<Rightarrow>
         if req \<noteq> BrokerSyncReqst then retA ()
         else bs_replySnapshot P (pt_routing payload) syncseq (zmq_msg_init\<lparr>pt_data := params\<rparr>)
     | _ \<Rightarrow> liftA throwAccessError)" for fs
    by (auto split: list.split field.split intro: broker_frame.frame_simple store_reply)
  then show ?thesis
    unfolding bs_receiveWorkerCommand_def by (intro broker_frame.frame_bind broker_frame.frame_simple)
qed

lemma same_store_inv: "same_store s s' \<Longrightarrow> broker_inv s \<Longrightarrow> broker_inv s'"
  by (simp add: same_store_def broker_inv_def)

text \<open>A message of a worker stores at most the topic it carries.\<close>

lemma bs_collect_cases:
  assumes "bs_collectWorkerMessage P payload s = (r, s')"
  shows "same_store s s' \<or>
    (\<exists>t. Topic_fromPart (en_mem P) (en_arch P) payload = Inr t \<and> group_is payload WorkerUpdt \<and>
       same_store (snd (bs_storeTopic (withBroker (bs_uuid s) t) s)) s')"
proof (cases "group_is payload WorkerHugz \<or> \<not> group_is payload WorkerUpdt")
  case True
  then show ?thesis
    using assms by (auto simp: bs_collectWorkerMessage_def action_defs same_store_def split: if_splits)
next
  case False
  show ?thesis
  proof (cases "Topic_fromPart (en_mem P) (en_arch P) payload")
    case (Inl e)
    then show ?thesis using False assms by (auto simp: bs_collectWorkerMessage_def action_defs same_store_def)
  next
    case (Inr t)
    obtain b s1 where st: "bs_storeTopic (withBroker (bs_uuid s) t) s = (b, s1)"
      by (cases "bs_storeTopic (withBroker (bs_uuid s) t) s")
    have "(if b then bs_dispatchTopic P (withBroker (bs_uuid s) t) else retA ()) s1 = (r, s')"
      using False Inr assms st by (simp add: bs_collectWorkerMessage_def bindA_def liftA_def readA_def Let_def)
    then have "same_store s1 s'"
      using frameA_D [OF store_dispatch(1)] by (auto simp: retA_def same_store_def split: if_splits)
    then show ?thesis using Inr False st by auto
  qed
qed

lemma broker_inv_handle:
  assumes inv: "broker_inv s" and h: "bs_handle P ev s = (r, s')"
  shows "broker_inv s'"
proof (cases ev)
  case (BOperation oper)
  then have "same_store s s'" using h by (auto intro: frameA_D [OF store_operations])
  then show ?thesis using inv by (rule same_store_inv)
next
  case (BReady rd)
  show ?thesis
  proof (cases rd)
    case (BSnapshot payload)
    then have "same_store s s'" using h BReady by (auto intro: frameA_D [OF store_command])
    then show ?thesis using inv by (rule same_store_inv)
  next
    case (BDelivery payload)
    then have "bs_collectWorkerMessage P payload s = (r, s')" using h BReady by simp
    from bs_collect_cases [OF this] show ?thesis using inv same_store_inv broker_inv_storeTopic by blast
  next
    case BHugz
    have "frameA same_store (bs_socketReady P BHugz)"
      by (simp, intro store_intro) (simp add: same_store_def)
    then show ?thesis using h BReady BHugz inv frameA_D same_store_inv by (metis bs_handle.simps(2))
  qed
next
  case BClockHugz
  then show ?thesis using h inv by (auto simp: updA_def broker_inv_def)
qed

lemma bs_reach_inv: "bs_reach P s \<Longrightarrow> broker_inv s"
  by (induction rule: bs_reach.induct) (auto intro: broker_inv_new broker_inv_handle)

section \<open>Replies on any network\<close>

text \<open>With no empty cache, a reply is the sending of its parts, one after the other.\<close>

definition reply_parts :: "env \<Rightarrow> WorkerConfig \<Rightarrow> u32 \<Rightarrow> u8 \<Rightarrow> BrokerSession \<Rightarrow> Part result list" where
  "reply_parts P conf rouID syncseq s =
     [uuid_part P BrokerSyncBegin syncseq rouID (bs_uuid s)] @
     map (element_part P syncseq rouID) (snapshot_topics conf s) @
     [uuid_part P BrokerSyncCompl syncseq rouID (bs_uuid s)]"

lemma bs_replyElements_forA:
  assumes "\<forall>el\<in>set els. lru_list (snd el) \<noteq> []"
  shows "forA els (bs_replyElement P conf rouID syncseq) s =
    forA (map (element_part P syncseq rouID) (filter (wanted conf) (map (\<lambda>el. snd (last (lru_list (snd el)))) els)))
      (bs_trySend P) s"
  using assms
proof (induction els arbitrary: s)
  case Nil
  then show ?case by simp
next
  case (Cons el els)
  have "bs_replyElement P conf rouID syncseq el s =
    (if wanted conf (snd (last (lru_list (snd el))))
     then bs_trySend P (element_part P syncseq rouID (snd (last (lru_list (snd el))))) s else (Inr (), s))" for s
    using Cons.prems by (simp add: bs_replyElement_def action_defs Let_def element_part_def)
  then show ?case using Cons by (auto simp: thenA_def bindA_def split: prod.splits sum.splits)
qed

lemma bs_replyAll_forA:
  assumes "no_empty_cache s"
  shows "bs_replyAll P conf rouID syncseq s = forA (reply_parts P conf rouID syncseq s) (bs_trySend P) s"
proof -
  have st: "bs_storTopic s' = bs_storTopic s" if "bs_trySend P part s = (r, s')" for part r s'
    using frameA_D [OF store_trySend that] by (simp add: same_store_def)
  have els: "forA (lru_list (bs_storTopic s)) (bs_replyElement P conf rouID syncseq) s' =
      forA (map (element_part P syncseq rouID) (snapshot_topics conf s)) (bs_trySend P) s'" for s'
    unfolding snapshot_topics_def
    using assms by (intro bs_replyElements_forA) (auto simp: no_empty_cache_def)
  show ?thesis
    by (auto simp: bs_replyAll_def reply_parts_def uuid_part_def thenA_def bindA_def readA_def retA_def
        forA_append els split: prod.splits sum.splits dest!: st)
qed

text \<open>The answers of a network that loses peers and fills up, but has no other error.\<close>

definition soft_net :: "env \<Rightarrow> BrokerSession \<Rightarrow> bool" where
  "soft_net P s \<longleftrightarrow> sk_open (bs_zsnapshot s) \<and>
     (\<forall>k \<ge> io_sends (bs_io s).
        nt_send (en_net P) k \<in> {Sent, WouldBlock, SendError EHOSTUNREACH, SendError EAGAIN})"

lemma bs_trySend_soft:
  assumes "soft_net P s" and "builds part"
  obtains (sent) "nt_send (en_net P) (io_sends (bs_io s)) = Sent" "bs_trySend P part s = (Inr (), bs_sent [built part] s)"
  | (lost) e msg s' where "nt_send (en_net P) (io_sends (bs_io s)) \<noteq> Sent"
      "bs_trySend P part s = (Inl (Throw ZMQSocketSendFailed msg e), s')"
      "e = EHOSTUNREACH \<or> e = EAGAIN" "io_sent (bs_io s') = io_sent (bs_io s)"
proof -
  have opn: "sk_open (bs_zsnapshot s)" using assms(1) by (simp add: soft_net_def)
  obtain q where part: "part = Inr q" "built part = q"
    using assms(2) by (cases part) (auto simp: builds_def built_def)
  have "nt_send (en_net P) (io_sends (bs_io s)) \<in> {Sent, WouldBlock, SendError EHOSTUNREACH, SendError EAGAIN}"
    using assms(1) by (simp add: soft_net_def)
  then show thesis
    using that opn
    by (auto simp: part built_def bs_trySend_def bs_send_def sendMessagePart_def bs_sent_def bindA_def liftA_def retA_def Let_def)
qed

lemma soft_net_sent [simp]: "soft_net P s \<Longrightarrow> soft_net P (bs_sent ps s)"
  by (simp add: soft_net_def bs_sent_def)

lemma bs_trySends_soft:
  assumes "soft_net P s" and "\<forall>r\<in>set rs. builds r"
  shows "\<exists>k res s'. forA rs (bs_trySend P) s = (res, s') \<and> k \<le> length rs \<and>
    io_sent (bs_io s') = io_sent (bs_io s) @ map (Pair ChSnapshot \<circ> built) (take k rs) \<and>
    (res = Inr () \<and> k = length rs \<or>
     (\<exists>msg e. res = Inl (Throw ZMQSocketSendFailed msg e) \<and> (e = EHOSTUNREACH \<or> e = EAGAIN) \<and>
        \<not> net_takes P s))"
  using assms
proof (induction rs arbitrary: s)
  case Nil
  then show ?case by (simp add: retA_def)
next
  case (Cons r rs)
  have b: "builds r" using Cons.prems by simp
  from Cons.prems(1) b show ?case
  proof (cases rule: bs_trySend_soft)
    case sent
    have tk: "net_takes P s \<Longrightarrow> net_takes P (bs_sent [built r] s)" by simp
    obtain k res s' where
        "forA rs (bs_trySend P) (bs_sent [built r] s) = (res, s')" "k \<le> length rs"
        "io_sent (bs_io s') = io_sent (bs_io (bs_sent [built r] s)) @ map (Pair ChSnapshot \<circ> built) (take k rs)"
        "res = Inr () \<and> k = length rs \<or>
         (\<exists>msg e. res = Inl (Throw ZMQSocketSendFailed msg e) \<and> (e = EHOSTUNREACH \<or> e = EAGAIN) \<and>
            \<not> net_takes P (bs_sent [built r] s))"
      using Cons.IH [OF soft_net_sent [OF Cons.prems(1)], of "[built r]"] Cons.prems(2) by (metis list.set_intros(2))
    then show ?thesis
      using sent tk
      by (intro exI [of _ "Suc k"] exI [of _ res] exI [of _ s']) (auto simp: thenA_def bindA_def bs_sent_def)
  next
    case (lost e msg s')
    moreover have "\<not> net_takes P s" using lost(1) by (auto simp: net_takes_def)
    ultimately show ?thesis
      by (intro exI [of _ 0] exI [of _ "Inl (Throw ZMQSocketSendFailed msg e)"] exI [of _ s'])
        (auto simp: thenA_def bindA_def)
  qed
qed

lemma bs_replySnapshot_soft:
  assumes "no_empty_cache s" and "soft_net P s" and "\<forall>r\<in>set (reply_parts P conf rouID syncseq s). builds r"
    and "WorkerConfig_fromPart (en_mem P) (en_arch P) params = Inr conf"
  shows "\<exists>k s'. bs_replySnapshot P rouID syncseq params s = (Inr (), s') \<and>
    k \<le> length (reply_parts P conf rouID syncseq s) \<and>
    io_sent (bs_io s') = io_sent (bs_io s) @
      map (Pair ChSnapshot \<circ> built) (take k (reply_parts P conf rouID syncseq s)) \<and>
    (net_takes P s \<longrightarrow> k = length (reply_parts P conf rouID syncseq s))"
proof -
  obtain k res s' where k: "bs_replyAll P conf rouID syncseq s = (res, s')"
      "k \<le> length (reply_parts P conf rouID syncseq s)"
      "io_sent (bs_io s') = io_sent (bs_io s) @ map (Pair ChSnapshot \<circ> built) (take k (reply_parts P conf rouID syncseq s))"
      "res = Inr () \<and> k = length (reply_parts P conf rouID syncseq s) \<or>
       (\<exists>msg e. res = Inl (Throw ZMQSocketSendFailed msg e) \<and> (e = EHOSTUNREACH \<or> e = EAGAIN) \<and> \<not> net_takes P s)"
    using bs_trySends_soft [OF assms(2,3)] unfolding bs_replyAll_forA [OF assms(1)] by blast
  have "bs_replySnapshot P rouID syncseq params s = (Inr (), s')"
    using k(1,4) assms(4) by (auto simp: bs_replySnapshot_def bindA_def liftA_def catch_send_def)
  then show ?thesis using k by blast
qed

text \<open>The parts of a reply build when there is memory, a routing id and no enormous topic.\<close>

lemma withRoutingID_builds: "rouID \<noteq> 0 \<Longrightarrow> withRoutingID rouID p = Inr (p\<lparr>pt_routing := rouID\<rparr>)"
  by (simp add: withRoutingID_def setRoutingID_def zmq_msg_set_routing_id_def)

lemma reply_part_builds:
  assumes "allocator_ok (en_mem P)" and "\<forall>n. en_mem P n \<noteq> None" and "rouID \<noteq> 0"
    and "length reply < 100" and "params = Inr q" and "length (pt_data q) < 2 ^ 32"
  shows "builds (reply_part P reply syncseq rouID params)"
proof -
  obtain p where "pack (en_mem P) (en_arch P) [FString reply, FUInt8 syncseq, FPart (pt_data q)] = Inr p"
    using pack_Inr_iff [OF assms(1), of "[FString reply, FUInt8 syncseq, FPart (pt_data q)]" "en_arch P"] assms(2-)
    by simp
  then show ?thesis using assms(3,5) by (simp add: reply_part_def builds_def withRoutingID_builds)
qed

lemma uuid_part_builds:
  assumes "allocator_ok (en_mem P)" and "\<forall>n. en_mem P n \<noteq> None" and "rouID \<noteq> 0" and "uuid_ok u"
    and "length rep < 100"
  shows "builds (uuid_part P rep syncseq rouID u)"
proof -
  have "Uuid_toPart (en_mem P) (en_arch P) u = Inr (zmq_msg_init\<lparr>pt_data := u\<rparr>)"
    using pack_Inr_iff [OF assms(1), of "[FArray u]" "en_arch P"] assms(2,4)
    by (simp add: Uuid_toPart_def uuid_ok_def)
  then show ?thesis
    unfolding uuid_part_def using assms by (intro reply_part_builds) (auto simp: uuid_ok_def)
qed

lemma element_part_builds:
  assumes mem: "allocator_ok (en_mem P)" "\<forall>n. en_mem P n \<noteq> None" and rou: "rouID \<noteq> 0"
    and ok: "topic_ok t" and len: "length (pt_data (tp_data t)) < 2 ^ 32 - 400"
  shows "builds (element_part P syncseq rouID t)"
proof -
  have n: "length (Name_str (tp_name t)) \<le> 255" "uuid_ok (tp_broker t)" "uuid_ok (tp_worker t)"
    using ok length_Name_str [of "tp_name t"] by (auto simp: topic_ok_def)
  have f: "length (fields_bytes (en_arch P) (topic_fields t)) < 2 ^ 32"
    using n len by (simp add: topic_fields_def uuid_ok_def)
  have sh: "list_all field_short (topic_fields t)" using n len by (simp add: topic_fields_def uuid_ok_def)
  have "Topic_toPart (en_mem P) (en_arch P) t =
      Inr (zmq_msg_init\<lparr>pt_data := fields_bytes (en_arch P) (topic_fields t)\<rparr>)"
    unfolding Topic_toPart_fields pack_Inr_iff [OF mem(1) topic_fields_ok [OF ok]] using mem f sh by simp
  then show ?thesis
    unfolding element_part_def
    using mem rou f by (intro reply_part_builds) (auto simp: session_env str_def)
qed

lemma reply_parts_build:
  assumes "allocator_ok (en_mem P)" "\<forall>n. en_mem P n \<noteq> None" and "rouID \<noteq> 0" and "uuid_ok (bs_uuid s)"
    and "\<forall>t\<in>set (snapshot_topics conf s). topic_ok t \<and> length (pt_data (tp_data t)) < 2 ^ 32 - 400"
  shows "\<forall>r\<in>set (reply_parts P conf rouID syncseq s). builds r"
  using assms by (auto simp: reply_parts_def session_env str_def intro: uuid_part_builds element_part_builds)

section \<open>Properties\<close>

text \<open>C8: What a broker lets through. For every worker, the sequence numbers of the topics that a broker
  accepts increase strictly and start above the last number known, whatever comes in between, as
  long as the 64 workers it remembers are not exceeded: duplicates and old topics are dropped.\<close>

theorem broker_increasing:
  assumes "bs_reach P s" and "run_all bs_worker_room bs_storeTopic ts s"
  shows "sorted_wrt (<) (bs_lastSeqNum s w #
      map tp_seqn (filter (\<lambda>t. tp_worker t = w) (fst (filter_run bs_storeTopic ts s)))) \<and>
    bs_lastSeqNum s w \<le> bs_lastSeqNum (snd (filter_run bs_storeTopic ts s)) w"
  using broker_filter.run_increasing [OF bs_reach_inv [OF assms(1)] assms(2)]
    broker_filter.run_last_mono [OF bs_reach_inv [OF assms(1)] assms(2)] by blast

definition sample_broker :: BrokerSession where
  "sample_broker = BrokerSession_new (replicate 16 1)"

lemma broker_increasing_witness:
  "sorted_wrt (<) (bs_lastSeqNum sample_broker (replicate 16 2) #
      map tp_seqn (filter (\<lambda>t. tp_worker t = replicate 16 2)
        (fst (filter_run bs_storeTopic [sample_topic, sample_topic] sample_broker))))"
proof -
  have "bs_worker_room t sample_broker" for t
    by (simp add: bs_worker_room_def sample_broker_def BrokerSession_new_def LRUCache_new_def lru_size_def)
  moreover have "bs_worker_room sample_topic (snd (bs_storeTopic sample_topic sample_broker))"
  proof -
    have "fst (bs_storeTopic sample_topic sample_broker)"
      by (simp add: bs_storeTopic_fst bs_lastSeqNum_def sample_broker_def BrokerSession_new_def sample_topic_def)
    then show ?thesis
      using lru.look_put_same [of "bs_storWorker sample_broker" "tp_worker sample_topic" "tp_seqn sample_topic"]
      by (simp add: bs_worker_room_def bs_storeTopic_worker sample_broker_def BrokerSession_new_def)
  qed
  ultimately have "run_all bs_worker_room bs_storeTopic [sample_topic, sample_topic] sample_broker" by simp
  moreover have "bs_reach sample_env sample_broker" unfolding sample_broker_def by (rule bs_reach.init)
  ultimately show ?thesis using broker_increasing by blast
qed

text \<open>C27: The storage of a broker. In every reachable state it has at most 1024 names, at most 8 topics
  of each, every one under its own worker and of that name, and at most 64 sequence numbers.\<close>

theorem broker_storage:
  assumes "bs_reach P s"
  shows "lru_size (bs_storTopic s) \<le> 1024 \<and> lru_size (bs_storWorker s) \<le> 64 \<and>
    (\<forall>(n, c)\<in>set (lru_list (bs_storTopic s)). lru_size c \<le> 8 \<and>
       (\<forall>(w, t)\<in>set (lru_list c). tp_worker t = w \<and> tp_name t = n))"
proof -
  have inv: "broker_inv s" using assms by (rule bs_reach_inv)
  then have "lru_size (bs_storTopic s) \<le> 1024" "lru_size (bs_storWorker s) \<le> 64"
    using lru_size_le [of "bs_storTopic s"] lru_size_le [of "bs_storWorker s"] by (simp_all add: broker_inv_def)
  moreover have "lru_size c \<le> 8 \<and> (\<forall>(w, t)\<in>set (lru_list c). tp_worker t = w \<and> tp_name t = n)"
    if "cache_of n c" for n c
    using that lru_size_le [of c] by (simp add: cache_of_def)
  ultimately show ?thesis using inv unfolding broker_inv_def by blast
qed

lemma broker_storage_witness: "lru_size (bs_storTopic sample_broker) \<le> 1024"
  using broker_storage [OF bs_reach.init [of sample_env "replicate 16 1"]] by (simp add: sample_broker_def)

text \<open>C26: Storing a topic. A topic is accepted exactly when its number is above the last one of its worker;
  it is then the last of its name, found under its worker, and its number is remembered. A refused
  topic leaves the numbers as they are.\<close>

theorem broker_stores:
  assumes "bs_reach P s" and "bs_storeTopic t s = (acc, s')"
  shows "(acc \<longleftrightarrow> bs_lastSeqNum s (tp_worker t) < tp_seqn t) \<and>
    (acc \<longrightarrow> bs_lastSeqNum s' (tp_worker t) = tp_seqn t \<and>
       (\<exists>c. lru_lookup (bs_storTopic s') (tp_name t) = Some c \<and> last (lru_list c) = (tp_worker t, t) \<and>
          lru_lookup c (tp_worker t) = Some t)) \<and>
    (\<not> acc \<longrightarrow> bs_storWorker s' = bs_storWorker s)"
proof -
  have inv: "broker_inv s" using assms(1) by (rule bs_reach_inv)
  have "bs_storWorker s' = bs_storWorker s" if "\<not> acc"
    using that bs_storeTopic_worker [of t s] assms(2) by simp
  then show ?thesis
    using bs_storeTopic_fst [of t s] bs_storeTopic_accepted [OF inv, of t s']
      broker_filter.accept_key [OF inv, of t] assms(2) by auto
qed

lemma broker_stores_witness:
  "bs_lastSeqNum (snd (bs_storeTopic sample_topic sample_broker)) (replicate 16 2) = 3"
proof -
  obtain acc s' where st: "bs_storeTopic sample_topic sample_broker = (acc, s')"
    by (cases "bs_storeTopic sample_topic sample_broker")
  have "bs_lastSeqNum sample_broker (tp_worker sample_topic) < tp_seqn sample_topic"
    by (simp add: bs_lastSeqNum_def sample_broker_def BrokerSession_new_def sample_topic_def)
  then show ?thesis
    using broker_stores [OF bs_reach.init [of sample_env "replicate 16 1"], folded sample_broker_def, OF st] st
    by (simp add: sample_topic_def)
qed


lemma sample_worker_config_part:
  "\<exists>q. WorkerConfig_toPart calloc little sample_worker_config = Inr q \<and>
     WorkerConfig_fromPart calloc little q = Inr sample_worker_config"
proof -
  obtain q where "WorkerConfig_toPart calloc little sample_worker_config = Inr q" using sample_configs_pack by blast
  then show ?thesis
    using worker_config.dec_enc [OF calloc_ok(1) refl sample_configs_ok(1), of calloc little q] by auto
qed

definition open_broker :: BrokerSession where
  "open_broker = sample_broker\<lparr>bs_zsnapshot := Socket_new\<lparr>sk_open := True\<rparr>\<rparr>"

lemma open_broker_store [simp]: "bs_storTopic open_broker = LRUCache_new 1024" "bs_uuid open_broker = replicate 16 1"
  "bs_io open_broker = io_init" "sk_open (bs_zsnapshot open_broker)"
  by (simp_all add: open_broker_def sample_broker_def BrokerSession_new_def)


text \<open>C23: The empty cache. A refused topic of a name the broker does not have leaves that name in the
  storage with an empty cache, and the next snapshot request then fails the assertion on it and
  aborts the process. A first topic with sequence number 0 is enough.\<close>

theorem broker_empty_cache_aborts:
  assumes "broker_inv s" and "bs_storeTopic t s = (False, s')" and "lru_lookup (bs_storTopic s) (tp_name t) = None"
    and "net_takes P s'" and "WorkerConfig_fromPart (en_mem P) (en_arch P) params = Inr conf"
    and "allocator_ok (en_mem P)" and "\<forall>n. en_mem P n \<noteq> None" and "rouID \<noteq> 0" and "uuid_ok (bs_uuid s')"
    and "\<forall>el\<in>set (lru_list (bs_storTopic s')). lru_list (snd el) \<noteq> [] \<longrightarrow>
      topic_ok (snd (last (lru_list (snd el)))) \<and>
      length (pt_data (tp_data (snd (last (lru_list (snd el)))))) < 2 ^ 32 - 400"
  shows "fst (bs_replySnapshot P rouID syncseq params s') = Inl (Abort ''topic entry has empty cache'')"
proof -
  have inv': "lru_inv (bs_storTopic s')"
    using broker_inv_storeTopic [OF assms(1), of t] assms(2) by (simp add: broker_inv_def)
  have "(tp_name t, LRUCache_new 8) \<in> set (lru_list (bs_storTopic s'))"
    using bs_storeTopic_refused_new [OF assms(1-3)] inv' by (simp add: lru_lookup_list) (rule map_of_SomeD)
  moreover have "builds (element_part P syncseq rouID (snd (last (lru_list (snd el)))))"
    if "el \<in> set (lru_list (bs_storTopic s'))" "lru_list (snd el) \<noteq> []" for el
    using that assms(6-8,10) by (intro element_part_builds) auto
  ultimately have els: "fst (forA (lru_list (bs_storTopic s')) (bs_replyElement P conf rouID syncseq) s1) =
      Inl (Abort ''topic entry has empty cache'')" if "net_takes P s1" for s1
    using that by (intro bs_replyElements_abort) auto
  have b: "builds (uuid_part P BrokerSyncBegin syncseq rouID (bs_uuid s'))"
    using assms(6-9) by (intro uuid_part_builds) (auto simp: session_env str_def)
  define q where "q = built (uuid_part P BrokerSyncBegin syncseq rouID (bs_uuid s'))"
  have sendb: "bs_trySend P (uuid_part P BrokerSyncBegin syncseq rouID (bs_uuid s')) s' = (Inr (), bs_sent [q] s')"
    using bs_trySend_ok [OF assms(4), of q] builds_Inr [OF b] by (simp add: q_def)
  have net1: "net_takes P (bs_sent [q] s')" using assms(4) by simp
  obtain s2 where "forA (lru_list (bs_storTopic s')) (bs_replyElement P conf rouID syncseq) (bs_sent [q] s') =
      (Inl (Abort ''topic entry has empty cache''), s2)"
    using els [OF net1] by (metis prod.collapse)
  then have "bs_replyAll P conf rouID syncseq s' = (Inl (Abort ''topic entry has empty cache''), s2)"
    using sendb by (simp add: bs_replyAll_def uuid_part_def thenA_def bindA_def readA_def)
  then show ?thesis using assms(5) by (simp add: bs_replySnapshot_def bindA_def liftA_def catch_send_def)
qed

lemma broker_empty_cache_aborts_witness:
  "\<exists>q. fst (bs_replySnapshot sample_env 5 1 q (snd (bs_storeTopic (withSeqNum 0 sample_topic) open_broker))) =
     Inl (Abort ''topic entry has empty cache'')"
proof -
  let ?t = "withSeqNum 0 sample_topic"
  obtain q where "WorkerConfig_fromPart calloc little q = Inr sample_worker_config"
    using sample_worker_config_part by blast
  then have q: "WorkerConfig_fromPart (en_mem sample_env) (en_arch sample_env) q = Inr sample_worker_config" by simp
  have inv: "broker_inv open_broker"
    using broker_inv_new(1) [of "replicate 16 1"] by (simp add: broker_inv_def open_broker_def sample_broker_def)
  obtain acc s' where st: "bs_storeTopic ?t open_broker = (acc, s')" by (cases "bs_storeTopic ?t open_broker")
  have nacc: "\<not> acc" using bs_storeTopic_fst [of ?t open_broker] st by (simp add: withSeqNum_def)
  have s': "s' = open_broker\<lparr>bs_storTopic := snd (lru_put (tp_name ?t) (LRUCache_new 8) (LRUCache_new 1024))\<rparr>"
    using st nacc
    by (auto simp: bs_storeTopic_def bs_topicCache_def lru_find_def LRUCache_new_def Let_def split: prod.splits if_splits)
  have ls: "lru_list (bs_storTopic s') = [(tp_name ?t, LRUCache_new 8)]"
    by (simp add: s' lru_list_put acache_put_def)
  have look: "lru_lookup (bs_storTopic open_broker) (tp_name ?t) = None" by simp
  have net: "net_takes sample_env s'" by (simp add: s' net_takes_def)
  have u: "uuid_ok (bs_uuid s')" by (simp add: s' uuid_ok_def)
  have els: "\<forall>el\<in>set (lru_list (bs_storTopic s')). lru_list (snd el) \<noteq> [] \<longrightarrow>
      topic_ok (snd (last (lru_list (snd el)))) \<and>
      length (pt_data (tp_data (snd (last (lru_list (snd el)))))) < 2 ^ 32 - 400"
    by (simp add: ls)
  have mem: "allocator_ok (en_mem sample_env)" "\<forall>n. en_mem sample_env n \<noteq> None" by simp_all
  have "bs_storeTopic ?t open_broker = (False, s')" using st nacc by simp
  from broker_empty_cache_aborts [OF inv this look net q mem _ u els, of 5 1] st show ?thesis by auto
qed

end
