(* ===== verification/Fuurin_Connmachine.thy ===== *)
theory Fuurin_Connmachine
  imports Fuurin_Timer
begin

text \<open>
  The connection state machine, \<^verbatim>\<open>src/connmachine.h\<close> and \<^verbatim>\<open>src/connmachine.cpp\<close>. Its owner's
  functions are parameters: each handler is an action on the machine and on the owner's state, so
  the order of the calls and what an exception of one of them leaves behind are those of the code.
\<close>

section \<open>The machine\<close>

datatype conn_state = Halted | Trying | Stable

record ConnMachine =
  cm_timerTry :: Timer
  cm_timerTmo :: Timer
  cm_state :: conn_state

record 'e conn_funcs =
  cf_doClose :: "('e, unit) action"
  cf_doOpen :: "('e, unit) action"
  cf_doPong :: "('e, unit) action"
  cf_onChange :: "conn_state \<Rightarrow> ('e, unit) action"

type_synonym 'e conn_action = "(ConnMachine \<times> 'e, unit) action"

definition cm_change :: "'e conn_funcs \<Rightarrow> conn_state \<Rightarrow> 'e conn_action" where
  "cm_change cb st =
     whenA (\<lambda>(m, e). cm_state m \<noteq> st)
       (thenA (ownA (\<lambda>m. m\<lparr>cm_state := st\<rparr>)) (callA (cf_onChange cb st)))"

definition cm_trigger :: "'e conn_funcs \<Rightarrow> 'e conn_action" where
  "cm_trigger cb =
     thenA (ownA (cm_timerTry_update Timer_start))
     (thenA (ownA (cm_timerTmo_update Timer_start))
     (thenA (cm_change cb Trying)
     (thenA (callA (cf_doClose cb))
     (thenA (callA (cf_doOpen cb))
     (callA (cf_doPong cb))))))"

definition cm_halt :: "'e conn_funcs \<Rightarrow> 'e conn_action" where
  "cm_halt cb =
     thenA (ownA (cm_timerTry_update Timer_stop))
     (thenA (ownA (cm_timerTmo_update Timer_stop))
     (thenA (callA (cf_doClose cb))
     (cm_change cb Halted)))"

definition ConnMachine_init :: "int \<Rightarrow> int \<Rightarrow> ConnMachine" where
  "ConnMachine_init retry timeout =
     \<lparr>cm_timerTry = Timer_setInterval retry (Timer_setSingleShot False Timer_new),
      cm_timerTmo = Timer_setInterval timeout (Timer_setSingleShot True Timer_new),
      cm_state = Halted\<rparr>"

text \<open>The constructor: the members, then \<^verbatim>\<open>halt()\<close>.\<close>

definition ConnMachine_new :: "'e conn_funcs \<Rightarrow> int \<Rightarrow> int \<Rightarrow> 'e \<Rightarrow> unit result \<times> ConnMachine \<times> 'e" where
  "ConnMachine_new cb retry timeout e = cm_halt cb (ConnMachine_init retry timeout, e)"

definition cm_onStart :: "'e conn_funcs \<Rightarrow> 'e conn_action" where
  "cm_onStart cb = whenA (\<lambda>(m, e). cm_state m = Halted) (cm_trigger cb)"

definition cm_onStop :: "'e conn_funcs \<Rightarrow> 'e conn_action" where
  "cm_onStop cb = whenA (\<lambda>(m, e). cm_state m \<noteq> Halted) (cm_halt cb)"

definition cm_onPing :: "'e conn_funcs \<Rightarrow> 'e conn_action" where
  "cm_onPing cb =
     whenA (\<lambda>(m, e). cm_state m \<noteq> Halted)
       (thenA (ownA (cm_timerTry_update Timer_stop))
       (thenA (ownA (cm_timerTmo_update Timer_start))
       (thenA (cm_change cb Stable)
       (callA (cf_doPong cb)))))"

definition cm_onTimerRetryFired :: "'e conn_funcs \<Rightarrow> 'e conn_action" where
  "cm_onTimerRetryFired cb =
     thenA (ownA (cm_timerTry_update Timer_take))
       (whenA (\<lambda>(m, e). cm_state m \<noteq> Halted \<and> cm_state m \<noteq> Stable) (callA (cf_doPong cb)))"

definition cm_onTimerTimeoutFired :: "'e conn_funcs \<Rightarrow> 'e conn_action" where
  "cm_onTimerTimeoutFired cb =
     thenA (ownA (cm_timerTmo_update Timer_take))
       (whenA (\<lambda>(m, e). cm_state m \<noteq> Halted) (cm_trigger cb))"

section \<open>Runs\<close>

text \<open>What can happen to a machine: its handlers are called, or the clock of a timer runs out.\<close>

datatype conn_event = CStart | CStop | CPing | CRetryFired | CTimeoutFired | CClockTry | CClockTmo

fun conn_handle :: "'e conn_funcs \<Rightarrow> conn_event \<Rightarrow> 'e conn_action" where
  "conn_handle cb CStart = cm_onStart cb"
| "conn_handle cb CStop = cm_onStop cb"
| "conn_handle cb CPing = cm_onPing cb"
| "conn_handle cb CRetryFired = cm_onTimerRetryFired cb"
| "conn_handle cb CTimeoutFired = cm_onTimerTimeoutFired cb"
| "conn_handle cb CClockTry = ownA (cm_timerTry_update Timer_fire)"
| "conn_handle cb CClockTmo = ownA (cm_timerTmo_update Timer_fire)"

inductive conn_reach :: "'e conn_funcs \<Rightarrow> ConnMachine \<times> 'e \<Rightarrow> bool" for cb where
  init: "ConnMachine_new cb retry timeout e = (Inr (), s) \<Longrightarrow> conn_reach cb s"
| step: "conn_reach cb s \<Longrightarrow> conn_handle cb ev s = (Inr (), s') \<Longrightarrow> conn_reach cb s'"

text \<open>
  The invariant. A machine that is not halted always has its timeout running, or its expiry
  waiting to be handled: it cannot get stuck. It retries exactly while it is trying.
\<close>

definition conn_inv :: "ConnMachine \<Rightarrow> bool" where
  "conn_inv m \<longleftrightarrow>
     timer_inv (cm_timerTry m) \<and> timer_inv (cm_timerTmo m) \<and>
     \<not> tm_singleshot (cm_timerTry m) \<and> tm_singleshot (cm_timerTmo m) \<and>
     (Timer_isActive (cm_timerTry m) \<longleftrightarrow> cm_state m = Trying) \<and>
     (cm_state m = Halted \<longrightarrow> \<not> Timer_isActive (cm_timerTmo m)) \<and>
     (cm_state m \<noteq> Halted \<longrightarrow>
        Timer_isActive (cm_timerTmo m) \<or> Timer_isExpired (cm_timerTmo m))"

section \<open>Lemmas\<close>

named_theorems conn_defs \<open>unfolding of the handlers\<close>

lemmas conn_op_defs [conn_defs] =
  cm_change_def cm_trigger_def cm_halt_def cm_onStart_def cm_onStop_def cm_onPing_def
  cm_onTimerRetryFired_def cm_onTimerTimeoutFired_def ConnMachine_new_def

lemma cm_change_machine:
  "cm_change cb st (m, e) = (Inr x, s') \<Longrightarrow> fst s' = m\<lparr>cm_state := st\<rparr>"
  by (auto simp: cm_change_def action_Inr split: if_splits)

text \<open>What each handler does to the machine when it returns.\<close>

lemma cm_trigger_machine:
  "cm_trigger cb (m, e) = (Inr x, s') \<Longrightarrow>
     fst s' = m\<lparr>cm_timerTry := Timer_start (cm_timerTry m), cm_timerTmo := Timer_start (cm_timerTmo m),
              cm_state := Trying\<rparr>"
  by (cases s') (auto simp: cm_trigger_def action_Inr dest!: cm_change_machine)

lemma cm_halt_machine:
  "cm_halt cb (m, e) = (Inr x, s') \<Longrightarrow>
     fst s' = m\<lparr>cm_timerTry := Timer_stop (cm_timerTry m), cm_timerTmo := Timer_stop (cm_timerTmo m),
              cm_state := Halted\<rparr>"
  by (cases s') (auto simp: cm_halt_def action_Inr dest!: cm_change_machine)

lemma cm_onPing_machine:
  "cm_onPing cb (m, e) = (Inr x, s') \<Longrightarrow>
     fst s' = (if cm_state m = Halted then m
       else m\<lparr>cm_timerTry := Timer_stop (cm_timerTry m), cm_timerTmo := Timer_start (cm_timerTmo m),
              cm_state := Stable\<rparr>)"
  by (cases s') (auto simp: cm_onPing_def action_Inr dest!: cm_change_machine split: if_splits)

lemma cm_onTimerRetryFired_machine:
  "cm_onTimerRetryFired cb (m, e) = (Inr x, s') \<Longrightarrow>
     fst s' = m\<lparr>cm_timerTry := Timer_take (cm_timerTry m)\<rparr>"
  by (cases s') (auto simp: cm_onTimerRetryFired_def action_Inr split: if_splits)

lemma conn_inv_init: "ConnMachine_new cb retry timeout e = (Inr x, s') \<Longrightarrow> conn_inv (fst s')"
  by (auto simp: ConnMachine_new_def ConnMachine_init_def conn_inv_def
      Timer_setInterval_def Timer_setSingleShot_def dest!: cm_halt_machine)
    (auto simp: timer_inv_def timer_defs Timer_new_def)

lemma conn_inv_step:
  assumes "conn_inv m" and "conn_handle cb ev (m, e) = (Inr x, s')"
  shows "conn_inv (fst s')"
proof (cases ev)
  case CStart
  then show ?thesis
    using assms by (auto simp: conn_inv_def cm_onStart_def action_Inr dest!: cm_trigger_machine split: if_splits)
next
  case CStop
  then show ?thesis
    using assms by (auto simp: conn_inv_def cm_onStop_def action_Inr dest!: cm_halt_machine split: if_splits)
next
  case CPing
  then show ?thesis
    using assms by (auto simp: conn_inv_def dest!: cm_onPing_machine split: if_splits)
next
  case CRetryFired
  then show ?thesis
    using assms by (auto simp: conn_inv_def dest!: cm_onTimerRetryFired_machine)
next
  case CTimeoutFired
  then show ?thesis
    using assms
    by (auto simp: conn_inv_def cm_onTimerTimeoutFired_def action_Inr dest!: cm_trigger_machine split: if_splits)
next
  case CClockTry
  then show ?thesis
    using assms Timer_fire_active [of "cm_timerTry m"] Timer_fire_inactive [of "cm_timerTry m"]
    by (cases "Timer_isActive (cm_timerTry m)") (auto simp: conn_inv_def)
next
  case CClockTmo
  then show ?thesis
    using assms Timer_fire_active [of "cm_timerTmo m"] Timer_fire_inactive [of "cm_timerTmo m"]
    by (cases "Timer_isActive (cm_timerTmo m)") (auto simp: conn_inv_def)
qed

lemma conn_reach_inv: "conn_reach cb s \<Longrightarrow> conn_inv (fst s)"
proof (induction rule: conn_reach.induct)
  case (init retry timeout e s)
  then show ?case by (rule conn_inv_init)
next
  case (step s ev s')
  then show ?case using conn_inv_step by (cases s) fastforce
qed

section \<open>Specification\<close>

text \<open>The automaton of the class comment, and the calls each transition makes, in order.\<close>

fun conn_next :: "conn_state \<Rightarrow> conn_event \<Rightarrow> conn_state" where
  "conn_next Halted CStart = Trying"
| "conn_next st CStop = Halted"
| "conn_next st CPing = (if st = Halted then Halted else Stable)"
| "conn_next st CTimeoutFired = (if st = Halted then Halted else Trying)"
| "conn_next st _ = st"

datatype conn_call = DoClose | DoOpen | DoPong | OnChange conn_state

fun conn_calls :: "conn_state \<Rightarrow> conn_event \<Rightarrow> conn_call list" where
  "conn_calls Halted CStart = [OnChange Trying, DoClose, DoOpen, DoPong]"
| "conn_calls Trying CStop = [DoClose, OnChange Halted]"
| "conn_calls Stable CStop = [DoClose, OnChange Halted]"
| "conn_calls Trying CPing = [OnChange Stable, DoPong]"
| "conn_calls Stable CPing = [DoPong]"
| "conn_calls Trying CRetryFired = [DoPong]"
| "conn_calls Trying CTimeoutFired = [DoClose, DoOpen, DoPong]"
| "conn_calls Stable CTimeoutFired = [OnChange Trying, DoClose, DoOpen, DoPong]"
| "conn_calls _ _ = []"

fun run_conn_call :: "'e conn_funcs \<Rightarrow> conn_call \<Rightarrow> ('e, unit) action" where
  "run_conn_call cb DoClose = cf_doClose cb"
| "run_conn_call cb DoOpen = cf_doOpen cb"
| "run_conn_call cb DoPong = cf_doPong cb"
| "run_conn_call cb (OnChange st) = cf_onChange cb st"

lemma conn_handle_next:
  assumes "conn_handle cb ev (m, e) = (Inr x, s')"
  shows "cm_state (fst s') = conn_next (cm_state m) ev"
proof (cases ev)
  case CPing
  with assms show ?thesis by (auto dest!: cm_onPing_machine)
next
  case CRetryFired
  with assms show ?thesis by (auto dest!: cm_onTimerRetryFired_machine)
qed (use assms in \<open>cases "cm_state m"; auto simp: cm_onStart_def cm_onStop_def
  cm_onTimerTimeoutFired_def action_Inr dest!: cm_trigger_machine cm_halt_machine split: if_splits\<close>)+

text \<open>
  For any functions of the owner: a handler ends as the sequence of its calls ends, with the same
  error if one of them throws, and leaves the owner as that sequence does.
\<close>

lemma conn_handle_calls:
  "(case conn_handle cb ev (m, e) of (r, m', e') \<Rightarrow> (r, e')) =
     forA (conn_calls (cm_state m) ev) (run_conn_call cb) e"
  by (cases ev; cases "cm_state m")
    (auto simp: conn_defs action_defs split: prod.splits sum.splits)

section \<open>Properties\<close>

text \<open>The connection machine never gets stuck. In every reachable state, whatever the functions of the
  owner do, a machine that is not halted has its timeout running or expired and waiting to be
  handled, it retries exactly while it is trying, and a halted machine has no timer running.\<close>

theorem conn_never_stuck:
  assumes "conn_reach cb s"
  shows "(Timer_isActive (cm_timerTry (fst s)) \<longleftrightarrow> cm_state (fst s) = Trying) \<and>
    (if cm_state (fst s) = Halted then \<not> Timer_isActive (cm_timerTmo (fst s))
     else Timer_isActive (cm_timerTmo (fst s)) \<or> Timer_isExpired (cm_timerTmo (fst s)))"
  using conn_reach_inv [OF assms] by (simp add: conn_inv_def)

text \<open>Functions that record their calls.\<close>

definition conn_log :: "conn_call list conn_funcs" where
  "conn_log = \<lparr>cf_doClose = (\<lambda>l. (Inr (), l @ [DoClose])), cf_doOpen = (\<lambda>l. (Inr (), l @ [DoOpen])),
     cf_doPong = (\<lambda>l. (Inr (), l @ [DoPong])), cf_onChange = (\<lambda>st l. (Inr (), l @ [OnChange st]))\<rparr>"

definition conn_sample :: "ConnMachine \<times> conn_call list" where
  "conn_sample = snd (conn_handle conn_log CStart (snd (ConnMachine_new conn_log 500 3000 [])))"

lemma conn_sample_reach: "conn_reach conn_log conn_sample"
proof -
  have "ConnMachine_new conn_log 500 3000 [] = (Inr (), snd (ConnMachine_new conn_log 500 3000 []))"
    by (simp add: conn_log_def conn_defs action_defs ConnMachine_init_def)
  moreover have "conn_handle conn_log CStart (snd (ConnMachine_new conn_log 500 3000 [])) = (Inr (), conn_sample)"
    by (simp add: conn_sample_def conn_log_def conn_defs action_defs ConnMachine_init_def)
  ultimately show ?thesis by (meson conn_reach.intros)
qed

lemma conn_never_stuck_witness:
  "cm_state (fst conn_sample) = Trying \<and> Timer_isActive (cm_timerTry (fst conn_sample))"
  using conn_never_stuck [OF conn_sample_reach]
  by (simp add: conn_sample_def conn_log_def conn_defs action_defs ConnMachine_init_def)

text \<open>C13: The connection machine refines its automaton. Every handler makes exactly the calls the
  automaton lists, in that order, ends with the error of the first of them that throws, and when
  none does the machine is in the automaton's next state.\<close>

theorem conn_refines:
  "(case conn_handle cb ev (m, e) of (r, m', e') \<Rightarrow> (r, e')) =
      forA (conn_calls (cm_state m) ev) (run_conn_call cb) e \<and>
   (fst (conn_handle cb ev (m, e)) = Inr () \<longrightarrow>
      cm_state (fst (snd (conn_handle cb ev (m, e)))) = conn_next (cm_state m) ev)"
proof -
  have "cm_state (fst (snd (conn_handle cb ev (m, e)))) = conn_next (cm_state m) ev"
    if "fst (conn_handle cb ev (m, e)) = Inr ()"
    using that conn_handle_next [of cb ev m e "()" "snd (conn_handle cb ev (m, e))"]
    by (metis prod.collapse)
  then show ?thesis by (intro conjI impI conn_handle_calls)
qed

lemma conn_refines_witness:
  "cm_state (fst (snd (conn_handle conn_log CPing (fst conn_sample, [])))) = Stable"
proof -
  have "fst (conn_handle conn_log CPing (fst conn_sample, [])) = Inr () \<and> cm_state (fst conn_sample) = Trying"
    by (simp add: conn_sample_def conn_log_def conn_defs action_defs ConnMachine_init_def)
  then show ?thesis using conn_refines [of conn_log CPing "fst conn_sample" "[]"] by simp
qed

end
