(* ===== verification/Fuurin_Syncmachine.thy ===== *)
theory Fuurin_Syncmachine
  imports Fuurin_Timer
begin

text \<open>
  The synchronization state machine, \<^verbatim>\<open>src/syncmachine.h\<close> and \<^verbatim>\<open>src/syncmachine.cpp\<close>, with
  the functions of its owner as parameters. Indexes and counters are C++ \<^verbatim>\<open>int\<close>s, which are shown
  never to overflow; the sequence number of a request is 8 bits wide and wraps.
\<close>

section \<open>The machine\<close>

datatype sync_state = SyHalted | SyDownload | SyFailed | SySynced

datatype reply_type = Snapshot | Complete

datatype reply_result = Unexpected | Discarded | Accepted

record SyncMachine =
  sm_indexMax :: int
  sm_retryMax :: int
  sm_timerTmo :: Timer
  sm_state :: sync_state
  sm_indexCurr :: int
  sm_indexNext :: int
  sm_retryCurr :: int
  sm_seqNum :: u8

record 'e sync_funcs =
  sf_doClose :: "int \<Rightarrow> ('e, unit) action"
  sf_doOpen :: "int \<Rightarrow> ('e, unit) action"
  sf_doSync :: "int \<Rightarrow> u8 \<Rightarrow> ('e, unit) action"
  sf_onChange :: "sync_state \<Rightarrow> ('e, unit) action"

type_synonym 'e sync_action = "(SyncMachine \<times> 'e, unit) action"

definition INT_MAX :: int where
  "INT_MAX = 2 ^ 31 - 1"

definition setNextIndex :: "int \<Rightarrow> SyncMachine \<Rightarrow> SyncMachine" where
  "setNextIndex index m =
     (let i = (if index < 0 then 0 else index) in m\<lparr>sm_indexNext := i mod (sm_indexMax m + 1)\<rparr>)"

definition sm_close :: "'e sync_funcs \<Rightarrow> int \<Rightarrow> 'e sync_action" where
  "sm_close cb index = (if index < 0 then retA () else callA (sf_doClose cb index))"

definition sm_open :: "'e sync_funcs \<Rightarrow> int \<Rightarrow> 'e sync_action" where
  "sm_open cb index = (if index < 0 then retA () else callA (sf_doOpen cb index))"

definition sm_change :: "'e sync_funcs \<Rightarrow> sync_state \<Rightarrow> 'e sync_action" where
  "sm_change cb st =
     whenA (\<lambda>(m, e). sm_state m \<noteq> st)
       (thenA (ownA (\<lambda>m. m\<lparr>sm_state := st\<rparr>)) (callA (sf_onChange cb st)))"

definition sm_halt :: "'e sync_funcs \<Rightarrow> int \<Rightarrow> 'e sync_action" where
  "sm_halt cb indexClose =
     thenA (ownA (sm_timerTmo_update Timer_stop))
     (thenA (ownA (\<lambda>m. setNextIndex 1 (m\<lparr>sm_seqNum := 0, sm_retryCurr := 0, sm_indexCurr := 0\<rparr>)))
     (thenA (sm_close cb indexClose)
     (sm_change cb SyHalted)))"

definition sm_fail :: "'e sync_funcs \<Rightarrow> int \<Rightarrow> 'e sync_action" where
  "sm_fail cb indexClose =
     thenA (ownA (sm_timerTmo_update Timer_stop))
     (thenA (sm_close cb indexClose)
     (sm_change cb SyFailed))"

definition sm_sync :: "'e sync_funcs \<Rightarrow> int \<Rightarrow> int \<Rightarrow> 'e sync_action" where
  "sm_sync cb indexClose indexOpen =
     thenA (ownA (sm_timerTmo_update Timer_start))
     (thenA (ownA (sm_seqNum_update (\<lambda>n. n + 1)))
     (thenA (sm_change cb SyDownload)
     (thenA (sm_close cb indexClose)
     (thenA (sm_open cb indexOpen)
     (\<lambda>(m, e). callA (sf_doSync cb (sm_indexCurr m) (sm_seqNum m)) (m, e))))))"

definition SyncMachine_init :: "int \<Rightarrow> int \<Rightarrow> int \<Rightarrow> SyncMachine" where
  "SyncMachine_init maxIndex maxRetry timeout =
     \<lparr>sm_indexMax = maxIndex, sm_retryMax = maxRetry,
      sm_timerTmo = Timer_setInterval timeout (Timer_setSingleShot True Timer_new),
      sm_state = SyHalted, sm_indexCurr = 0, sm_indexNext = 0, sm_retryCurr = 0, sm_seqNum = 0\<rparr>"

text \<open>The constructor: the members, the assertions, every socket closed, then \<^verbatim>\<open>halt(-1)\<close>.\<close>

definition SyncMachine_new ::
  "'e sync_funcs \<Rightarrow> int \<Rightarrow> int \<Rightarrow> int \<Rightarrow> 'e \<Rightarrow> unit result \<times> SyncMachine \<times> 'e" where
  "SyncMachine_new cb maxIndex maxRetry timeout e =
     thenA (liftA (ASSERT (maxIndex \<ge> 0) ''SyncMachine max index cannot be negative''))
     (thenA (liftA (ASSERT (maxRetry \<ge> 0) ''SyncMachine max retry cannot be negative''))
     (thenA (liftA (ASSERT (maxIndex < INT_MAX) ''SyncMachine max index too big''))
     (thenA (liftA (ASSERT (maxRetry < INT_MAX) ''SyncMachine max retry too big''))
     (thenA (forA [0..maxIndex] (\<lambda>idx. callA (sf_doClose cb idx)))
     (sm_halt cb (- 1)))))) (SyncMachine_init maxIndex maxRetry timeout, e)"

definition sm_onHalt :: "'e sync_funcs \<Rightarrow> 'e sync_action" where
  "sm_onHalt cb = (\<lambda>(m, e).
     case sm_state m of
       SyHalted \<Rightarrow> (Inr (), (m, e))
     | SyFailed \<Rightarrow> sm_halt cb (- 1) (m, e)
     | SyDownload \<Rightarrow> sm_halt cb (sm_indexCurr m) (m, e)
     | SySynced \<Rightarrow> sm_halt cb (sm_indexCurr m) (m, e))"

text \<open>The index moves on from the next one: \<^verbatim>\<open>indexCurr_ = indexNext_; setNextIndex(indexCurr_ + 1)\<close>.\<close>

definition rotateIndex :: "SyncMachine \<Rightarrow> SyncMachine" where
  "rotateIndex m = setNextIndex (sm_indexNext m + 1) (m\<lparr>sm_indexCurr := sm_indexNext m\<rparr>)"

definition sm_onSync :: "'e sync_funcs \<Rightarrow> 'e sync_action" where
  "sm_onSync cb = (\<lambda>(m, e).
     if sm_state m = SyDownload then (Inr (), (m, e))
     else let m1 = m\<lparr>sm_retryCurr := 0\<rparr> in
       case sm_state m of
         SyFailed \<Rightarrow> (let m2 = rotateIndex m1 in sm_sync cb (- 1) (sm_indexCurr m2) (m2, e))
       | SyHalted \<Rightarrow> sm_sync cb (- 1) (sm_indexCurr m1) (m1, e)
       | SySynced \<Rightarrow> sm_sync cb (- 1) (- 1) (m1, e)
       | SyDownload \<Rightarrow> (Inr (), (m1, e)))"

definition sm_onReply :: "'e sync_funcs \<Rightarrow> int \<Rightarrow> u8 \<Rightarrow> reply_type \<Rightarrow>
    (SyncMachine \<times> 'e, reply_result) action" where
  "sm_onReply cb index seqn reply = (\<lambda>(m, e).
     if sm_state m \<noteq> SyDownload then (Inr Unexpected, (m, e))
     else if index \<noteq> sm_indexCurr m \<or> seqn \<noteq> sm_seqNum m then (Inr Discarded, (m, e))
     else thenA (case reply of
            Snapshot \<Rightarrow> ownA (sm_timerTmo_update Timer_start)
          | Complete \<Rightarrow> thenA (ownA (sm_timerTmo_update Timer_stop)) (sm_change cb SySynced))
          (retA Accepted) (m, e))"

definition sm_onTimerTimeoutFired :: "'e sync_funcs \<Rightarrow> 'e sync_action" where
  "sm_onTimerTimeoutFired cb =
     thenA (ownA (sm_timerTmo_update Timer_take))
     (\<lambda>(m, e).
        if sm_state m \<noteq> SyDownload then (Inr (), (m, e))
        else if sm_retryCurr m + 1 > sm_retryMax m then sm_fail cb (sm_indexCurr m) (m, e)
        else let indexPrev = sm_indexCurr m;
                 m1 = rotateIndex (m\<lparr>sm_retryCurr := sm_retryCurr m + 1\<rparr>)
             in sm_sync cb indexPrev (sm_indexCurr m1) (m1, e))"

section \<open>Runs\<close>

datatype sync_event =
    YHalt
  | YSync
  | YReply int u8 reply_type
  | YTimeoutFired
  | YClock
  | YSetNext int

fun sync_handle :: "'e sync_funcs \<Rightarrow> sync_event \<Rightarrow> 'e sync_action" where
  "sync_handle cb YHalt = sm_onHalt cb"
| "sync_handle cb YSync = sm_onSync cb"
| "sync_handle cb (YReply i n r) = thenA (sm_onReply cb i n r) (retA ())"
| "sync_handle cb YTimeoutFired = sm_onTimerTimeoutFired cb"
| "sync_handle cb YClock = ownA (sm_timerTmo_update Timer_fire)"
| "sync_handle cb (YSetNext i) = ownA (setNextIndex i)"

inductive sync_reach :: "'e sync_funcs \<Rightarrow> SyncMachine \<times> 'e \<Rightarrow> bool" for cb where
  init: "SyncMachine_new cb maxIndex maxRetry timeout e = (Inr (), s) \<Longrightarrow> sync_reach cb s"
| step: "sync_reach cb s \<Longrightarrow> sync_handle cb ev s = (Inr (), s') \<Longrightarrow> sync_reach cb s'"

text \<open>
  The invariant: indexes and retries stay in range (so that no \<^verbatim>\<open>int\<close> overflows), a download has
  its timeout running or its expiry waiting to be handled, nothing else has it running, and a halted
  machine is reset.
\<close>

definition sync_inv :: "SyncMachine \<Rightarrow> bool" where
  "sync_inv m \<longleftrightarrow>
     timer_inv (sm_timerTmo m) \<and> tm_singleshot (sm_timerTmo m) \<and>
     0 \<le> sm_indexMax m \<and> sm_indexMax m < INT_MAX \<and> 0 \<le> sm_retryMax m \<and> sm_retryMax m < INT_MAX \<and>
     0 \<le> sm_indexCurr m \<and> sm_indexCurr m \<le> sm_indexMax m \<and>
     0 \<le> sm_indexNext m \<and> sm_indexNext m \<le> sm_indexMax m \<and>
     0 \<le> sm_retryCurr m \<and> sm_retryCurr m \<le> sm_retryMax m \<and>
     (if sm_state m = SyDownload
      then Timer_isActive (sm_timerTmo m) \<or> Timer_isExpired (sm_timerTmo m)
      else \<not> Timer_isActive (sm_timerTmo m)) \<and>
     (sm_state m = SyHalted \<longrightarrow> sm_indexCurr m = 0 \<and> sm_retryCurr m = 0 \<and> sm_seqNum m = 0)"

section \<open>What the handlers do to the machine\<close>

lemma retA_eq [simp]: "retA x s = (Inr x, s)"
  by (simp add: retA_def)

lemma sm_close_machine: "sm_close cb i (m, e) = (Inr x, s') \<Longrightarrow> fst s' = m"
  by (auto simp: sm_close_def callA_pair split: if_splits)

lemma sm_open_machine: "sm_open cb i (m, e) = (Inr x, s') \<Longrightarrow> fst s' = m"
  by (auto simp: sm_open_def callA_pair split: if_splits)

lemma sm_change_machine: "sm_change cb st (m, e) = (Inr x, s') \<Longrightarrow> fst s' = m\<lparr>sm_state := st\<rparr>"
  by (auto simp: sm_change_def action_Inr split: if_splits)

lemma sm_halt_machine:
  "sm_halt cb i (m, e) = (Inr x, s') \<Longrightarrow>
     fst s' = setNextIndex 1 (m\<lparr>sm_timerTmo := Timer_stop (sm_timerTmo m), sm_seqNum := 0,
       sm_retryCurr := 0, sm_indexCurr := 0, sm_state := SyHalted\<rparr>)"
  by (cases s')
    (auto simp: sm_halt_def action_Inr setNextIndex_def Let_def dest!: sm_close_machine sm_change_machine)

lemma sm_fail_machine:
  "sm_fail cb i (m, e) = (Inr x, s') \<Longrightarrow>
     fst s' = m\<lparr>sm_timerTmo := Timer_stop (sm_timerTmo m), sm_state := SyFailed\<rparr>"
  by (cases s') (auto simp: sm_fail_def action_Inr dest!: sm_close_machine sm_change_machine)

lemma sm_sync_machine:
  "sm_sync cb i j (m, e) = (Inr x, s') \<Longrightarrow>
     fst s' = m\<lparr>sm_timerTmo := Timer_start (sm_timerTmo m), sm_seqNum := sm_seqNum m + 1,
       sm_state := SyDownload\<rparr>"
  by (cases s')
    (auto simp: sm_sync_def action_Inr split: prod.splits
      dest!: sm_close_machine sm_open_machine sm_change_machine)

text \<open>The next machine, as a function of the event; the owner has no say in it.\<close>

fun sync_next :: "SyncMachine \<Rightarrow> sync_event \<Rightarrow> SyncMachine" where
  "sync_next m YHalt =
     (if sm_state m = SyHalted then m
      else setNextIndex 1 (m\<lparr>sm_timerTmo := Timer_stop (sm_timerTmo m), sm_seqNum := 0,
        sm_retryCurr := 0, sm_indexCurr := 0, sm_state := SyHalted\<rparr>))"
| "sync_next m YSync =
     (if sm_state m = SyDownload then m
      else let m1 = m\<lparr>sm_retryCurr := 0\<rparr>;
               m2 = (if sm_state m = SyFailed then rotateIndex m1 else m1)
           in m2\<lparr>sm_timerTmo := Timer_start (sm_timerTmo m), sm_seqNum := sm_seqNum m + 1,
                 sm_state := SyDownload\<rparr>)"
| "sync_next m (YReply i n r) =
     (if sm_state m = SyDownload \<and> i = sm_indexCurr m \<and> n = sm_seqNum m
      then (case r of
              Snapshot \<Rightarrow> m\<lparr>sm_timerTmo := Timer_start (sm_timerTmo m)\<rparr>
            | Complete \<Rightarrow> m\<lparr>sm_timerTmo := Timer_stop (sm_timerTmo m), sm_state := SySynced\<rparr>)
      else m)"
| "sync_next m YTimeoutFired =
     (let m0 = m\<lparr>sm_timerTmo := Timer_take (sm_timerTmo m)\<rparr> in
      if sm_state m \<noteq> SyDownload then m0
      else if sm_retryMax m < sm_retryCurr m + 1
      then m0\<lparr>sm_timerTmo := Timer_stop (sm_timerTmo m0), sm_state := SyFailed\<rparr>
      else (rotateIndex (m0\<lparr>sm_retryCurr := sm_retryCurr m + 1\<rparr>))
             \<lparr>sm_timerTmo := Timer_start (sm_timerTmo m0), sm_seqNum := sm_seqNum m + 1,
              sm_state := SyDownload\<rparr>)"
| "sync_next m YClock = m\<lparr>sm_timerTmo := Timer_fire (sm_timerTmo m)\<rparr>"
| "sync_next m (YSetNext i) = setNextIndex i m"

lemma rotateIndex_simps [simp]:
  "sm_timerTmo (rotateIndex m) = sm_timerTmo m" "sm_seqNum (rotateIndex m) = sm_seqNum m"
  "sm_state (rotateIndex m) = sm_state m" "sm_retryCurr (rotateIndex m) = sm_retryCurr m"
  "sm_retryMax (rotateIndex m) = sm_retryMax m" "sm_indexMax (rotateIndex m) = sm_indexMax m"
  "sm_indexCurr (rotateIndex m) = sm_indexNext m"
  by (simp_all add: rotateIndex_def setNextIndex_def Let_def)

lemma sm_timerTmo_upd: "sm_timerTmo_update f m = m\<lparr>sm_timerTmo := f (sm_timerTmo m)\<rparr>"
  by (cases m) simp

lemma sync_handle_next:
  assumes "sync_handle cb ev (m, e) = (Inr x, s')"
  shows "fst s' = sync_next m ev"
proof (cases ev)
  case YHalt
  with assms show ?thesis
    by (cases "sm_state m") (auto simp: sm_onHalt_def dest!: sm_halt_machine)
next
  case YSync
  with assms show ?thesis
    by (cases "sm_state m") (auto simp: sm_onSync_def Let_def dest!: sm_sync_machine)
next
  case (YReply i n r)
  with assms show ?thesis
    by (cases r) (auto simp: sm_onReply_def action_Inr dest!: sm_change_machine split: if_splits)
next
  case YTimeoutFired
  with assms show ?thesis
    by (auto simp: sm_onTimerTimeoutFired_def action_Inr Let_def sm_timerTmo_upd [of Timer_take]
        dest!: sm_fail_machine sm_sync_machine split: if_splits)
qed (use assms in auto)

lemma setNextIndex_range:
  "0 \<le> sm_indexMax m \<Longrightarrow>
     0 \<le> sm_indexNext (setNextIndex i m) \<and> sm_indexNext (setNextIndex i m) \<le> sm_indexMax m"
  by (simp add: setNextIndex_def Let_def) (smt (verit) pos_mod_bound)

lemma setNextIndex_simps [simp]:
  "sm_timerTmo (setNextIndex i m) = sm_timerTmo m" "sm_seqNum (setNextIndex i m) = sm_seqNum m"
  "sm_state (setNextIndex i m) = sm_state m" "sm_retryCurr (setNextIndex i m) = sm_retryCurr m"
  "sm_retryMax (setNextIndex i m) = sm_retryMax m" "sm_indexMax (setNextIndex i m) = sm_indexMax m"
  "sm_indexCurr (setNextIndex i m) = sm_indexCurr m"
  by (simp_all add: setNextIndex_def Let_def)

lemma rotateIndex_range:
  "0 \<le> sm_indexMax m \<Longrightarrow>
     0 \<le> sm_indexNext (rotateIndex m) \<and> sm_indexNext (rotateIndex m) \<le> sm_indexMax m"
  using setNextIndex_range [of "m\<lparr>sm_indexCurr := sm_indexNext m\<rparr>"] by (simp add: rotateIndex_def)

lemma sync_inv_next:
  assumes "sync_inv m"
  shows "sync_inv (sync_next m ev)"
proof (cases ev)
  case YClock
  then show ?thesis
    using assms Timer_fire_active [of "sm_timerTmo m"] Timer_fire_inactive [of "sm_timerTmo m"]
    by (cases "Timer_isActive (sm_timerTmo m)") (auto simp: sync_inv_def split: if_splits)
next
  case (YReply i n r)
  then show ?thesis using assms by (cases r) (auto simp: sync_inv_def)
next
  case YTimeoutFired
  then show ?thesis
    using assms rotateIndex_range [of "m\<lparr>sm_timerTmo := Timer_take (sm_timerTmo m), sm_retryCurr := sm_retryCurr m + 1\<rparr>"]
    by (auto simp: sync_inv_def Let_def)
next
  case YSync
  then show ?thesis
    using assms rotateIndex_range [of "m\<lparr>sm_retryCurr := 0\<rparr>"] by (auto simp: sync_inv_def Let_def)
next
  case (YSetNext i)
  then show ?thesis using assms setNextIndex_range [of m i] by (auto simp: sync_inv_def)
next
  case YHalt
  then show ?thesis
    using assms setNextIndex_range [of "m\<lparr>sm_timerTmo := Timer_stop (sm_timerTmo m), sm_seqNum := 0,
        sm_retryCurr := 0, sm_indexCurr := 0, sm_state := SyHalted\<rparr>" 1]
    by (auto simp: sync_inv_def)
qed

lemma forA_callA_machine:
  "forA xs (\<lambda>x. callA (f x)) (m, e) = (Inr u, s') \<Longrightarrow> fst s' = m"
  by (induction xs arbitrary: e) (auto simp: action_Inr)

lemma sync_inv_init:
  assumes "SyncMachine_new cb maxIndex maxRetry timeout e = (Inr u, s)"
  shows "sync_inv (fst s)"
proof -
  let ?m = "SyncMachine_init maxIndex maxRetry timeout"
  obtain e' where c: "0 \<le> maxIndex" "maxIndex < INT_MAX" "0 \<le> maxRetry" "maxRetry < INT_MAX"
    and h: "sm_halt cb (- 1) (?m, e') = (Inr (), s)"
    using assms
    by (auto simp: SyncMachine_new_def thenA_Inr liftA_def dest!: forA_callA_machine)
  have "timer_inv (sm_timerTmo ?m)" "tm_singleshot (sm_timerTmo ?m)"
    by (simp_all add: SyncMachine_init_def timer_inv_def Timer_setInterval_def Timer_setSingleShot_def Timer_new_def)
  then show ?thesis
    using c setNextIndex_range [of "?m\<lparr>sm_timerTmo := Timer_stop (sm_timerTmo ?m), sm_seqNum := 0,
        sm_retryCurr := 0, sm_indexCurr := 0, sm_state := SyHalted\<rparr>" 1] sm_halt_machine [OF h]
    by (auto simp: sync_inv_def) (simp_all add: SyncMachine_init_def)
qed

lemma sync_reach_inv: "sync_reach cb s \<Longrightarrow> sync_inv (fst s)"
proof (induction rule: sync_reach.induct)
  case (init maxIndex maxRetry timeout e s)
  then show ?case by (rule sync_inv_init)
next
  case (step s ev s')
  then show ?case using sync_handle_next [of cb ev "fst s" "snd s" "()" s'] sync_inv_next by simp
qed

section \<open>Specification of the calls\<close>

datatype sync_call = SDoClose int | SDoOpen int | SDoSync int u8 | SOnChange sync_state

fun run_sync_call :: "'e sync_funcs \<Rightarrow> sync_call \<Rightarrow> ('e, unit) action" where
  "run_sync_call cb (SDoClose i) = sf_doClose cb i"
| "run_sync_call cb (SDoOpen i) = sf_doOpen cb i"
| "run_sync_call cb (SDoSync i n) = sf_doSync cb i n"
| "run_sync_call cb (SOnChange st) = sf_onChange cb st"

text \<open>
  The calls of an event, in order. A request names the index and the sequence number of the machine
  after the event; a socket is opened only where the previous one was closed, by halting, by
  failing, or just before, by the timeout.
\<close>

fun sync_calls :: "SyncMachine \<Rightarrow> sync_event \<Rightarrow> sync_call list" where
  "sync_calls m YHalt =
     (case sm_state m of
        SyHalted \<Rightarrow> []
      | SyFailed \<Rightarrow> [SOnChange SyHalted]
      | _ \<Rightarrow> [SDoClose (sm_indexCurr m), SOnChange SyHalted])"
| "sync_calls m YSync =
     (case sm_state m of
        SyDownload \<Rightarrow> []
      | SyHalted \<Rightarrow> [SOnChange SyDownload, SDoOpen (sm_indexCurr m),
          SDoSync (sm_indexCurr m) (sm_seqNum m + 1)]
      | SyFailed \<Rightarrow> [SOnChange SyDownload, SDoOpen (sm_indexNext m),
          SDoSync (sm_indexNext m) (sm_seqNum m + 1)]
      | SySynced \<Rightarrow> [SOnChange SyDownload, SDoSync (sm_indexCurr m) (sm_seqNum m + 1)])"
| "sync_calls m (YReply i n r) =
     (if sm_state m = SyDownload \<and> i = sm_indexCurr m \<and> n = sm_seqNum m \<and> r = Complete
      then [SOnChange SySynced] else [])"
| "sync_calls m YTimeoutFired =
     (if sm_state m \<noteq> SyDownload then []
      else if sm_retryMax m < sm_retryCurr m + 1
      then [SDoClose (sm_indexCurr m), SOnChange SyFailed]
      else [SDoClose (sm_indexCurr m), SDoOpen (sm_indexNext m),
            SDoSync (sm_indexNext m) (sm_seqNum m + 1)])"
| "sync_calls m _ = []"

lemmas sync_op_defs =
  sm_close_def sm_open_def sm_change_def sm_halt_def sm_fail_def sm_sync_def

lemma sync_handle_calls:
  assumes "sync_inv m"
  shows "(case sync_handle cb ev (m, e) of (r, m', e') \<Rightarrow> (r, e')) =
    forA (sync_calls m ev) (run_sync_call cb) e"
proof -
  have i: "\<not> sm_indexCurr m < 0" "\<not> sm_indexNext m < 0" using assms by (auto simp: sync_inv_def)
  show ?thesis
  proof (cases ev)
    case YHalt
    with i show ?thesis
      by (cases "sm_state m")
        (auto simp: sm_onHalt_def sync_op_defs action_defs split: prod.splits sum.splits)
  next
    case YSync
    with i show ?thesis
      by (cases "sm_state m")
        (auto simp: sm_onSync_def sync_op_defs action_defs Let_def split: prod.splits sum.splits)
  next
    case (YReply i n r)
    then show ?thesis
      by (cases r) (auto simp: sm_onReply_def sync_op_defs action_defs split: prod.splits sum.splits)
  next
    case YTimeoutFired
    with i show ?thesis
      by (auto simp: sm_onTimerTimeoutFired_def sync_op_defs action_defs Let_def
          split: prod.splits sum.splits)
  qed (auto simp: action_defs)
qed

section \<open>Retries\<close>

text \<open>Timeouts in a row: each one takes a retry, and the one after the last fails the download.\<close>

lemma sync_timeout_step:
  assumes "sync_inv m" and "sm_state m = SyDownload" and "sm_retryCurr m < sm_retryMax m"
  shows "sync_inv (sync_next m YTimeoutFired)" and "sm_state (sync_next m YTimeoutFired) = SyDownload"
    and "sm_retryMax (sync_next m YTimeoutFired) = sm_retryMax m"
    and "sm_retryCurr (sync_next m YTimeoutFired) = sm_retryCurr m + 1"
    and "sm_seqNum (sync_next m YTimeoutFired) = sm_seqNum m + 1"
  using assms sync_inv_next [OF assms(1), of YTimeoutFired] by (simp_all add: Let_def)

lemma sync_timeouts_run:
  assumes "sync_inv m" and "sm_state m = SyDownload" and "int j \<le> sm_retryMax m - sm_retryCurr m"
  defines "m' \<equiv> foldl sync_next m (replicate j YTimeoutFired)"
  shows "sync_inv m' \<and> sm_state m' = SyDownload \<and> sm_retryMax m' = sm_retryMax m \<and>
    sm_retryCurr m' = sm_retryCurr m + int j \<and> sm_seqNum m' = sm_seqNum m + of_nat j"
  using assms(1-3) unfolding m'_def
proof (induction j arbitrary: m)
  case 0
  then show ?case by simp
next
  case (Suc j)
  then have lt: "sm_retryCurr m < sm_retryMax m" by simp
  note st = sync_timeout_step [OF Suc.prems(1,2) lt]
  have "int j \<le> sm_retryMax (sync_next m YTimeoutFired) - sm_retryCurr (sync_next m YTimeoutFired)"
    using Suc.prems(3) st(3,4) by (simp del: sync_next.simps)
  from Suc.IH [OF st(1,2) this] show ?case
    using st(3-5) by (simp add: ac_simps del: sync_next.simps)
qed

lemma sync_timeouts:
  assumes "sync_inv m" and "sm_state m = SyDownload" and "int k = sm_retryMax m - sm_retryCurr m"
  shows "sm_state (foldl sync_next m (replicate (Suc k) YTimeoutFired)) = SyFailed"
proof -
  have "int k \<le> sm_retryMax m - sm_retryCurr m" using assms(3) by simp
  note run = sync_timeouts_run [OF assms(1,2) this]
  have "replicate (Suc k) YTimeoutFired = replicate k YTimeoutFired @ [YTimeoutFired]"
    by (simp add: replicate_append_same)
  then show ?thesis using run assms(3) by (simp add: Let_def del: replicate.simps)
qed

text \<open>Functions of the owner that do not throw.\<close>

definition sync_quiet :: "'e sync_funcs \<Rightarrow> bool" where
  "sync_quiet cb \<longleftrightarrow> (\<forall>i e. fst (sf_doClose cb i e) = Inr ()) \<and> (\<forall>i e. fst (sf_doOpen cb i e) = Inr ()) \<and>
     (\<forall>i n e. fst (sf_doSync cb i n e) = Inr ()) \<and> (\<forall>st e. fst (sf_onChange cb st e) = Inr ())"

lemma sync_quiet_call: "sync_quiet cb \<Longrightarrow> fst (run_sync_call cb c e) = Inr ()"
  by (cases c) (simp_all add: sync_quiet_def)

lemma sync_quiet_calls: "sync_quiet cb \<Longrightarrow> fst (forA cs (run_sync_call cb) e) = Inr ()"
proof (induction cs arbitrary: e)
  case Nil
  then show ?case by simp
next
  case (Cons c cs)
  then show ?case using sync_quiet_call [OF Cons.prems, of c e]
    by (cases "run_sync_call cb c e") (simp add: action_defs)
qed

lemma sync_quiet_handle:
  assumes "sync_quiet cb" and "sync_inv m"
  shows "\<exists>e'. sync_handle cb ev (m, e) = (Inr (), (sync_next m ev, e'))"
proof -
  obtain r m' e' where h: "sync_handle cb ev (m, e) = (r, m', e')" by (cases "sync_handle cb ev (m, e)")
  then have "r = Inr ()"
    using sync_handle_calls [OF assms(2), of cb ev e] sync_quiet_calls [OF assms(1), of "sync_calls m ev" e]
    by (metis case_prod_conv fst_conv)
  then show ?thesis using h sync_handle_next [of cb ev m e "()" "(m', e')"] by simp
qed

lemma sync_quiet_run:
  assumes "sync_quiet cb" and "sync_inv m"
  shows "\<exists>e'. forA evs (sync_handle cb) (m, e) = (Inr (), (foldl sync_next m evs, e'))"
  using assms(2)
proof (induction evs arbitrary: m e)
  case Nil
  then show ?case by simp
next
  case (Cons ev evs)
  obtain e1 where "sync_handle cb ev (m, e) = (Inr (), (sync_next m ev, e1))"
    using sync_quiet_handle [OF assms(1) Cons.prems] by blast
  then show ?case using Cons.IH [OF sync_inv_next [OF Cons.prems], of ev e1] by (simp add: action_defs)
qed

section \<open>Properties\<close>

text \<open>C28: The synchronization machine is safe. In every reachable state, whatever the functions of the
  owner do, both indexes and the retry counter are in their ranges, so no int overflows, a download
  has its timeout running or its expiry waiting to be handled, and a halted machine is reset.\<close>

theorem sync_never_stuck:
  assumes "sync_reach cb s"
  shows "0 \<le> sm_indexCurr (fst s) \<and> sm_indexCurr (fst s) \<le> sm_indexMax (fst s) \<and>
    0 \<le> sm_indexNext (fst s) \<and> sm_indexNext (fst s) + 1 \<le> INT_MAX \<and>
    0 \<le> sm_retryCurr (fst s) \<and> sm_retryCurr (fst s) \<le> sm_retryMax (fst s) \<and> sm_retryCurr (fst s) + 1 \<le> INT_MAX \<and>
    (if sm_state (fst s) = SyDownload
     then Timer_isActive (sm_timerTmo (fst s)) \<or> Timer_isExpired (sm_timerTmo (fst s))
     else \<not> Timer_isActive (sm_timerTmo (fst s))) \<and>
    (sm_state (fst s) = SyHalted \<longrightarrow> sm_indexCurr (fst s) = 0 \<and> sm_retryCurr (fst s) = 0 \<and> sm_seqNum (fst s) = 0)"
  using sync_reach_inv [OF assms] by (simp add: sync_inv_def)

definition sync_log :: "sync_call list sync_funcs" where
  "sync_log = \<lparr>sf_doClose = (\<lambda>i l. (Inr (), l @ [SDoClose i])), sf_doOpen = (\<lambda>i l. (Inr (), l @ [SDoOpen i])),
     sf_doSync = (\<lambda>i n l. (Inr (), l @ [SDoSync i n])), sf_onChange = (\<lambda>st l. (Inr (), l @ [SOnChange st]))\<rparr>"

lemma sync_log_quiet: "sync_quiet sync_log"
  by (simp add: sync_quiet_def sync_log_def)

definition sync_sample0 :: "SyncMachine \<times> sync_call list" where
  "sync_sample0 = snd (SyncMachine_new sync_log 0 1 3000 [])"

definition sync_sample :: "SyncMachine \<times> sync_call list" where
  "sync_sample = snd (sync_handle sync_log YSync sync_sample0)"

lemma sync_sample0_reach: "sync_reach sync_log sync_sample0"
proof -
  have "fst (SyncMachine_new sync_log 0 1 3000 []) = Inr ()"
    by (simp add: SyncMachine_new_def sync_log_def sync_op_defs action_defs SyncMachine_init_def
        ASSERT_def INT_MAX_def)
  then have "SyncMachine_new sync_log 0 1 3000 [] = (Inr (), sync_sample0)"
    by (metis prod.collapse sync_sample0_def)
  then show ?thesis by (rule sync_reach.init)
qed

lemma sync_sample_step:
  "\<exists>e. sync_handle sync_log YSync sync_sample0 = (Inr (), sync_next (fst sync_sample0) YSync, e)"
  using sync_quiet_handle [OF sync_log_quiet sync_reach_inv [OF sync_sample0_reach], of YSync "snd sync_sample0"]
  by simp

lemma sync_sample_reach: "sync_reach sync_log sync_sample"
proof -
  have "sync_handle sync_log YSync sync_sample0 = (Inr (), sync_sample)"
    using sync_sample_step by (auto simp: sync_sample_def)
  then show ?thesis by (rule sync_reach.step [OF sync_sample0_reach])
qed

lemma sync_sample0_fields:
  "sm_state (fst sync_sample0) = SyHalted" "sm_retryMax (fst sync_sample0) = 1" "sm_indexCurr (fst sync_sample0) = 0"
  "sm_seqNum (fst sync_sample0) = 0"
  by (simp_all add: sync_sample0_def SyncMachine_new_def sync_log_def sync_op_defs action_defs
      SyncMachine_init_def ASSERT_def INT_MAX_def)

lemma sync_sample_fields:
  "sm_state (fst sync_sample) = SyDownload" "sm_retryMax (fst sync_sample) = 1" "sm_retryCurr (fst sync_sample) = 0"
  "sm_indexCurr (fst sync_sample) = 0" "sm_seqNum (fst sync_sample) = 1"
  using sync_sample_step by (auto simp: sync_sample_def sync_sample0_fields Let_def)

lemma sync_never_stuck_witness:
  "Timer_isActive (sm_timerTmo (fst sync_sample)) \<or> Timer_isExpired (sm_timerTmo (fst sync_sample))"
  using sync_never_stuck [OF sync_sample_reach] by (simp add: sync_sample_fields)

text \<open>C12: The synchronization machine refines its specification. Every handler makes exactly the calls
  listed for its event, in that order, ends with the error of the first of them that throws, and
  when none does the machine is the specified next one: in particular every request carries the
  new 8-bit sequence number and the index of the machine it leaves.\<close>

theorem sync_refines:
  assumes "sync_reach cb (m, e)"
  shows "(case sync_handle cb ev (m, e) of (r, m', e') \<Rightarrow> (r, e')) =
      forA (sync_calls m ev) (run_sync_call cb) e \<and>
    (fst (sync_handle cb ev (m, e)) = Inr () \<longrightarrow> fst (snd (sync_handle cb ev (m, e))) = sync_next m ev)"
proof -
  have "fst (snd (sync_handle cb ev (m, e))) = sync_next m ev" if "fst (sync_handle cb ev (m, e)) = Inr ()"
    using that sync_handle_next [of cb ev m e "()" "snd (sync_handle cb ev (m, e))"] by (metis prod.collapse)
  moreover have "sync_inv m" using sync_reach_inv [OF assms] by simp
  ultimately show ?thesis by (intro conjI impI sync_handle_calls)
qed

lemma sync_refines_witness:
  "snd (snd (sync_handle sync_log YHalt sync_sample)) =
     snd sync_sample @ [SDoClose 0, SOnChange SyHalted]"
proof -
  have "sync_reach sync_log (fst sync_sample, snd sync_sample)" using sync_sample_reach by simp
  from sync_refines [OF this, of YHalt]
  have "(case sync_handle sync_log YHalt sync_sample of (r, m', e') \<Rightarrow> (r, e')) =
      forA [SDoClose 0, SOnChange SyHalted] (run_sync_call sync_log) (snd sync_sample)"
    by (simp add: sync_sample_fields)
  then show ?thesis by (auto simp: action_defs sync_log_def split: prod.splits)
qed

text \<open>A reply is accepted exactly when a download is in progress and both the index and the sequence
  number are those of the current request; any other reply changes nothing, and an accepted
  completion ends the download.\<close>

theorem sync_reply_accepted:
  assumes "fst (sm_onReply cb i n r (m, e)) = Inr res"
  shows "(res = Accepted \<longleftrightarrow> sm_state m = SyDownload \<and> i = sm_indexCurr m \<and> n = sm_seqNum m) \<and>
    (res = Unexpected \<longleftrightarrow> sm_state m \<noteq> SyDownload) \<and>
    (res \<noteq> Accepted \<longrightarrow> snd (sm_onReply cb i n r (m, e)) = (m, e)) \<and>
    (res = Accepted \<and> r = Complete \<longrightarrow> sm_state (fst (snd (sm_onReply cb i n r (m, e)))) = SySynced) \<and>
    (res = Accepted \<and> r = Snapshot \<longrightarrow>
       sm_state (fst (snd (sm_onReply cb i n r (m, e)))) = SyDownload \<and>
       Timer_isActive (sm_timerTmo (fst (snd (sm_onReply cb i n r (m, e))))))"
  using assms
  by (cases r) (auto simp: sm_onReply_def sync_op_defs action_defs split: if_splits prod.splits sum.splits)

lemma sync_reply_accepted_witness:
  "sm_state (fst (snd (sm_onReply sync_log 0 1 Complete sync_sample))) = SySynced \<and>
   snd (sm_onReply sync_log 0 2 Complete sync_sample) = sync_sample"
proof -
  obtain m e where s: "sync_sample = (m, e)" by (cases sync_sample)
  have f: "sm_state m = SyDownload" "sm_indexCurr m = 0" "sm_seqNum m = 1"
    using sync_sample_fields unfolding s by simp_all
  have a: "fst (sm_onReply sync_log 0 1 Complete (m, e)) = Inr Accepted"
    and d: "fst (sm_onReply sync_log 0 2 Complete (m, e)) = Inr Discarded"
    using f by (simp_all add: sm_onReply_def sync_log_def sync_op_defs action_defs)
  show ?thesis using sync_reply_accepted [OF a] sync_reply_accepted [OF d] f s by simp
qed

text \<open>C29: The retries are bounded. When no reply comes, each timeout takes one retry and asks the next
  broker with a new sequence number, until the retries are used up; the timeout after the last one
  ends in the failed state. The handlers return, as long as the owner's functions do.\<close>

theorem sync_retries_bounded:
  assumes "sync_reach cb (m, e)" and "sync_quiet cb" and "sm_state m = SyDownload"
    and "int k = sm_retryMax m - sm_retryCurr m"
  shows "(\<forall>j\<le>k. \<exists>m' e'. forA (replicate j YTimeoutFired) (sync_handle cb) (m, e) = (Inr (), (m', e')) \<and>
      sm_state m' = SyDownload \<and> sm_retryCurr m' = sm_retryCurr m + int j \<and> sm_seqNum m' = sm_seqNum m + of_nat j) \<and>
    (\<exists>m' e'. forA (replicate (Suc k) YTimeoutFired) (sync_handle cb) (m, e) = (Inr (), (m', e')) \<and>
      sm_state m' = SyFailed)"
proof -
  have inv: "sync_inv m" using sync_reach_inv [OF assms(1)] by simp
  note run = sync_quiet_run [OF assms(2) inv, of _ e]
  have "\<exists>m' e'. forA (replicate j YTimeoutFired) (sync_handle cb) (m, e) = (Inr (), (m', e')) \<and>
      sm_state m' = SyDownload \<and> sm_retryCurr m' = sm_retryCurr m + int j \<and> sm_seqNum m' = sm_seqNum m + of_nat j"
    if "j \<le> k" for j
  proof -
    have "int j \<le> sm_retryMax m - sm_retryCurr m" using that assms(4) by linarith
    from sync_timeouts_run [OF inv assms(3) this] run [of "replicate j YTimeoutFired"] show ?thesis by blast
  qed
  moreover have "\<exists>m' e'. forA (replicate (Suc k) YTimeoutFired) (sync_handle cb) (m, e) = (Inr (), (m', e')) \<and>
      sm_state m' = SyFailed"
    using sync_timeouts [OF inv assms(3,4)] run [of "replicate (Suc k) YTimeoutFired"] by blast
  ultimately show ?thesis by blast
qed

lemma sync_retries_bounded_witness:
  "\<exists>m e. forA [YTimeoutFired, YTimeoutFired] (sync_handle sync_log) sync_sample = (Inr (), (m, e)) \<and>
     sm_state m = SyFailed"
proof -
  have "sync_reach sync_log (fst sync_sample, snd sync_sample)" using sync_sample_reach by simp
  from sync_retries_bounded [OF this sync_log_quiet, of 1] show ?thesis
    by (simp add: sync_sample_fields eval_nat_numeral)
qed

end
