(* ===== verification/Fuurin_Worker.thy ===== *)
theory Fuurin_Worker
  imports Fuurin_Net Fuurin_Lrucache Fuurin_Connmachine Fuurin_Syncmachine
begin

text \<open>
  The session of a worker, \<^verbatim>\<open>src/sessionworker.cpp\<close>. The two state machines call back into the
  rest of the session, which is the record \<open>WorkerEnv\<close>; the session is the machines and that record.
\<close>

section \<open>State\<close>

record WorkerEnv =
  we_uuid :: uuid
  we_token :: u8
  we_conf :: WorkerConfig
  we_seqNum :: u64
  we_subscrTopic :: "(Name, bool) LRUCache"
  we_workerSeqNum :: "(uuid, u64) LRUCache"
  we_isOnline :: bool
  we_isSnapshot :: bool
  we_brokerUuid :: uuid
  we_zsnapshot :: Socket
  we_zdelivery :: Socket
  we_zdispatch :: Socket
  we_io :: io

record WorkerSession =
  ws_conn :: ConnMachine
  ws_sync :: SyncMachine
  ws_env :: WorkerEnv

type_synonym 'a wenv_action = "(WorkerEnv, 'a) action"
type_synonym 'a worker_action = "(WorkerSession, 'a) action"

section \<open>Sockets and events\<close>

definition we_send :: "env \<Rightarrow> chan \<Rightarrow> Part \<Rightarrow> int wenv_action" where
  "we_send P ch p s =
     (case sendMessagePart (en_net P) ch
        (case ch of ChSnapshot \<Rightarrow> sk_open (we_zsnapshot s) | ChDispatch \<Rightarrow> sk_open (we_zdispatch s)
         | _ \<Rightarrow> True) p (we_io s) of
        (r, i) \<Rightarrow> (r, s\<lparr>we_io := i\<rparr>))"

definition we_sendEvent :: "env \<Rightarrow> Event_Type \<Rightarrow> Part \<Rightarrow> unit wenv_action" where
  "we_sendEvent P ev pay s =
     (case session_sendEvent P (we_token s) ev pay (we_io s) of (r, i) \<Rightarrow> (r, s\<lparr>we_io := i\<rparr>))"

definition we_connect :: "env \<Rightarrow> (WorkerEnv \<Rightarrow> Socket) \<Rightarrow> ((Socket \<Rightarrow> Socket) \<Rightarrow> WorkerEnv \<Rightarrow> WorkerEnv) \<Rightarrow>
    unit wenv_action" where
  "we_connect P get upd s =
     (case Socket_open (en_net P) (get s) (we_io s) of
        (r, sk, i) \<Rightarrow> (r, (upd (\<lambda>_. sk) s)\<lparr>we_io := i\<rparr>))"

definition we_connClose :: "unit wenv_action" where
  "we_connClose = updA (\<lambda>s. s\<lparr>we_zdelivery := Socket_close (we_zdelivery s),
     we_zdispatch := Socket_close (we_zdispatch s)\<rparr>)"

text \<open>
  The groups to join: keepalives, and either every update or the configured names, which must not
  be the name of the group of every update. The groups are a \<^verbatim>\<open>std::set\<close>: sorted, no duplicates.
\<close>

fun bytes_less :: "bytes \<Rightarrow> bytes \<Rightarrow> bool" where
  "bytes_less [] ys = (ys \<noteq> [])"
| "bytes_less (x # xs) [] = False"
| "bytes_less (x # xs) (y # ys) = (x < y \<or> x = y \<and> bytes_less xs ys)"

fun set_insert :: "bytes \<Rightarrow> bytes list \<Rightarrow> bytes list" where
  "set_insert x [] = [x]"
| "set_insert x (y # ys) = (if x = y then y # ys else if bytes_less x y then x # y # ys
     else y # set_insert x ys)"

fun we_topicGroups :: "Name list \<Rightarrow> bytes list \<Rightarrow> bytes list result" where
  "we_topicGroups [] groups = Inr groups"
| "we_topicGroups (name # names) groups =
     (if Name_str name = BrokerUpdt then Inl (Throw Error ''could not set topic name'' 0)
      else we_topicGroups names (set_insert (Name_str name) groups))"

definition we_connOpen :: "env \<Rightarrow> unit wenv_action" where
  "we_connOpen P =
     thenA (updA (\<lambda>s. s\<lparr>we_zdelivery := (we_zdelivery s)\<lparr>sk_endpoints := wc_endpDelivery (we_conf s)\<rparr>,
       we_zdispatch := (we_zdispatch s)\<lparr>sk_endpoints := wc_endpDispatch (we_conf s)\<rparr>\<rparr>))
     (bindA (\<lambda>s. (if \<not> wc_topicsAll (we_conf s) then we_topicGroups (wc_topicsNames (we_conf s)) [BrokerHugz]
                  else Inr (set_insert BrokerUpdt [BrokerHugz]), s)) (\<lambda>groups.
     thenA (updA (\<lambda>s. s\<lparr>we_zdelivery := (we_zdelivery s)\<lparr>sk_groups := groups\<rparr>\<rparr>))
     (thenA (we_connect P we_zdelivery we_zdelivery_update)
     (we_connect P we_zdispatch we_zdispatch_update))))"

definition we_snapClose :: "unit wenv_action" where
  "we_snapClose = updA (\<lambda>s. s\<lparr>we_zsnapshot := Socket_close (we_zsnapshot s)\<rparr>)"

definition we_snapOpen :: "env \<Rightarrow> unit wenv_action" where
  "we_snapOpen P =
     thenA (updA (\<lambda>s. s\<lparr>we_zsnapshot := (we_zsnapshot s)\<lparr>sk_endpoints := wc_endpSnapshot (we_conf s)\<rparr>\<rparr>))
     (we_connect P we_zsnapshot we_zsnapshot_update)"

definition we_sendAnnounce :: "env \<Rightarrow> unit wenv_action" where
  "we_sendAnnounce P =
     bindA (liftA (withGroup (Some WorkerHugz) zmq_msg_init)) (\<lambda>p.
     thenA (we_send P ChDispatch p) (retA ()))"

text \<open>The request: the configuration with the current sequence number, and its event.\<close>

definition we_sendSync :: "env \<Rightarrow> u8 \<Rightarrow> unit wenv_action" where
  "we_sendSync P syncseq =
     bindA (\<lambda>s. (WorkerConfig_toPart (en_mem P) (en_arch P) ((we_conf s)\<lparr>wc_seqNum := we_seqNum s\<rparr>), s)) (\<lambda>params.
     bindA (liftA (Part_copy (en_mem P) params)) (\<lambda>params'.
     bindA (liftA (pack (en_mem P) (en_arch P) [FString BrokerSyncReqst, FUInt8 syncseq, FPart (pt_data params')])) (\<lambda>p.
     thenA (we_send P ChSnapshot p)
     (we_sendEvent P EvSyncRequest params))))"

text \<open>The sequence number is told to the runner; whatever goes wrong is a fatal log.\<close>

definition we_notifySequenceNumber :: "env \<Rightarrow> unit wenv_action" where
  "we_notifySequenceNumber P s =
     (case bindA (liftA (Part_uint (en_mem P) (en_arch P) (we_seqNum s))) (we_send P ChSeqs) s of
        (Inr n, s') \<Rightarrow> (if n = - 1 then LOG_FATAL ''could not notify sequence number'' else Inr (), s')
      | (Inl (Abort msg), s') \<Rightarrow> (Inl (Abort msg), s')
      | (Inl (Throw _ _ _), s') \<Rightarrow> (LOG_FATAL ''could not notify sequence number'', s'))"

definition we_notifyConnectionUpdate :: "env \<Rightarrow> bool \<Rightarrow> unit wenv_action" where
  "we_notifyConnectionUpdate P isUp =
     whenA (\<lambda>s. isUp \<noteq> we_isOnline s)
       (thenA (updA (\<lambda>s. s\<lparr>we_isOnline := isUp\<rparr>))
       (we_sendEvent P (if isUp then EvOnline else EvOffline) zmq_msg_init))"

definition we_notifySnapshotDownload :: "env \<Rightarrow> bool \<Rightarrow> unit wenv_action" where
  "we_notifySnapshotDownload P isSync =
     whenA (\<lambda>s. isSync \<noteq> we_isSnapshot s)
       (thenA (updA (\<lambda>s. s\<lparr>we_isSnapshot := isSync\<rparr>))
       (we_sendEvent P (if isSync then EvSyncDownloadOn else EvSyncDownloadOff) zmq_msg_init))"

text \<open>An event that carries the uuid of the broker.\<close>

definition we_sendBrokerEvent :: "env \<Rightarrow> Event_Type \<Rightarrow> unit wenv_action" where
  "we_sendBrokerEvent P ev =
     bindA (\<lambda>s. (Uuid_toPart (en_mem P) (en_arch P) (we_brokerUuid s), s)) (we_sendEvent P ev)"

fun we_onConnChanged :: "env \<Rightarrow> conn_state \<Rightarrow> unit wenv_action" where
  "we_onConnChanged P Halted = we_notifyConnectionUpdate P False"
| "we_onConnChanged P Trying = we_notifyConnectionUpdate P False"
| "we_onConnChanged P Stable = we_notifyConnectionUpdate P True"

fun we_onSyncChanged :: "env \<Rightarrow> sync_state \<Rightarrow> unit wenv_action" where
  "we_onSyncChanged P SyHalted =
     thenA (whenA we_isSnapshot (we_sendBrokerEvent P EvSyncError))
     (thenA (updA (\<lambda>s. s\<lparr>we_brokerUuid := Uuid_null\<rparr>))
     (we_notifySnapshotDownload P False))"
| "we_onSyncChanged P SySynced =
     thenA (we_sendBrokerEvent P EvSyncSuccess) (we_notifySnapshotDownload P False)"
| "we_onSyncChanged P SyFailed =
     thenA (we_sendBrokerEvent P EvSyncError) (we_notifySnapshotDownload P False)"
| "we_onSyncChanged P SyDownload = we_notifySnapshotDownload P True"

section \<open>The machines in the session\<close>

definition ws_conn_funcs :: "env \<Rightarrow> WorkerEnv conn_funcs" where
  "ws_conn_funcs P = \<lparr>cf_doClose = we_connClose, cf_doOpen = we_connOpen P,
     cf_doPong = we_sendAnnounce P, cf_onChange = we_onConnChanged P\<rparr>"

definition ws_sync_funcs :: "env \<Rightarrow> WorkerEnv sync_funcs" where
  "ws_sync_funcs P = \<lparr>sf_doClose = (\<lambda>_. we_snapClose), sf_doOpen = (\<lambda>_. we_snapOpen P),
     sf_doSync = (\<lambda>_ seqn. we_sendSync P seqn), sf_onChange = we_onSyncChanged P\<rparr>"

definition envA :: "'a wenv_action \<Rightarrow> 'a worker_action" where
  "envA f s = (case f (ws_env s) of (r, e) \<Rightarrow> (r, s\<lparr>ws_env := e\<rparr>))"

definition connA :: "WorkerEnv conn_action \<Rightarrow> unit worker_action" where
  "connA f s = (case f (ws_conn s, ws_env s) of (r, c, e) \<Rightarrow> (r, s\<lparr>ws_conn := c, ws_env := e\<rparr>))"

definition syncA :: "(SyncMachine \<times> WorkerEnv, 'a) action \<Rightarrow> 'a worker_action" where
  "syncA f s = (case f (ws_sync s, ws_env s) of (r, c, e) \<Rightarrow> (r, s\<lparr>ws_sync := c, ws_env := e\<rparr>))"

text \<open>
  The constructor. The sequence number and the configuration are not initialized by it: they are
  whatever the memory holds, until the first start.
\<close>

definition WorkerEnv_init :: "uuid \<Rightarrow> u8 \<Rightarrow> u64 \<Rightarrow> WorkerConfig \<Rightarrow> WorkerEnv" where
  "WorkerEnv_init u tok seqn0 conf0 =
     \<lparr>we_uuid = u, we_token = tok, we_conf = conf0, we_seqNum = seqn0,
      we_subscrTopic = LRUCache_new 0, we_workerSeqNum = LRUCache_new 0,
      we_isOnline = False, we_isSnapshot = False, we_brokerUuid = Uuid_null,
      we_zsnapshot = Socket_new, we_zdelivery = Socket_new, we_zdispatch = Socket_new,
      we_io = io_init\<rparr>"

definition WorkerSession_new :: "env \<Rightarrow> WorkerEnv \<Rightarrow> unit result \<times> WorkerSession" where
  "WorkerSession_new P e =
     (case ConnMachine_new (ws_conn_funcs P) 500 3000 e of (r1, c, e1) \<Rightarrow>
      case SyncMachine_new (ws_sync_funcs P) 0 1 3000 e1 of (r2, y, e2) \<Rightarrow>
        (bindR r1 (\<lambda>_. r2), \<lparr>ws_conn = c, ws_sync = y, ws_env = e2\<rparr>))"

section \<open>Configuration\<close>

text \<open>
  The subscribed names go to a cache without a limit: \<^verbatim>\<open>put\<close> never returns the end of the list, so
  the branch that restores the configuration is not taken.
\<close>

definition we_saveConfiguration :: "env \<Rightarrow> Part \<Rightarrow> unit wenv_action" where
  "we_saveConfiguration P part =
     bindA (liftA (WorkerConfig_fromPart (en_mem P) (en_arch P) part)) (\<lambda>c.
     updA (\<lambda>s. s\<lparr>we_conf := c,
       we_subscrTopic := foldl (\<lambda>m n. snd (lru_put n False m)) (lru_clear (we_subscrTopic s)) (wc_topicsNames c),
       we_seqNum := wc_seqNum c\<rparr>))"

section \<open>Topics from the broker\<close>

definition we_lastSeqNum :: "WorkerEnv \<Rightarrow> uuid \<Rightarrow> u64" where
  "we_lastSeqNum s w = (case lru_lookup (we_workerSeqNum s) w of None \<Rightarrow> 0 | Some n \<Rightarrow> n)"

text \<open>\<^verbatim>\<open>acceptTopic(const Uuid&, SeqN)\<close>.\<close>

definition we_acceptSeqNum :: "uuid \<times> u64 \<Rightarrow> WorkerEnv \<Rightarrow> bool \<times> WorkerEnv" where
  "we_acceptSeqNum wv s =
     (let last = we_lastSeqNum s (fst wv)
      in if snd wv \<le> last then (False, s)
         else (True, s\<lparr>we_workerSeqNum := snd (lru_put (fst wv) (snd wv) (we_workerSeqNum s))\<rparr>))"

text \<open>\<^verbatim>\<open>acceptTopic(const zmq::Part&)\<close>.\<close>

definition we_acceptTopic :: "env \<Rightarrow> Part \<Rightarrow> bool wenv_action" where
  "we_acceptTopic P part =
     bindA (liftA (Topic_fromPart (en_mem P) (en_arch P) part)) (\<lambda>t.
     bindA (\<lambda>s. case we_acceptSeqNum (tp_worker t, tp_seqn t) s of (b, s') \<Rightarrow> (Inr b, s')) (\<lambda>ok.
     if \<not> ok then retA False
     else (\<lambda>s. if tp_worker t \<noteq> wc_uuid (we_conf s) \<or> tp_seqn t \<le> we_seqNum s then (Inr True, s)
               else thenA (updA (\<lambda>s. s\<lparr>we_seqNum := tp_seqn t\<rparr>))
                 (thenA (we_notifySequenceNumber P) (retA True)) s)))"

definition ws_collectBrokerMessage :: "env \<Rightarrow> Part \<Rightarrow> unit worker_action" where
  "ws_collectBrokerMessage P payload =
     (let grp = c_str (zmq_msg_group payload) in
      if grp = BrokerHugz then connA (cm_onPing (ws_conn_funcs P))
      else bindA (readA (\<lambda>s. lru_find (Name_new grp) (we_subscrTopic (ws_env s)))) (\<lambda>it.
        if grp = BrokerUpdt \<or> it \<noteq> None
        then bindA (envA (we_acceptTopic P payload)) (\<lambda>acc.
             if acc then envA (we_sendEvent P EvDelivery payload) else retA ())
        else retA ()))"

section \<open>Snapshots\<close>

definition ws_recvBrokerSnapshot :: "env \<Rightarrow> Part \<Rightarrow> unit worker_action" where
  "ws_recvBrokerSnapshot P payload =
     bindA (liftA (unpack (en_mem P) (en_arch P) [TString, TUInt8, TPart] (pt_data payload))) (\<lambda>fs.
     case fs of
       [FString reply, FUInt8 syncseq, FPart d] \<Rightarrow>
         (let params = zmq_msg_init\<lparr>pt_data := d\<rparr> in
          if reply = BrokerSyncBegin
          then bindA (liftA (Uuid_fromPart (en_mem P) (en_arch P) params)) (\<lambda>u.
               thenA (envA (updA (\<lambda>s. s\<lparr>we_brokerUuid := u\<rparr>)))
               (envA (we_sendBrokerEvent P EvSyncBegin)))
          else if reply = BrokerSyncElemn
          then thenA (envA (we_acceptTopic P params))
               (thenA (envA (we_sendEvent P EvSyncElement params))
               (thenA (syncA (sm_onReply (ws_sync_funcs P) 0 syncseq Snapshot)) (retA ())))
          else if reply = BrokerSyncCompl
          then bindA (liftA (Uuid_fromPart (en_mem P) (en_arch P) params)) (\<lambda>u.
               thenA (envA (updA (\<lambda>s. s\<lparr>we_brokerUuid := u\<rparr>)))
               (thenA (syncA (sm_onReply (ws_sync_funcs P) 0 syncseq Complete)) (retA ())))
          else retA ())
     | _ \<Rightarrow> liftA throwAccessError)"

section \<open>Operations\<close>

definition we_dispatch :: "env \<Rightarrow> Part \<Rightarrow> unit wenv_action" where
  "we_dispatch P payload =
     thenA (updA (\<lambda>s. s\<lparr>we_seqNum := we_seqNum s + 1\<rparr>))
     (thenA (we_notifySequenceNumber P)
     (bindA (\<lambda>s. (bindR (Topic_part_withSeqNum (en_mem P) (en_arch P) payload (we_seqNum s))
         (withGroup (Some WorkerUpdt)), s)) (\<lambda>p.
     thenA (we_send P ChDispatch p) (retA ()))))"

definition ws_operationReady :: "env \<Rightarrow> Operation \<Rightarrow> unit worker_action" where
  "ws_operationReady P oper =
     (case op_type oper of
        OpStart \<Rightarrow>
          thenA (envA (we_saveConfiguration P (op_payload oper)))
          (thenA (envA (we_sendEvent P EvStarted (op_payload oper)))
          (connA (cm_onStart (ws_conn_funcs P))))
      | OpStop \<Rightarrow>
          thenA (connA (cm_onStop (ws_conn_funcs P)))
          (thenA (syncA (sm_onHalt (ws_sync_funcs P)))
          (envA (we_sendEvent P EvStopped (op_payload oper))))
      | OpDispatch \<Rightarrow> envA (we_dispatch P (op_payload oper))
      | OpSync \<Rightarrow>
          thenA (envA (updA (\<lambda>s. s\<lparr>we_brokerUuid := Uuid_null\<rparr>)))
          (syncA (sm_onSync (ws_sync_funcs P)))
      | OpInvalid \<Rightarrow> retA ())"

text \<open>What the poller reports as readable.\<close>

datatype ws_ready = WSnapshot Part | WDelivery Part | WRetry | WTimeout | WSyncTimeout

fun ws_socketReady :: "env \<Rightarrow> ws_ready \<Rightarrow> unit worker_action" where
  "ws_socketReady P (WSnapshot payload) = ws_recvBrokerSnapshot P payload"
| "ws_socketReady P (WDelivery payload) = ws_collectBrokerMessage P payload"
| "ws_socketReady P WRetry = connA (cm_onTimerRetryFired (ws_conn_funcs P))"
| "ws_socketReady P WTimeout = connA (cm_onTimerTimeoutFired (ws_conn_funcs P))"
| "ws_socketReady P WSyncTimeout = syncA (sm_onTimerTimeoutFired (ws_sync_funcs P))"

section \<open>What the callbacks keep\<close>

text \<open>Two states of the session that differ only in sockets, output and the uuid of the broker.\<close>

definition keeps :: "WorkerEnv \<Rightarrow> WorkerEnv \<Rightarrow> bool" where
  "keeps e e' \<longleftrightarrow>
     we_isOnline e' = we_isOnline e \<and> we_isSnapshot e' = we_isSnapshot e \<and> we_conf e' = we_conf e \<and>
     we_seqNum e' = we_seqNum e \<and> we_subscrTopic e' = we_subscrTopic e \<and>
     we_workerSeqNum e' = we_workerSeqNum e \<and> we_uuid e' = we_uuid e \<and> we_token e' = we_token e"

lemma keeps_refl [simp]: "keeps e e"
  by (simp add: keeps_def)

lemma keeps_trans [trans]: "keeps e e' \<Longrightarrow> keeps e' e'' \<Longrightarrow> keeps e e''"
  by (simp add: keeps_def)

named_theorems keeps_intro \<open>callbacks that keep the session\<close>

text \<open>An action keeps the session if its result always does.\<close>

abbreviation keepsA :: "'a wenv_action \<Rightarrow> bool" where
  "keepsA f \<equiv> frameA keeps f"

interpretation worker_frame: action_frame keeps
  by unfold_locales (auto intro: keeps_trans)

lemmas keepsA_frame [keeps_intro] =
  worker_frame.frame_bind worker_frame.frame_then worker_frame.frame_simple worker_frame.frame_upd
  worker_frame.frame_when

lemmas keepsA_def = frameA_def [of keeps]

lemmas keepsA_D = frameA_D [of keeps]

lemma keepsA_send [keeps_intro]: "keepsA (we_send P ch p)" "keepsA (we_sendEvent P ev pay)"
  by (simp_all add: keepsA_def we_send_def we_sendEvent_def keeps_def split: prod.split)

lemma keepsA_connect [keeps_intro]:
  "keepsA (we_connect P we_zdelivery we_zdelivery_update)"
  "keepsA (we_connect P we_zdispatch we_zdispatch_update)"
  "keepsA (we_connect P we_zsnapshot we_zsnapshot_update)"
  by (simp_all add: keepsA_def we_connect_def keeps_def split: prod.split)

lemma keepsA_callbacks [keeps_intro]:
  "keepsA we_connClose" "keepsA (we_connOpen P)" "keepsA we_snapClose" "keepsA (we_snapOpen P)"
  "keepsA (we_sendAnnounce P)" "keepsA (we_sendSync P n)" "keepsA (we_sendBrokerEvent P ev)"
  unfolding we_connClose_def we_connOpen_def we_snapClose_def we_snapOpen_def we_sendAnnounce_def
    we_sendSync_def we_sendBrokerEvent_def
  by (intro keeps_intro; simp add: keeps_def)+

lemma keepsA_notifySequenceNumber [keeps_intro]: "keepsA (we_notifySequenceNumber P)"
proof -
  have "keepsA (bindA (liftA (Part_uint (en_mem P) (en_arch P) n)) (we_send P ChSeqs))" for n :: u64
    by (intro keeps_intro)
  then show ?thesis
    by (auto simp: keepsA_def we_notifySequenceNumber_def split: prod.splits sum.splits fault.splits)
      (metis snd_conv)+
qed

text \<open>The two notifications set their flag and keep the rest.\<close>

lemma we_notifyConnectionUpdate_keeps:
  assumes "we_notifyConnectionUpdate P b e = (r, e')"
  shows "keeps (e\<lparr>we_isOnline := b\<rparr>) e'"
proof (cases "b = we_isOnline e")
  case True
  then show ?thesis using assms by (simp add: we_notifyConnectionUpdate_def whenA_def)
next
  case False
  then have "we_sendEvent P (if b then EvOnline else EvOffline) zmq_msg_init (e\<lparr>we_isOnline := b\<rparr>) = (r, e')"
    using assms by (simp add: we_notifyConnectionUpdate_def action_defs)
  then show ?thesis by (rule keepsA_D [OF keepsA_send(2)])
qed

lemma we_notifySnapshotDownload_keeps:
  assumes "we_notifySnapshotDownload P b e = (r, e')"
  shows "keeps (e\<lparr>we_isSnapshot := b\<rparr>) e'"
proof (cases "b = we_isSnapshot e")
  case True
  then show ?thesis using assms by (simp add: we_notifySnapshotDownload_def whenA_def)
next
  case False
  then have "we_sendEvent P (if b then EvSyncDownloadOn else EvSyncDownloadOff) zmq_msg_init (e\<lparr>we_isSnapshot := b\<rparr>) = (r, e')"
    using assms by (simp add: we_notifySnapshotDownload_def action_defs)
  then show ?thesis by (rule keepsA_D [OF keepsA_send(2)])
qed

lemma we_onConnChanged_keeps:
  "we_onConnChanged P st e = (Inr x, e') \<Longrightarrow> keeps (e\<lparr>we_isOnline := (st = Stable)\<rparr>) e'"
  by (cases st) (auto dest: we_notifyConnectionUpdate_keeps)

lemma we_onSyncChanged_keeps:
  assumes "we_onSyncChanged P st e = (Inr x, e')"
  shows "keeps (e\<lparr>we_isSnapshot := (st = SyDownload)\<rparr>) e'"
proof (cases "st = SyDownload")
  case True
  then show ?thesis using assms by (auto dest: we_notifySnapshotDownload_keeps)
next
  case False
  then obtain e1 where e1: "keeps e e1" and n: "we_notifySnapshotDownload P False e1 = (Inr x, e')"
  proof (cases st)
    case SyHalted
    have k: "keepsA (whenA we_isSnapshot (we_sendBrokerEvent P EvSyncError))"
      by (intro keeps_intro)
    obtain y e0 where "whenA we_isSnapshot (we_sendBrokerEvent P EvSyncError) e = (Inr y, e0)"
      and n: "we_notifySnapshotDownload P False (e0\<lparr>we_brokerUuid := Uuid_null\<rparr>) = (Inr x, e')"
      using SyHalted assms by (auto simp: thenA_Inr updA_def)
    then have "keeps e (e0\<lparr>we_brokerUuid := Uuid_null\<rparr>)"
      using keepsA_D [OF k] by (force simp: keeps_def)
    then show ?thesis using that n by blast
  next
    case SySynced
    with assms show ?thesis
      by (auto simp: thenA_Inr dest: keepsA_D [OF keepsA_callbacks(7)] intro: that)
  next
    case SyFailed
    with assms show ?thesis
      by (auto simp: thenA_Inr dest: keepsA_D [OF keepsA_callbacks(7)] intro: that)
  qed simp
  have "keeps (e1\<lparr>we_isSnapshot := False\<rparr>) e'" by (rule we_notifySnapshotDownload_keeps [OF n])
  then show ?thesis using False e1 by (simp add: keeps_def)
qed

section \<open>The sequence numbers of the workers\<close>

definition seqs_inv :: "WorkerEnv \<Rightarrow> bool" where
  "seqs_inv e \<longleftrightarrow> lru_inv (we_workerSeqNum e) \<and> lru_capacity (we_workerSeqNum e) = 0"

interpretation worker_filter: seq_filter seqs_inv we_acceptSeqNum we_lastSeqNum fst snd "\<lambda>_ _. True"
proof
  fix s :: WorkerEnv and x :: "uuid \<times> u64" and k :: uuid
  assume inv: "seqs_inv s"
  then have i: "lru_inv (we_workerSeqNum s)" and c: "lru_capacity (we_workerSeqNum s) = 0"
    by (auto simp: seqs_inv_def)
  show "seqs_inv (snd (we_acceptSeqNum x s))"
    using inv by (auto simp: we_acceptSeqNum_def seqs_inv_def Let_def)
  show "fst (we_acceptSeqNum x s) \<longleftrightarrow> we_lastSeqNum s (fst x) < snd x"
    by (auto simp: we_acceptSeqNum_def Let_def)
  show "we_lastSeqNum (snd (we_acceptSeqNum x s)) (fst x) = snd x" if "fst (we_acceptSeqNum x s)"
    using that lru.unbounded_put [OF i c]
    by (auto simp: we_acceptSeqNum_def Let_def we_lastSeqNum_def split: if_splits)
  show "we_lastSeqNum (snd (we_acceptSeqNum x s)) k = we_lastSeqNum s k"
    if "fst (we_acceptSeqNum x s)" "True" "k \<noteq> fst x"
    using that lru.unbounded_put [OF i c]
    by (auto simp: we_acceptSeqNum_def Let_def we_lastSeqNum_def split: if_splits)
  show "we_lastSeqNum (snd (we_acceptSeqNum x s)) k = we_lastSeqNum s k" if "\<not> fst (we_acceptSeqNum x s)"
    using that by (auto simp: we_acceptSeqNum_def Let_def)
qed

lemma run_all_True: "run_all (\<lambda>_ _. True) f xs s"
  by (induction xs arbitrary: s) simp_all

section \<open>The session invariant\<close>

text \<open>
  Both machines keep their invariants, and the flags that the session reports to its user are those
  of the machines: online exactly when the connection is stable, downloading exactly when the
  synchronization is.
\<close>

definition worker_inv :: "WorkerSession \<Rightarrow> bool" where
  "worker_inv s \<longleftrightarrow> conn_inv (ws_conn s) \<and> sync_inv (ws_sync s) \<and> seqs_inv (ws_env s) \<and>
     we_isOnline (ws_env s) = (cm_state (ws_conn s) = Stable) \<and>
     we_isSnapshot (ws_env s) = (sm_state (ws_sync s) = SyDownload)"

definition ws_frame :: "WorkerEnv \<Rightarrow> WorkerEnv \<Rightarrow> bool" where
  "ws_frame e e' \<longleftrightarrow> we_isOnline e' = we_isOnline e \<and> we_isSnapshot e' = we_isSnapshot e \<and>
     (seqs_inv e \<longrightarrow> seqs_inv e')"

lemma keeps_frame: "keeps e e' \<Longrightarrow> ws_frame e e'"
  by (simp add: keeps_def ws_frame_def seqs_inv_def)

lemma worker_inv_env:
  "worker_inv s \<Longrightarrow> ws_frame (ws_env s) e' \<Longrightarrow> worker_inv (s\<lparr>ws_env := e'\<rparr>)"
  by (simp add: worker_inv_def ws_frame_def)

text \<open>The calls of a connection handler: only a change of state touches the flag.\<close>

lemma conn_call_keeps:
  assumes "run_conn_call (ws_conn_funcs P) c e = (Inr x, e')"
  shows "keeps (case c of OnChange st \<Rightarrow> e\<lparr>we_isOnline := (st = Stable)\<rparr> | _ \<Rightarrow> e) e'"
  using assms keepsA_D [OF keepsA_callbacks(1)] keepsA_D [OF keepsA_callbacks(2)]
    keepsA_D [OF keepsA_callbacks(5)] we_onConnChanged_keeps
  by (cases c) (auto simp: ws_conn_funcs_def)

lemma sync_call_keeps:
  assumes "run_sync_call (ws_sync_funcs P) c e = (Inr x, e')"
  shows "keeps (case c of SOnChange st \<Rightarrow> e\<lparr>we_isSnapshot := (st = SyDownload)\<rparr> | _ \<Rightarrow> e) e'"
  using assms keepsA_D [OF keepsA_callbacks(3)] keepsA_D [OF keepsA_callbacks(4)]
    keepsA_D [OF keepsA_callbacks(6)] we_onSyncChanged_keeps
  by (cases c) (auto simp: ws_sync_funcs_def)

fun conn_flag :: "conn_call list \<Rightarrow> bool \<Rightarrow> bool" where
  "conn_flag [] b = b"
| "conn_flag (OnChange st # cs) b = conn_flag cs (st = Stable)"
| "conn_flag (_ # cs) b = conn_flag cs b"

fun sync_flag :: "sync_call list \<Rightarrow> bool \<Rightarrow> bool" where
  "sync_flag [] b = b"
| "sync_flag (SOnChange st # cs) b = sync_flag cs (st = SyDownload)"
| "sync_flag (_ # cs) b = sync_flag cs b"

lemma conn_calls_keeps:
  "forA cs (run_conn_call (ws_conn_funcs P)) e = (Inr x, e') \<Longrightarrow>
     keeps (e\<lparr>we_isOnline := conn_flag cs (we_isOnline e)\<rparr>) e'"
proof (induction cs arbitrary: e)
  case Nil
  then show ?case by (simp add: retA_def)
next
  case (Cons c cs)
  then obtain y e1 where c: "run_conn_call (ws_conn_funcs P) c e = (Inr y, e1)"
    and cs: "forA cs (run_conn_call (ws_conn_funcs P)) e1 = (Inr x, e')"
    by (auto simp: thenA_Inr)
  show ?case
    using conn_call_keeps [OF c] Cons.IH [OF cs] by (cases c) (auto simp: keeps_def)
qed

lemma sync_calls_keeps:
  "forA cs (run_sync_call (ws_sync_funcs P)) e = (Inr x, e') \<Longrightarrow>
     keeps (e\<lparr>we_isSnapshot := sync_flag cs (we_isSnapshot e)\<rparr>) e'"
proof (induction cs arbitrary: e)
  case Nil
  then show ?case by (simp add: retA_def)
next
  case (Cons c cs)
  then obtain y e1 where c: "run_sync_call (ws_sync_funcs P) c e = (Inr y, e1)"
    and cs: "forA cs (run_sync_call (ws_sync_funcs P)) e1 = (Inr x, e')"
    by (auto simp: thenA_Inr)
  show ?case
    using sync_call_keeps [OF c] Cons.IH [OF cs] by (cases c) (auto simp: keeps_def)
qed

lemma conn_flag_next:
  "conn_flag (conn_calls st ev) (st = Stable) = (conn_next st ev = Stable)"
  by (cases ev; cases st) simp_all

lemma sync_flag_next:
  "sync_flag (sync_calls m ev) (sm_state m = SyDownload) = (sm_state (sync_next m ev) = SyDownload)"
proof (cases ev)
  case (YReply i n r)
  then show ?thesis by (cases r) auto
qed (cases "sm_state m"; auto simp: Let_def)+

text \<open>Every event of a machine keeps the invariant of the session.\<close>

lemma worker_inv_conn:
  assumes inv: "worker_inv s" and h: "connA (conn_handle (ws_conn_funcs P) ev) s = (Inr x, s')"
  shows "worker_inv s'"
proof -
  obtain c e where ce: "conn_handle (ws_conn_funcs P) ev (ws_conn s, ws_env s) = (Inr x, c, e)"
    and s': "s' = s\<lparr>ws_conn := c, ws_env := e\<rparr>"
    using h by (auto simp: connA_def split: prod.splits)
  have "conn_inv c" using conn_inv_step [OF _ ce] inv by (simp add: worker_inv_def)
  moreover have "cm_state c = conn_next (cm_state (ws_conn s)) ev" using conn_handle_next [OF ce] by simp
  moreover have "forA (conn_calls (cm_state (ws_conn s)) ev) (run_conn_call (ws_conn_funcs P)) (ws_env s) = (Inr x, e)"
    using conn_handle_calls [of "ws_conn_funcs P" ev "ws_conn s" "ws_env s"] ce by simp
  from conn_calls_keeps [OF this]
  have "keeps ((ws_env s)\<lparr>we_isOnline := (conn_next (cm_state (ws_conn s)) ev = Stable)\<rparr>) e"
    using inv conn_flag_next by (simp add: worker_inv_def)
  ultimately show ?thesis using inv by (simp add: worker_inv_def s' keeps_def seqs_inv_def)
qed

lemma worker_inv_sync:
  assumes inv: "worker_inv s" and h: "syncA (sync_handle (ws_sync_funcs P) ev) s = (Inr x, s')"
  shows "worker_inv s'"
proof -
  obtain m e where me: "sync_handle (ws_sync_funcs P) ev (ws_sync s, ws_env s) = (Inr x, m, e)"
    and s': "s' = s\<lparr>ws_sync := m, ws_env := e\<rparr>"
    using h by (auto simp: syncA_def split: prod.splits)
  have si: "sync_inv (ws_sync s)" using inv by (simp add: worker_inv_def)
  have m: "m = sync_next (ws_sync s) ev" using sync_handle_next [OF me] by simp
  have "forA (sync_calls (ws_sync s) ev) (run_sync_call (ws_sync_funcs P)) (ws_env s) = (Inr x, e)"
    using sync_handle_calls [OF si, of "ws_sync_funcs P" ev "ws_env s"] me by simp
  from sync_calls_keeps [OF this]
  have "keeps ((ws_env s)\<lparr>we_isSnapshot := (sm_state m = SyDownload)\<rparr>) e"
    using inv sync_flag_next [of "ws_sync s" ev] m by (simp add: worker_inv_def)
  then show ?thesis
    using inv sync_inv_next [OF si] m by (simp add: worker_inv_def s' keeps_def seqs_inv_def)
qed

lemma syncA_onReply:
  "syncA (sm_onReply cb i n r) s = (Inr x, s') \<Longrightarrow> syncA (sync_handle cb (YReply i n r)) s = (Inr (), s')"
  by (auto simp: syncA_def thenA_def bindA_def retA_def split: prod.splits)

lemma frameA_env:
  assumes "envA f s = (Inr x, s')" and "worker_inv s" and "\<And>e r e'. f e = (r, e') \<Longrightarrow> ws_frame e e'"
  shows "worker_inv s'"
proof -
  obtain e' where "f (ws_env s) = (Inr x, e')" and s': "s' = s\<lparr>ws_env := e'\<rparr>"
    using assms(1) by (auto simp: envA_def split: prod.splits)
  then show ?thesis using assms(2,3) worker_inv_env by blast
qed

lemma worker_inv_keepsA:
  "keepsA f \<Longrightarrow> envA f s = (Inr x, s') \<Longrightarrow> worker_inv s \<Longrightarrow> worker_inv s'"
  by (erule frameA_env) (auto dest: keepsA_D keeps_frame)

lemma seqs_inv_accept: "seqs_inv e \<Longrightarrow> seqs_inv (snd (we_acceptSeqNum x e))"
  by (rule worker_filter.accept_inv)

lemma we_acceptTopic_frame:
  assumes "we_acceptTopic P part e = (r, e')"
  shows "ws_frame e e'"
proof (cases "Topic_fromPart (en_mem P) (en_arch P) part")
  case (Inl x)
  then show ?thesis using assms by (auto simp: we_acceptTopic_def action_defs ws_frame_def)
next
  case (Inr t)
  obtain b e1 where a: "we_acceptSeqNum (tp_worker t, tp_seqn t) e = (b, e1)"
    by (cases "we_acceptSeqNum (tp_worker t, tp_seqn t) e")
  have f1: "ws_frame e e1"
    using a seqs_inv_accept [of e "(tp_worker t, tp_seqn t)"]
    by (auto simp: we_acceptSeqNum_def Let_def ws_frame_def split: if_splits)
  have n: "ws_frame (e1\<lparr>we_seqNum := v\<rparr>) e2" if "we_notifySequenceNumber P (e1\<lparr>we_seqNum := v\<rparr>) = (q, e2)" for v q e2
    using keepsA_D [OF keepsA_notifySequenceNumber that] by (rule keeps_frame)
  show ?thesis
    using assms Inr a f1 n
    by (force simp: we_acceptTopic_def action_defs ws_frame_def seqs_inv_def split: if_splits prod.splits sum.splits)
qed

lemma worker_inv_acceptTopic:
  "envA (we_acceptTopic P part) s = (Inr x, s') \<Longrightarrow> worker_inv s \<Longrightarrow> worker_inv s'"
  by (erule frameA_env) (auto intro: we_acceptTopic_frame)

lemma we_saveConfiguration_frame:
  "we_saveConfiguration P part e = (r, e') \<Longrightarrow> ws_frame e e'"
  by (auto simp: we_saveConfiguration_def action_defs ws_frame_def seqs_inv_def split: sum.splits)

lemma we_dispatch_frame:
  assumes "we_dispatch P payload e = (r, e')"
  shows "ws_frame e e'"
proof -
  let ?e = "e\<lparr>we_seqNum := we_seqNum e + 1\<rparr>"
  have "keepsA (thenA (we_notifySequenceNumber P)
     (bindA (\<lambda>s. (bindR (Topic_part_withSeqNum (en_mem P) (en_arch P) payload (we_seqNum s))
         (withGroup (Some WorkerUpdt)), s)) (\<lambda>p. thenA (we_send P ChDispatch p) (retA ()))))"
    by (intro keeps_intro)
  from keepsA_D [OF this, of ?e r e'] have "keeps ?e e'"
    using assms by (simp add: we_dispatch_def thenA_def bindA_def updA_def)
  then have "ws_frame ?e e'" by (rule keeps_frame)
  then show ?thesis by (simp add: ws_frame_def seqs_inv_def)
qed

section \<open>Runs of the session\<close>

datatype ws_event = WOperation Operation | WReady ws_ready | WClockTry | WClockTmo | WClockSync

fun ws_handle :: "env \<Rightarrow> ws_event \<Rightarrow> unit worker_action" where
  "ws_handle P (WOperation oper) = ws_operationReady P oper"
| "ws_handle P (WReady r) = ws_socketReady P r"
| "ws_handle P WClockTry = connA (conn_handle (ws_conn_funcs P) CClockTry)"
| "ws_handle P WClockTmo = connA (conn_handle (ws_conn_funcs P) CClockTmo)"
| "ws_handle P WClockSync = syncA (sync_handle (ws_sync_funcs P) YClock)"

inductive ws_reach :: "env \<Rightarrow> WorkerSession \<Rightarrow> bool" for P where
  init: "WorkerSession_new P (WorkerEnv_init u tok seqn0 conf0) = (Inr (), s) \<Longrightarrow> ws_reach P s"
| step: "ws_reach P s \<Longrightarrow> ws_handle P ev s = (Inr (), s') \<Longrightarrow> ws_reach P s'"

lemma worker_inv_operation:
  assumes "worker_inv s" and "ws_operationReady P oper s = (Inr x, s')"
  shows "worker_inv s'"
proof (cases "op_type oper")
  case OpStart
  with assms(2) obtain y1 s1 y2 s2 where
      a1: "envA (we_saveConfiguration P (op_payload oper)) s = (Inr y1, s1)"
    and a2: "envA (we_sendEvent P EvStarted (op_payload oper)) s1 = (Inr y2, s2)"
    and a3: "connA (conn_handle (ws_conn_funcs P) CStart) s2 = (Inr x, s')"
    by (auto simp: ws_operationReady_def thenA_Inr)
  have "worker_inv s1" using frameA_env [OF a1 assms(1)] we_saveConfiguration_frame by blast
  then have "worker_inv s2" by (rule worker_inv_keepsA [OF keepsA_send(2) a2])
  then show ?thesis by (rule worker_inv_conn [OF _ a3])
next
  case OpStop
  with assms(2) obtain y1 s1 y2 s2 where
      a1: "connA (conn_handle (ws_conn_funcs P) CStop) s = (Inr y1, s1)"
    and a2: "syncA (sync_handle (ws_sync_funcs P) YHalt) s1 = (Inr y2, s2)"
    and a3: "envA (we_sendEvent P EvStopped (op_payload oper)) s2 = (Inr x, s')"
    by (auto simp: ws_operationReady_def thenA_Inr)
  have "worker_inv s1" by (rule worker_inv_conn [OF assms(1) a1])
  then have "worker_inv s2" by (rule worker_inv_sync [OF _ a2])
  then show ?thesis by (rule worker_inv_keepsA [OF keepsA_send(2) a3])
next
  case OpDispatch
  with assms show ?thesis
    using frameA_env [of "we_dispatch P (op_payload oper)" s x s'] we_dispatch_frame
    by (auto simp: ws_operationReady_def)
next
  case OpSync
  with assms(2) obtain y1 s1 where
      a1: "envA (updA (\<lambda>s. s\<lparr>we_brokerUuid := Uuid_null\<rparr>)) s = (Inr y1, s1)"
    and a2: "syncA (sync_handle (ws_sync_funcs P) YSync) s1 = (Inr x, s')"
    by (auto simp: ws_operationReady_def thenA_Inr)
  have "worker_inv s1"
    by (rule worker_inv_keepsA [OF _ a1 assms(1)]) (intro keeps_intro, simp add: keeps_def)
  then show ?thesis by (rule worker_inv_sync [OF _ a2])
next
  case OpInvalid
  with assms show ?thesis by (simp add: ws_operationReady_def)
qed

lemma worker_inv_collect:
  assumes inv: "worker_inv s" and h: "ws_collectBrokerMessage P payload s = (Inr x, s')"
  shows "worker_inv s'"
proof (cases "c_str (zmq_msg_group payload) = BrokerHugz")
  case True
  then have "connA (conn_handle (ws_conn_funcs P) CPing) s = (Inr x, s')"
    using h by (simp add: ws_collectBrokerMessage_def)
  then show ?thesis by (rule worker_inv_conn [OF inv])
next
  case False
  have "s' = s \<or> (\<exists>acc s1. envA (we_acceptTopic P payload) s = (Inr acc, s1) \<and>
      (s' = s1 \<or> envA (we_sendEvent P EvDelivery payload) s1 = (Inr x, s')))"
    using h False
    by (auto simp: ws_collectBrokerMessage_def Let_def bindA_def readA_def retA_def
        split: prod.splits sum.splits if_splits)
  then show ?thesis
    using inv worker_inv_acceptTopic worker_inv_keepsA [OF keepsA_send(2)] by metis
qed

lemma worker_inv_snapshot:
  assumes inv: "worker_inv s" and h: "ws_recvBrokerSnapshot P payload s = (Inr x, s')"
  shows "worker_inv s'"
proof -
  have upd: "keepsA (updA (\<lambda>s. s\<lparr>we_brokerUuid := u\<rparr>))" for u
    by (intro keeps_intro) (simp add: keeps_def)
  obtain fs where fs: "unpack (en_mem P) (en_arch P) [TString, TUInt8, TPart] (pt_data payload) = Inr fs"
    using h by (cases "unpack (en_mem P) (en_arch P) [TString, TUInt8, TPart] (pt_data payload)")
      (auto simp: ws_recvBrokerSnapshot_def bindA_def liftA_def)
  show ?thesis
  proof (cases "\<exists>reply syncseq d. fs = [FString reply, FUInt8 syncseq, FPart d]")
    case False
    then have "ws_recvBrokerSnapshot P payload s = (throwAccessError, s)"
      by (auto simp: ws_recvBrokerSnapshot_def bindA_def liftA_def fs split: list.splits field.splits)
    then show ?thesis using h by simp
  next
    case True
    then obtain reply syncseq d where f: "fs = [FString reply, FUInt8 syncseq, FPart d]" by auto
    let ?p = "zmq_msg_init\<lparr>pt_data := d\<rparr>"
    consider (bgn) "reply = BrokerSyncBegin" | (elem) "reply \<noteq> BrokerSyncBegin" "reply = BrokerSyncElemn"
      | (compl) "reply \<noteq> BrokerSyncBegin" "reply \<noteq> BrokerSyncElemn" "reply = BrokerSyncCompl"
      | (other) "reply \<noteq> BrokerSyncBegin" "reply \<noteq> BrokerSyncElemn" "reply \<noteq> BrokerSyncCompl"
      by blast
    then show ?thesis
    proof cases
      case bgn
      then obtain u y1 s1 where
          a1: "envA (updA (\<lambda>s. s\<lparr>we_brokerUuid := u\<rparr>)) s = (Inr y1, s1)"
        and a2: "envA (we_sendBrokerEvent P EvSyncBegin) s1 = (Inr x, s')"
        using h by (auto simp: ws_recvBrokerSnapshot_def fs f bindA_def [of "liftA _"] liftA_def thenA_Inr Let_def
            split: sum.splits)
      then show ?thesis
        using worker_inv_keepsA [OF upd a1 inv] worker_inv_keepsA [OF keepsA_callbacks(7) a2] by blast
    next
      case elem
      then obtain y1 s1 y2 s2 y3 where
          a1: "envA (we_acceptTopic P ?p) s = (Inr y1, s1)"
        and a2: "envA (we_sendEvent P EvSyncElement ?p) s1 = (Inr y2, s2)"
        and a3: "syncA (sm_onReply (ws_sync_funcs P) 0 syncseq Snapshot) s2 = (Inr y3, s')"
        using h by (auto simp: ws_recvBrokerSnapshot_def fs f bindA_def [of "liftA _"] liftA_def thenA_Inr Let_def)
      have "worker_inv s2"
        using worker_inv_acceptTopic [OF a1 inv] worker_inv_keepsA [OF keepsA_send(2) a2] by blast
      then show ?thesis by (rule worker_inv_sync [OF _ syncA_onReply [OF a3]])
    next
      case compl
      then obtain u y1 s1 y3 where
          a1: "envA (updA (\<lambda>s. s\<lparr>we_brokerUuid := u\<rparr>)) s = (Inr y1, s1)"
        and a3: "syncA (sm_onReply (ws_sync_funcs P) 0 syncseq Complete) s1 = (Inr y3, s')"
        using h by (auto simp: ws_recvBrokerSnapshot_def fs f bindA_def [of "liftA _"] liftA_def thenA_Inr Let_def
            split: sum.splits)
      show ?thesis
        using worker_inv_keepsA [OF upd a1 inv] worker_inv_sync [OF _ syncA_onReply [OF a3]] by blast
    next
      case other
      then show ?thesis using h inv by (auto simp: ws_recvBrokerSnapshot_def fs f bindA_def liftA_def)
    qed
  qed
qed

lemma worker_inv_handle:
  assumes inv: "worker_inv s" and h: "ws_handle P ev s = (Inr x, s')"
  shows "worker_inv s'"
proof (cases ev)
  case (WOperation oper)
  then show ?thesis using h worker_inv_operation [OF inv] by simp
next
  case (WReady r)
  show ?thesis
  proof (cases r)
    case (WSnapshot payload)
    then show ?thesis using h WReady worker_inv_snapshot [OF inv] by simp
  next
    case (WDelivery payload)
    then show ?thesis using h WReady worker_inv_collect [OF inv] by simp
  next
    case WRetry
    then show ?thesis using h WReady worker_inv_conn [OF inv, of P CRetryFired] by simp
  next
    case WTimeout
    then show ?thesis using h WReady worker_inv_conn [OF inv, of P CTimeoutFired] by simp
  next
    case WSyncTimeout
    then show ?thesis using h WReady worker_inv_sync [OF inv, of P YTimeoutFired] by simp
  qed
next
  case WClockTry
  then show ?thesis using h worker_inv_conn [OF inv, of P CClockTry] by simp
next
  case WClockTmo
  then show ?thesis using h worker_inv_conn [OF inv, of P CClockTmo] by simp
next
  case WClockSync
  then show ?thesis using h worker_inv_sync [OF inv, of P YClock] by simp
qed

lemma worker_inv_new:
  assumes "WorkerSession_new P (WorkerEnv_init u tok seqn0 conf0) = (Inr (), s)"
  shows "worker_inv s"
proof -
  let ?e = "WorkerEnv_init u tok seqn0 conf0"
  obtain c e1 y e2 where c: "ConnMachine_new (ws_conn_funcs P) 500 3000 ?e = (Inr (), c, e1)"
    and y: "SyncMachine_new (ws_sync_funcs P) 0 1 3000 e1 = (Inr (), y, e2)"
    and s: "s = \<lparr>ws_conn = c, ws_sync = y, ws_env = e2\<rparr>"
    using assms by (auto simp: WorkerSession_new_def split: prod.splits)
  have k1: "keeps ?e e1" and c1: "cm_state c = Halted"
    using c by (auto simp: ConnMachine_new_def cm_halt_def cm_change_def ConnMachine_init_def
        ws_conn_funcs_def action_Inr we_connClose_def updA_def keeps_def)
  have k2: "keeps e1 e2" and y1: "sm_state y = SyHalted"
    using y by (auto simp: SyncMachine_new_def sm_halt_def sm_change_def sm_close_def SyncMachine_init_def
        ws_sync_funcs_def action_Inr we_snapClose_def updA_def keeps_def liftA_def upto.simps)
  show ?thesis
    using conn_inv_init [OF c] sync_inv_init [OF y] k1 k2 c1 y1
    by (simp add: worker_inv_def s keeps_def seqs_inv_def WorkerEnv_init_def)
qed

lemma ws_reach_inv: "ws_reach P s \<Longrightarrow> worker_inv s"
  by (induction rule: ws_reach.induct) (auto intro: worker_inv_new worker_inv_handle)

section \<open>Accepting and dispatching topics\<close>

text \<open>Sending one part on a network that takes it.\<close>

definition we_sent :: "chan \<Rightarrow> Part \<Rightarrow> WorkerEnv \<Rightarrow> WorkerEnv" where
  "we_sent ch p e = e\<lparr>we_io := (we_io e)\<lparr>io_sends := Suc (io_sends (we_io e)), io_sent := io_sent (we_io e) @ [(ch, p)]\<rparr>\<rparr>"

lemma we_send_dispatch:
  "sk_open (we_zdispatch e) \<Longrightarrow> nt_send (en_net P) (io_sends (we_io e)) = Sent \<Longrightarrow>
     we_send P ChDispatch p e = (Inr (int (length (pt_data p))), we_sent ChDispatch p e)"
  by (simp add: we_send_def sendMessagePart_def we_sent_def Let_def)

lemma we_notify_ok:
  assumes "allocator_ok (en_mem P)" and "nt_send (en_net P) (io_sends (we_io e)) = Sent"
  obtains q where "Part_uint (en_mem P) (en_arch P) (we_seqNum e) = Inr q"
    "we_notifySequenceNumber P e = (Inr (), we_sent ChSeqs q e)"
proof -
  obtain q where q: "Part_uint (en_mem P) (en_arch P) (we_seqNum e) = Inr q"
    using Part_uint_eq [OF assms(1), of "en_arch P" "we_seqNum e"] by (simp add: max_vsm_size_def)
  then have "we_notifySequenceNumber P e = (Inr (), we_sent ChSeqs q e)"
    using assms(2)
    by (simp add: we_notifySequenceNumber_def bindA_def liftA_def we_send_def sendMessagePart_def we_sent_def Let_def)
  then show thesis using that q by blast
qed

text \<open>The whole of accepting a topic, on a part that decodes.\<close>

lemma we_acceptTopic_spec:
  assumes t: "Topic_fromPart (en_mem P) (en_arch P) part = Inr t" and inv: "seqs_inv e"
    and mem: "allocator_ok (en_mem P)" and net: "nt_send (en_net P) (io_sends (we_io e)) = Sent"
  obtains e' where
    "we_acceptTopic P part e = (Inr (we_lastSeqNum e (tp_worker t) < tp_seqn t), e')"
    "we_lastSeqNum e' w = (if w = tp_worker t then max (we_lastSeqNum e w) (tp_seqn t) else we_lastSeqNum e w)"
    "we_seqNum e' = (if we_lastSeqNum e (tp_worker t) < tp_seqn t \<and> tp_worker t = wc_uuid (we_conf e)
       then max (we_seqNum e) (tp_seqn t) else we_seqNum e)"
proof -
  let ?x = "(tp_worker t, tp_seqn t)"
  obtain b e1 where a: "we_acceptSeqNum ?x e = (b, e1)" by (cases "we_acceptSeqNum ?x e")
  have b: "b \<longleftrightarrow> we_lastSeqNum e (tp_worker t) < tp_seqn t"
    using worker_filter.accept_iff [OF inv, of ?x] a by simp
  have last: "we_lastSeqNum e1 w = (if w = tp_worker t then max (we_lastSeqNum e w) (tp_seqn t) else we_lastSeqNum e w)"
    using worker_filter.accept_last [OF inv, of ?x w] a by simp
  have e1: "we_conf e1 = we_conf e" "we_seqNum e1 = we_seqNum e" "we_io e1 = we_io e"
    using a by (auto simp: we_acceptSeqNum_def Let_def split: if_splits)
  have run: "we_acceptTopic P part e =
      (if \<not> b then (Inr False, e1)
       else if tp_worker t \<noteq> wc_uuid (we_conf e1) \<or> tp_seqn t \<le> we_seqNum e1 then (Inr True, e1)
       else thenA (updA (\<lambda>s. s\<lparr>we_seqNum := tp_seqn t\<rparr>)) (thenA (we_notifySequenceNumber P) (retA True)) e1)"
    using t a by (simp add: we_acceptTopic_def bindA_def liftA_def retA_def)
  show ?thesis
  proof (cases "b \<and> tp_worker t = wc_uuid (we_conf e1) \<and> we_seqNum e1 < tp_seqn t")
    case False
    then have "we_acceptTopic P part e = (Inr b, e1)" using run by auto
    moreover have "we_seqNum e1 = (if b \<and> tp_worker t = wc_uuid (we_conf e) then max (we_seqNum e) (tp_seqn t) else we_seqNum e)"
      using False e1 by (auto simp: max_def)
    ultimately show ?thesis using that [of e1] last unfolding b by blast
  next
    case True
    obtain e2 where n: "we_notifySequenceNumber P (e1\<lparr>we_seqNum := tp_seqn t\<rparr>) = (Inr (), e2)"
      using we_notify_ok [OF mem, of "e1\<lparr>we_seqNum := tp_seqn t\<rparr>"] net e1 by (metis WorkerEnv.select_convs(13) WorkerEnv.surjective WorkerEnv.update_convs(4))
    have k: "keeps (e1\<lparr>we_seqNum := tp_seqn t\<rparr>) e2"
      by (rule keepsA_D [OF keepsA_notifySequenceNumber n])
    have "we_acceptTopic P part e = (Inr b, e2)"
      using run True n by (auto simp: thenA_def bindA_def updA_def retA_def)
    moreover have "we_lastSeqNum e2 = we_lastSeqNum e1" "we_seqNum e2 = tp_seqn t"
      using k by (auto simp: keeps_def we_lastSeqNum_def fun_eq_iff)
    moreover have "tp_seqn t = (if b \<and> tp_worker t = wc_uuid (we_conf e) then max (we_seqNum e) (tp_seqn t) else we_seqNum e)"
      using True e1 by (auto simp: max_def)
    ultimately show ?thesis using that [of e2] last unfolding b by simp
  qed
qed

lemma we_dispatch_ok:
  assumes mem: "allocator_ok (en_mem P)" and t: "topic_ok t" and p: "Topic_toPart (en_mem P) (en_arch P) t = Inr p"
    and opn: "sk_open (we_zdispatch e)" and net: "\<forall>k \<ge> io_sends (we_io e). nt_send (en_net P) k = Sent"
  obtains n q r e' where
    "Part_uint (en_mem P) (en_arch P) (we_seqNum e + 1) = Inr n"
    "Topic_toPart (en_mem P) (en_arch P) (withSeqNum (we_seqNum e + 1) t) = Inr q"
    "withGroup (Some WorkerUpdt) q = Inr r"
    "we_dispatch P p e = (Inr (), e')" "we_seqNum e' = we_seqNum e + 1"
    "io_sent (we_io e') = io_sent (we_io e) @ [(ChSeqs, n), (ChDispatch, r)]"
proof -
  let ?e = "e\<lparr>we_seqNum := we_seqNum e + 1\<rparr>"
  obtain n where n: "Part_uint (en_mem P) (en_arch P) (we_seqNum e + 1) = Inr n"
      "we_notifySequenceNumber P ?e = (Inr (), we_sent ChSeqs n ?e)"
    using we_notify_ok [OF mem, of ?e] net by auto
  have t': "topic_ok (withSeqNum (we_seqNum e + 1) t)" using t by (simp add: topic_ok_def withSeqNum_def)
  have q0: "Topic_part_withSeqNum (en_mem P) (en_arch P) p (we_seqNum e + 1) =
      Topic_toPart (en_mem P) (en_arch P) (withSeqNum (we_seqNum e + 1) t)"
    by (rule Topic_patched [OF mem t p])
  obtain q where q: "Topic_part_withSeqNum (en_mem P) (en_arch P) p (we_seqNum e + 1) = Inr q"
    using Topic_patched_returns [OF mem t p] by blast
  then have q': "Topic_toPart (en_mem P) (en_arch P) (withSeqNum (we_seqNum e + 1) t) = Inr q" using q0 by simp
  have "pt_group q = SGroup []"
    using pack_Inr_iff [OF mem topic_fields_ok [OF t'], of "en_arch P" q] q'
    by (simp add: Topic_toPart_fields zmq_msg_init_def)
  then obtain r where r: "withGroup (Some WorkerUpdt) q = Inr r"
    using setGroup_spec [of WorkerUpdt q] by (auto simp: withGroup_def session_env str_def c_str_def)
  let ?e1 = "we_sent ChSeqs n ?e"
  have s: "we_send P ChDispatch r ?e1 = (Inr (int (length (pt_data r))), we_sent ChDispatch r ?e1)"
    using opn net by (intro we_send_dispatch) (simp_all add: we_sent_def)
  have sq: "we_seqNum ?e1 = we_seqNum e + 1" by (simp add: we_sent_def)
  have "we_dispatch P p e = (Inr (), we_sent ChDispatch r ?e1)"
    using n(2) q r s sq by (simp add: we_dispatch_def thenA_def bindA_def updA_def retA_def)
  then show thesis
    using that [OF n(1) q' r, of "we_sent ChDispatch r ?e1"] by (simp add: we_sent_def)
qed

section \<open>Properties\<close>

text \<open>C2: The state a worker reports is the state of its machines. In every reachable state of the session,
  whatever messages, operations and timeouts led to it and whatever the network answered, the
  session is online exactly when the connection is stable and downloading exactly when the
  synchronization is; a connection that is not halted and a download in progress have their
  timeout running or waiting to be handled, so neither can hang.\<close>

theorem worker_session_inv:
  assumes "ws_reach P s"
  shows "(we_isOnline (ws_env s) \<longleftrightarrow> cm_state (ws_conn s) = Stable) \<and>
    (we_isSnapshot (ws_env s) \<longleftrightarrow> sm_state (ws_sync s) = SyDownload) \<and>
    (cm_state (ws_conn s) = Halted \<or> Timer_isActive (cm_timerTmo (ws_conn s)) \<or> Timer_isExpired (cm_timerTmo (ws_conn s))) \<and>
    (sm_state (ws_sync s) = SyDownload \<longrightarrow>
       Timer_isActive (sm_timerTmo (ws_sync s)) \<or> Timer_isExpired (sm_timerTmo (ws_sync s)))"
  using ws_reach_inv [OF assms] by (auto simp: worker_inv_def conn_inv_def sync_inv_def)

definition sample_worker_env :: WorkerEnv where
  "sample_worker_env = WorkerEnv_init (replicate 16 2) 1 0 sample_worker_config"

definition sample_worker :: WorkerSession where
  "sample_worker = snd (WorkerSession_new sample_env sample_worker_env)"

lemma sample_worker_reach: "ws_reach sample_env sample_worker"
proof -
  have "fst (WorkerSession_new sample_env sample_worker_env) = Inr ()"
    by (simp add: WorkerSession_new_def SyncMachine_new_def sync_op_defs conn_op_defs
        action_defs ws_conn_funcs_def ws_sync_funcs_def we_connClose_def we_snapClose_def
        ConnMachine_init_def SyncMachine_init_def ASSERT_def INT_MAX_def)
  then have "WorkerSession_new sample_env sample_worker_env = (Inr (), sample_worker)"
    by (simp add: sample_worker_def prod_eq_iff)
  then show ?thesis unfolding sample_worker_env_def by (rule ws_reach.init)
qed

lemma worker_session_inv_witness:
  "we_isOnline (ws_env sample_worker) \<longleftrightarrow> cm_state (ws_conn sample_worker) = Stable"
  using worker_session_inv [OF sample_worker_reach] by blast



text \<open>C25: Accepting a topic. A part that decodes is accepted, when the runner can be told its number, exactly when its number is above the last one
  of its worker, which then becomes that number; and when it is the session's own worker, as after
  a restart, the session's sequence number moves up to it and never down.\<close>

theorem worker_accepts:
  assumes "ws_reach P s" and "Topic_fromPart (en_mem P) (en_arch P) part = Inr t"
    and "allocator_ok (en_mem P)" and "nt_send (en_net P) (io_sends (we_io (ws_env s))) = Sent"
  shows "\<exists>e'. we_acceptTopic P part (ws_env s) =
      (Inr (we_lastSeqNum (ws_env s) (tp_worker t) < tp_seqn t), e') \<and>
    we_lastSeqNum e' (tp_worker t) = max (we_lastSeqNum (ws_env s) (tp_worker t)) (tp_seqn t) \<and>
    we_seqNum e' = (if we_lastSeqNum (ws_env s) (tp_worker t) < tp_seqn t \<and> tp_worker t = wc_uuid (we_conf (ws_env s))
      then max (we_seqNum (ws_env s)) (tp_seqn t) else we_seqNum (ws_env s))"
proof -
  have inv: "seqs_inv (ws_env s)" using ws_reach_inv [OF assms(1)] by (simp add: worker_inv_def)
  show ?thesis by (rule we_acceptTopic_spec [OF assms(2) inv assms(3,4), of "tp_worker t"]) auto
qed

lemma worker_accepts_witness:
  "\<exists>p e'. Topic_toPart calloc little sample_topic = Inr p \<and>
     we_lastSeqNum e' (replicate 16 2) = max (we_lastSeqNum (ws_env sample_worker) (replicate 16 2)) 3 \<and>
     we_acceptTopic sample_env p (ws_env sample_worker) =
       (Inr (we_lastSeqNum (ws_env sample_worker) (replicate 16 2) < 3), e')"
proof -
  obtain p where p: "Topic_toPart calloc little sample_topic = Inr p" using sample_topic_packs by blast
  then have "Topic_fromPart (en_mem sample_env) (en_arch sample_env) p = Inr (topic_norm sample_topic)"
    using Topic_fromPart_toPart [OF calloc_ok(1) refl sample_topic_ok calloc_ok(2), of little p] by auto
  from worker_accepts [OF sample_worker_reach this] p calloc_ok(1) show ?thesis
    by (auto simp: topic_norm_def sample_topic_def)
qed

text \<open>Dispatching a topic. The session counts up its sequence number, tells it to the runner, and sends
  the topic with exactly that number patched in, in the group of updates.\<close>

theorem worker_dispatches:
  assumes "allocator_ok (en_mem P)" and "topic_ok t" and "Topic_toPart (en_mem P) (en_arch P) t = Inr p"
    and "sk_open (we_zdispatch e)" and "\<forall>k \<ge> io_sends (we_io e). nt_send (en_net P) k = Sent"
  shows "\<exists>n q r e'. Part_uint (en_mem P) (en_arch P) (we_seqNum e + 1) = Inr n \<and>
    Topic_toPart (en_mem P) (en_arch P) (withSeqNum (we_seqNum e + 1) t) = Inr q \<and>
    withGroup (Some WorkerUpdt) q = Inr r \<and> we_dispatch P p e = (Inr (), e') \<and> we_seqNum e' = we_seqNum e + 1 \<and>
    io_sent (we_io e') = io_sent (we_io e) @ [(ChSeqs, n), (ChDispatch, r)]"
  using we_dispatch_ok [OF assms] by metis

lemma worker_dispatches_witness:
  "\<exists>p e'. we_dispatch sample_env p (sample_worker_env\<lparr>we_zdispatch := Socket_new\<lparr>sk_open := True\<rparr>\<rparr>) = (Inr (), e') \<and>
     we_seqNum e' = 1"
proof -
  obtain p where p: "Topic_toPart (en_mem sample_env) (en_arch sample_env) sample_topic = Inr p"
    using sample_topic_packs by auto
  from worker_dispatches [OF _ sample_topic_ok p, of "sample_worker_env\<lparr>we_zdispatch := Socket_new\<lparr>sk_open := True\<rparr>\<rparr>"]
  show ?thesis by (auto simp: sample_worker_env_def WorkerEnv_init_def)
qed

end
