(* ===== verification/Fuurin_Session.thy ===== *)
theory Fuurin_Session
  imports Fuurin_Broker Fuurin_Worker
begin

text \<open>
  The thread of a session, \<^verbatim>\<open>Session::run\<close> of \<^verbatim>\<open>src/session.cpp\<close>: it waits for its sockets, hands
  each readable one to the virtual methods of the session, leaves after an operation that stops it,
  and reports its end on every way out. What the waits return is an input: a list of batches, which
  may be empty when the thread is still waiting.
\<close>

section \<open>The loop\<close>

text \<open>The virtual methods a session overrides, and what its I/O timers do between two of them.\<close>

record ('s, 'p, 'c) Session =
  se_token :: u8
  se_operationReady :: "Operation \<Rightarrow> ('s, unit) action"
  se_socketReady :: "'p \<Rightarrow> ('s, unit) action"
  se_tick :: "'c \<Rightarrow> ('s, unit) action"
  se_fins :: "Part \<Rightarrow> ('s, int) action"

text \<open>A readable socket: one of the session, or the one of operations with the two parts received.\<close>

datatype ('p, 'c) ready = ReadySock 'p | ReadyOper "(Part \<times> Part) result" | Tick 'c

definition session_recvOperation :: "env \<Rightarrow> u8 \<Rightarrow> (Part \<times> Part) result \<Rightarrow> Operation result" where
  "session_recvOperation P token r =
     (case r of
        Inr (tok, oper) \<Rightarrow> recvOperation P token tok oper
      | Inl (Abort msg) \<Rightarrow> Inl (Abort msg)
      | Inl (Throw _ _ _) \<Rightarrow> LOG_FATAL ''operation recv threw exception'')"

fun session_batch :: "env \<Rightarrow> ('s, 'p, 'c) Session \<Rightarrow> ('p, 'c) ready list \<Rightarrow> ('s, bool) action" where
  "session_batch P S [] = retA False"
| "session_batch P S (Tick c # rs) = thenA (se_tick S c) (session_batch P S rs)"
| "session_batch P S (ReadySock p # rs) = thenA (se_socketReady S p) (session_batch P S rs)"
| "session_batch P S (ReadyOper r # rs) =
     bindA (liftA (session_recvOperation P (se_token S) r)) (\<lambda>oper.
     if op_notif oper = OpDiscard then session_batch P S rs
     else thenA (se_operationReady S oper)
       (if op_type oper = OpStop then retA True else session_batch P S rs))"

text \<open>Whether the loop returned, on the batches of the waits so far.\<close>

fun session_loop :: "env \<Rightarrow> ('s, 'p, 'c) Session \<Rightarrow> ('p, 'c) ready list result list \<Rightarrow> ('s, bool) action" where
  "session_loop P S [] = retA False"
| "session_loop P S (w # ws) =
     bindA (liftA w) (\<lambda>rs. bindA (session_batch P S rs) (\<lambda>stop.
     if stop then retA True else session_loop P S ws))"

text \<open>The action of the scope guard.\<close>

definition session_fin :: "env \<Rightarrow> ('s, 'p, 'c) Session \<Rightarrow> ('s, unit) action" where
  "session_fin P S s =
     (case bindA (liftA (Part_uint (en_mem P) (en_arch P) (se_token S))) (se_fins S) s of
        (Inr _, s') \<Rightarrow> (Inr (), s')
      | (Inl (Abort msg), s') \<Rightarrow> (Inl (Abort msg), s')
      | (Inl (Throw _ _ _), s') \<Rightarrow> (LOG_FATAL ''session on complete action threw exception'', s'))"

datatype run_end = Waiting | Returned

text \<open>
  The guard acts when the loop returns and when an exception leaves it, not when the process ends.
  \<open>poll\<close> is what creating the poller gives.
\<close>

definition session_run :: "env \<Rightarrow> ('s, 'p, 'c) Session \<Rightarrow> unit result \<Rightarrow> ('p, 'c) ready list result list \<Rightarrow>
    ('s, run_end) action" where
  "session_run P S poll ws s =
     (case thenA (liftA poll) (session_loop P S ws) s of
        (Inr False, s') \<Rightarrow> (Inr Waiting, s')
      | (Inr True, s') \<Rightarrow> thenA (session_fin P S) (retA Returned) s'
      | (Inl (Abort msg), s') \<Rightarrow> (Inl (Abort msg), s')
      | (Inl (Throw e msg n), s') \<Rightarrow> thenA (session_fin P S) (liftA (Inl (Throw e msg n))) s')"

section \<open>The sessions of brokers and workers\<close>

definition bs_fins :: "env \<Rightarrow> Part \<Rightarrow> (BrokerSession, int) action" where
  "bs_fins P p s = (case sendMessagePart (en_net P) ChFin True p (bs_io s) of (r, i) \<Rightarrow> (r, s\<lparr>bs_io := i\<rparr>))"

definition BrokerSession_session :: "env \<Rightarrow> u8 \<Rightarrow> (BrokerSession, bs_ready, unit) Session" where
  "BrokerSession_session P tok =
     \<lparr>se_token = tok, se_operationReady = bs_operationReady P, se_socketReady = bs_socketReady P,
      se_tick = (\<lambda>_. bs_handle P BClockHugz), se_fins = bs_fins P\<rparr>"

definition ws_fins :: "env \<Rightarrow> Part \<Rightarrow> (WorkerSession, int) action" where
  "ws_fins P p = envA (we_send P ChFin p)"

datatype ws_clock = TickTry | TickTmo | TickSync

primrec ws_clock_event :: "ws_clock \<Rightarrow> ws_event" where
  "ws_clock_event TickTry = WClockTry"
| "ws_clock_event TickTmo = WClockTmo"
| "ws_clock_event TickSync = WClockSync"

definition WorkerSession_session :: "env \<Rightarrow> u8 \<Rightarrow> (WorkerSession, ws_ready, ws_clock) Session" where
  "WorkerSession_session P tok =
     \<lparr>se_token = tok, se_operationReady = ws_operationReady P, se_socketReady = ws_socketReady P,
      se_tick = (\<lambda>c. ws_handle P (ws_clock_event c)), se_fins = ws_fins P\<rparr>"

section \<open>What the loop does\<close>

text \<open>
  The specification of the loop: the sockets and operations of all batches one after the other,
  without the operations of other tokens, up to the first operation that stops the session.
\<close>

datatype ('p, 'c) session_step = StepSock 'p | StepTick 'c | StepOper Operation | StepFail fault

fun session_steps :: "env \<Rightarrow> u8 \<Rightarrow> ('p, 'c) ready list \<Rightarrow> ('p, 'c) session_step list" where
  "session_steps P tok [] = []"
| "session_steps P tok (Tick c # rs) = StepTick c # session_steps P tok rs"
| "session_steps P tok (ReadySock p # rs) = StepSock p # session_steps P tok rs"
| "session_steps P tok (ReadyOper r # rs) =
     (case session_recvOperation P tok r of
        Inl e \<Rightarrow> [StepFail e]
      | Inr oper \<Rightarrow>
          if op_notif oper = OpDiscard then session_steps P tok rs
          else if op_type oper = OpStop then [StepOper oper]
          else StepOper oper # session_steps P tok rs)"

primrec session_do :: "('s, 'p, 'c) Session \<Rightarrow> ('p, 'c) session_step \<Rightarrow> ('s, unit) action" where
  "session_do S (StepSock p) = se_socketReady S p"
| "session_do S (StepTick c) = se_tick S c"
| "session_do S (StepOper oper) = se_operationReady S oper"
| "session_do S (StepFail e) = liftA (Inl e)"

primrec step_stops :: "('p, 'c) session_step \<Rightarrow> bool" where
  "step_stops (StepSock p) = False"
| "step_stops (StepTick c) = False"
| "step_stops (StepOper oper) = (op_type oper = OpStop)"
| "step_stops (StepFail e) = False"

primrec step_fails :: "('p, 'c) session_step \<Rightarrow> bool" where
  "step_fails (StepSock p) = False"
| "step_fails (StepTick c) = False"
| "step_fails (StepOper oper) = False"
| "step_fails (StepFail e) = True"

lemma thenA_assoc: "thenA (thenA f g) h = thenA f (thenA g h)"
  by (rule ext) (auto simp: thenA_def bindA_def split: prod.splits sum.splits)

lemma retA_Pair: "retA x = Pair (Inr x)"
  by (rule ext) (simp add: retA_def)

lemma retA_then [simp]: "thenA (retA x) f = f" "thenA (Pair (Inr x)) f = f"
  by (rule ext; simp add: thenA_def bindA_def retA_def)+

lemma liftA_bind [simp]: "bindA (liftA (Inr x)) f = f x" "bindA (liftA (Inl e)) f = liftA (Inl e)"
  by (rule ext; simp add: bindA_def liftA_def)+

lemma liftA_then [simp]: "thenA (liftA (Inl e)) f = liftA (Inl e)"
  by (simp add: thenA_def)

lemma session_batch_steps:
  "session_batch P S rs =
     thenA (forA (session_steps P (se_token S) rs) (session_do S))
       (retA (list_ex step_stops (session_steps P (se_token S) rs)))"
proof (induction P S rs rule: session_batch.induct)
  case (4 P S r rs)
  show ?case
    by (cases "session_recvOperation P (se_token S) r") (auto simp: thenA_assoc 4 retA_Pair)
qed (simp_all add: thenA_assoc)

lemma session_steps_append:
  "session_steps P tok (rs @ rs') =
     (if list_ex (\<lambda>x. step_stops x \<or> step_fails x) (session_steps P tok rs) then session_steps P tok rs
      else session_steps P tok rs @ session_steps P tok rs')"
  by (induction P tok rs rule: session_steps.induct) (auto split: sum.splits)

lemma forA_fails: "list_ex step_fails xs \<Longrightarrow> \<exists>e s'. forA xs (session_do S) s = (Inl e, s')"
proof (induction xs arbitrary: s)
  case (Cons x xs)
  then show ?case
    by (cases x; cases "session_do S x s"; cases "fst (session_do S x s)")
      (auto simp: thenA_def bindA_def liftA_def)
qed simp

lemma forA_fails_then: "list_ex step_fails xs \<Longrightarrow>
    thenA (forA xs (session_do S)) f = thenA (forA xs (session_do S)) g"
proof (rule ext)
  fix s
  assume "list_ex step_fails xs"
  from forA_fails [OF this, of S s] obtain e s' where "forA xs (session_do S) s = (Inl e, s')" by blast
  then show "thenA (forA xs (session_do S)) f s = thenA (forA xs (session_do S)) g s"
    by (simp add: thenA_def bindA_def)
qed

lemma forA_append_eq: "forA (xs @ ys) f = thenA (forA xs f) (forA ys f)"
  by (rule ext) (rule forA_append)

lemma session_loop_steps:
  "session_loop P S (map Inr bs) =
     thenA (forA (session_steps P (se_token S) (concat bs)) (session_do S))
       (retA (list_ex step_stops (session_steps P (se_token S) (concat bs))))"
proof (induction bs)
  case Nil
  show ?case by simp
next
  case (Cons rs bs)
  let ?x = "session_steps P (se_token S) rs" and ?y = "session_steps P (se_token S) (concat bs)"
  have loop: "session_loop P S (map Inr (rs # bs)) = thenA (forA ?x (session_do S))
      (if list_ex step_stops ?x then retA True else session_loop P S (map Inr bs))"
    by (rule ext) (auto simp: session_batch_steps thenA_def bindA_def retA_def split: prod.splits sum.splits)
  have ex: "list_ex (\<lambda>x. step_stops x \<or> step_fails x) ?x = (list_ex step_stops ?x \<or> list_ex step_fails ?x)"
    by (auto simp: list_ex_iff)
  consider "list_ex step_fails ?x" | "\<not> list_ex step_fails ?x" "list_ex step_stops ?x"
    | "\<not> list_ex step_fails ?x" "\<not> list_ex step_stops ?x" by blast
  then show ?case
  proof cases
    case 1
    then show ?thesis unfolding loop by (subst (2) forA_fails_then) (auto simp: session_steps_append ex intro: forA_fails_then)
  next
    case 2
    then show ?thesis unfolding loop by (simp add: session_steps_append ex retA_Pair)
  next
    case 3
    then show ?thesis unfolding loop
      by (simp add: session_steps_append ex forA_append_eq thenA_assoc Cons)
  qed
qed

section \<open>The end of a worker session\<close>

lemma session_steps_stop_last:
  "list_ex step_stops (session_steps P tok rs) \<Longrightarrow>
     \<exists>xs oper. session_steps P tok rs = xs @ [StepOper oper] \<and> op_type oper = OpStop"
proof (induction P tok rs rule: session_steps.induct)
  case (2 P tok c rs)
  then obtain xs oper where "session_steps P tok rs = xs @ [StepOper oper]" "op_type oper = OpStop" by auto
  then show ?case by (intro exI [of _ "StepTick c # xs"] exI [of _ oper]) simp
next
  case (3 P tok p rs)
  then obtain xs oper where "session_steps P tok rs = xs @ [StepOper oper]" "op_type oper = OpStop" by auto
  then show ?case by (intro exI [of _ "StepSock p # xs"] exI [of _ oper]) simp
next
  case (4 P tok r rs)
  show ?case
  proof (cases "session_recvOperation P tok r")
    case (Inl e)
    then show ?thesis using 4 by simp
  next
    case (Inr oper)
    show ?thesis
    proof (cases "op_notif oper = OpDiscard \<or> op_type oper = OpStop")
      case True
      then show ?thesis using 4 Inr by auto
    next
      case False
      then obtain xs oper' where "session_steps P tok rs = xs @ [StepOper oper']" "op_type oper' = OpStop"
        using 4 Inr by auto
      then show ?thesis using False Inr by (intro exI [of _ "StepOper oper # xs"] exI [of _ oper']) simp
    qed
  qed
qed simp

lemma ws_do_handle:
  assumes "session_do (WorkerSession_session P tok) x s = (Inr (), s')"
  obtains ev where "ws_handle P ev s = (Inr (), s')"
proof (cases x)
  case (StepSock p)
  then show thesis using assms that [of "WReady p"] by (simp add: WorkerSession_session_def)
next
  case (StepTick c)
  then show thesis using assms that [of "ws_clock_event c"] by (simp add: WorkerSession_session_def)
next
  case (StepOper oper)
  then show thesis using assms that [of "WOperation oper"] by (simp add: WorkerSession_session_def)
next
  case (StepFail e)
  then show thesis using assms by (simp add: liftA_def)
qed

lemma ws_steps_reach:
  "ws_reach P s \<Longrightarrow> forA xs (session_do (WorkerSession_session P tok)) s = (Inr (), s') \<Longrightarrow> ws_reach P s'"
proof (induction xs arbitrary: s)
  case (Cons x xs)
  then obtain s1 where x: "session_do (WorkerSession_session P tok) x s = (Inr (), s1)"
    and xs: "forA xs (session_do (WorkerSession_session P tok)) s1 = (Inr (), s')"
    by (auto simp: thenA_Inr)
  obtain ev where "ws_handle P ev s = (Inr (), s1)" by (rule ws_do_handle [OF x])
  then have "ws_reach P s1" by (rule ws_reach.step [OF Cons.prems(1)])
  then show ?case using Cons.IH xs by blast
qed (simp add: retA_def)

lemma we_sendEvent_sent:
  assumes "we_sendEvent P ev pay e = (Inr x, e')" and "\<forall>k. nt_send (en_net P) k = Sent"
  obtains p where "event_part P (we_token e) ev pay = Inr p" "e' = we_sent ChEvents p e"
proof (cases "event_part P (we_token e) ev pay")
  case (Inl err)
  then show thesis using assms by (simp add: we_sendEvent_def session_sendEvent_def liftA_def)
next
  case (Inr p)
  then show thesis
    using that [of p] assms
    by (simp add: we_sendEvent_def session_sendEvent_def sendMessagePart_def thenA_def bindA_def retA_def we_sent_def
        Let_def)
qed

lemma ws_stop_halts:
  assumes "ws_operationReady P oper s = (Inr x, s')" and "op_type oper = OpStop"
    and "\<forall>k. nt_send (en_net P) k = Sent"
  obtains e p where "cm_state (ws_conn s') = Halted" "sm_state (ws_sync s') = SyHalted"
    "event_part P (we_token e) EvStopped (op_payload oper) = Inr p" "ws_env s' = we_sent ChEvents p e"
proof -
  obtain y1 s1 y2 s2 where a: "connA (cm_onStop (ws_conn_funcs P)) s = (Inr y1, s1)"
      "syncA (sm_onHalt (ws_sync_funcs P)) s1 = (Inr y2, s2)"
      "envA (we_sendEvent P EvStopped (op_payload oper)) s2 = (Inr x, s')"
    using assms(1,2) by (auto simp: ws_operationReady_def thenA_Inr)
  have c: "cm_state (ws_conn s1) = Halted"
    using a(1) by (auto simp: connA_def cm_onStop_def whenA_Inr split: prod.splits if_splits dest!: cm_halt_machine)
  have y: "sm_state (ws_sync s2) = SyHalted" "ws_conn s2 = ws_conn s1"
    using a(2) by (auto simp: syncA_def sm_onHalt_def split: prod.splits sync_state.splits dest!: sm_halt_machine)
  obtain e where e: "we_sendEvent P EvStopped (op_payload oper) (ws_env s2) = (Inr x, e)" "s' = s2\<lparr>ws_env := e\<rparr>"
    using a(3) by (auto simp: envA_def split: prod.splits)
  obtain p where "event_part P (we_token (ws_env s2)) EvStopped (op_payload oper) = Inr p" "e = we_sent ChEvents p (ws_env s2)"
    by (rule we_sendEvent_sent [OF e(1) assms(3)])
  then show thesis using that c y e(2) by simp
qed

lemma session_fin_worker:
  assumes "session_fin P (WorkerSession_session P tok) s = (Inr x, s')" and "\<forall>k. nt_send (en_net P) k = Sent"
  obtains p where "Part_uint (en_mem P) (en_arch P) tok = Inr p" "s' = s\<lparr>ws_env := we_sent ChFin p (ws_env s)\<rparr>"
proof (cases "Part_uint (en_mem P) (en_arch P) tok :: Part result")
  case (Inl e)
  then show thesis using assms(1)
    by (cases e) (auto simp: session_fin_def WorkerSession_session_def liftA_def LOG_FATAL_def)
next
  case (Inr p)
  then show thesis
    using that [of p] assms
    by (auto simp: session_fin_def WorkerSession_session_def liftA_def ws_fins_def envA_def we_send_def
        sendMessagePart_def we_sent_def Let_def)
qed

lemma session_run_Returned:
  assumes "session_run P S (Inr ()) (map Inr bs) s = (Inr Returned, s')"
  obtains xs oper s1 s2 where
    "session_steps P (se_token S) (concat bs) = xs @ [StepOper oper]" "op_type oper = OpStop"
    "forA xs (session_do S) s = (Inr (), s1)" "se_operationReady S oper s1 = (Inr (), s2)"
    "session_fin P S s2 = (Inr (), s')"
proof -
  let ?ss = "session_steps P (se_token S) (concat bs)"
  obtain r s2 where l: "session_loop P S (map Inr bs) s = (r, s2)" by fastforce
  with assms have r: "r = Inr True" and f: "session_fin P S s2 = (Inr (), s')"
    by (auto simp: session_run_def thenA_def bindA_def liftA_def retA_def
        split: sum.splits fault.splits bool.splits prod.splits)
  have stop: "list_ex step_stops ?ss" and run: "forA ?ss (session_do S) s = (Inr (), s2)"
    using l unfolding r session_loop_steps thenA_Inr by (auto simp: retA_def)
  obtain xs oper where x: "?ss = xs @ [StepOper oper]" "op_type oper = OpStop"
    using session_steps_stop_last [OF stop] by blast
  obtain s1 where "forA xs (session_do S) s = (Inr (), s1)" "se_operationReady S oper s1 = (Inr (), s2)"
    using run unfolding x(1) forA_append thenA_Inr by (auto simp: thenA_Inr retA_def)
  then show thesis using that x f by blast
qed

section \<open>Properties\<close>

text \<open>C3: The loop of a session does what its specification says. For any handlers, the nested loops of
  \<^verbatim>\<open>Session::run\<close> over the batches of its poller run exactly the readable sockets and the operations of
  the session's own token, in order, up to the first operation that stops it, and return exactly when
  there is one; operations of another token have no effect, and what follows the stop is not handled.\<close>

theorem session_refines:
  "session_loop P S (map Inr bs) =
     thenA (forA (session_steps P (se_token S) (concat bs)) (session_do S))
       (retA (list_ex step_stops (session_steps P (se_token S) (concat bs))))"
  by (rule session_loop_steps)

text \<open>C30: How a worker session ends. When the thread of a session returns, its connection and its
  synchronization are halted and reported as such, the last event it sent is that it stopped, and the
  very last message, after that, is its token on the completion socket.\<close>

theorem worker_run_returns:
  assumes "ws_reach P s" and "\<forall>k. nt_send (en_net P) k = Sent"
    and "session_run P (WorkerSession_session P tok) (Inr ()) (map Inr bs) s = (Inr Returned, s')"
  shows "cm_state (ws_conn s') = Halted \<and> sm_state (ws_sync s') = SyHalted \<and>
    \<not> we_isOnline (ws_env s') \<and> \<not> we_isSnapshot (ws_env s') \<and>
    (\<exists>sent pay t ev fin. io_sent (we_io (ws_env s')) = sent @ [(ChEvents, ev), (ChFin, fin)] \<and>
       event_part P t EvStopped pay = Inr ev \<and> Part_uint (en_mem P) (en_arch P) tok = Inr fin)"
proof -
  let ?S = "WorkerSession_session P tok"
  obtain xs oper s1 s2 where xs: "forA xs (session_do ?S) s = (Inr (), s1)"
    and o: "se_operationReady ?S oper s1 = (Inr (), s2)" "op_type oper = OpStop"
    and f: "session_fin P ?S s2 = (Inr (), s')"
    using session_run_Returned [OF assms(3)] by metis
  have o': "ws_operationReady P oper s1 = (Inr (), s2)" using o by (simp add: WorkerSession_session_def)
  have "ws_reach P s1" by (rule ws_steps_reach [OF assms(1) xs])
  then have "worker_inv s2" using ws_reach.step [of P s1 "WOperation oper" s2] o' ws_reach_inv by auto
  moreover obtain e ev where h: "cm_state (ws_conn s2) = Halted" "sm_state (ws_sync s2) = SyHalted"
      "event_part P (we_token e) EvStopped (op_payload oper) = Inr ev" "ws_env s2 = we_sent ChEvents ev e"
    by (rule ws_stop_halts [OF o' o(2) assms(2)])
  moreover obtain fin where "Part_uint (en_mem P) (en_arch P) tok = Inr fin" "s' = s2\<lparr>ws_env := we_sent ChFin fin (ws_env s2)\<rparr>"
    by (rule session_fin_worker [OF f assms(2)])
  ultimately show ?thesis by (auto simp: worker_inv_def we_sent_def)
qed

definition sample_stop :: Operation where
  "sample_stop = \<lparr>op_type = OpStop, op_notif = OpSuccess, op_payload = zmq_msg_init\<rparr>"

lemma group_ok_init: "group_ok zmq_msg_init" "group_ok (zmq_msg_init\<lparr>pt_data := d\<rparr>)"
  by (simp_all add: group_ok_def zmq_msg_init_def zmq_msg_group_def)

lemma sample_stop_runs:
  "\<exists>t p s'. session_run sample_env (WorkerSession_session sample_env 1) (Inr ()) (map Inr [[ReadyOper (Inr (t, p))]])
     sample_worker = (Inr Returned, s')"
proof -
  let ?P = sample_env and ?S = "WorkerSession_session sample_env 1" and ?w = sample_worker
  let ?o = "\<lparr>op_type = OpStop, op_notif = OpSuccess, op_payload = zmq_msg_init\<rparr>"
  obtain p where p: "Operation_toPart calloc little sample_stop = Inr p"
    using operation_part_returns [OF calloc_ok(1), of sample_stop little] calloc_ok(2)
    by (auto simp: sample_stop_def zmq_msg_init_def)
  obtain t where t: "Part_uint calloc little (1 :: u8) = Inr t" by (simp add: Part_uint_eq max_vsm_size_def)
  have r: "recvOperation ?P 1 t p = Inr ?o"
    using recvOperation_decode [OF calloc_ok(1) _ _ _ p t, of ?P 1] calloc_ok(2)
    by (simp add: sample_stop_def part_norm_def zmq_msg_init_def)
  have h: "cm_state (ws_conn ?w) = Halted" "sm_state (ws_sync ?w) = SyHalted"
    by (simp_all add: sample_worker_def WorkerSession_new_def SyncMachine_new_def sync_op_defs conn_op_defs
        action_defs ws_conn_funcs_def ws_sync_funcs_def we_connClose_def we_snapClose_def
        ConnMachine_init_def SyncMachine_init_def ASSERT_def INT_MAX_def)
  obtain e where e: "event_part ?P (we_token (ws_env ?w)) EvStopped zmq_msg_init = Inr e"
    using event_part_returns [of ?P zmq_msg_init "we_token (ws_env ?w)" EvStopped] calloc_ok group_ok_init by (auto simp: zmq_msg_init_def)
  have s: "envA (we_sendEvent ?P EvStopped zmq_msg_init) ?w = (Inr (), ?w\<lparr>ws_env := we_sent ChEvents e (ws_env ?w)\<rparr>)"
    using e by (simp add: envA_def we_sendEvent_def session_sendEvent_def sendMessagePart_def we_sent_def
        thenA_def bindA_def retA_def Let_def)
  have "ws_operationReady ?P ?o ?w = (Inr (), ?w\<lparr>ws_env := we_sent ChEvents e (ws_env ?w)\<rparr>)"
    using h s by (simp add: ws_operationReady_def thenA_def bindA_def connA_def syncA_def cm_onStop_def whenA_def sm_onHalt_def)
  then show ?thesis
    using r t
    by (intro exI [of _ t] exI [of _ p])
      (simp add: session_run_def session_recvOperation_def session_fin_def WorkerSession_session_def liftA_def
        thenA_def bindA_def retA_def ws_fins_def envA_def we_send_def sendMessagePart_def Let_def)
qed

lemma worker_run_returns_witness:
  "\<exists>bs s'. session_run sample_env (WorkerSession_session sample_env 1) (Inr ()) (map Inr bs) sample_worker =
     (Inr Returned, s') \<and> cm_state (ws_conn s') = Halted"
  using sample_stop_runs worker_run_returns [OF sample_worker_reach, of 1] by (metis sample_env_simps(3))

end
