(* ===== verification/Fuurin_Runner.thy ===== *)
theory Fuurin_Runner
  imports Fuurin_Session
begin

text \<open>
  The objects an application uses: \<^verbatim>\<open>src/runner.cpp\<close>, \<^verbatim>\<open>src/worker.cpp\<close> and \<^verbatim>\<open>src/broker.cpp\<close>. A runner
  starts the thread of a session, sends it operations marked with the token of that start, receives its
  events, and learns of its end from the token the session sends when it is over. What the inter-thread
  sockets hold at a call is an argument of that call. A worker is a runner with a sequence number and
  subscriptions, a broker a runner with a configuration of its own.
\<close>

section \<open>Runner\<close>

record Runner =
  rn_name :: bytes
  rn_uuid :: uuid
  rn_running :: bool
  rn_token :: u8
  rn_endpDelivery :: "bytes list"
  rn_endpDispatch :: "bytes list"
  rn_endpSnapshot :: "bytes list"
  rn_io :: io

definition Runner_new :: "uuid \<Rightarrow> bytes \<Rightarrow> Runner" where
  "Runner_new u nm =
     \<lparr>rn_name = nm, rn_uuid = u, rn_running = False, rn_token = 0,
      rn_endpDelivery = [str ''ipc:///tmp/worker_delivery''],
      rn_endpDispatch = [str ''ipc:///tmp/worker_dispatch''],
      rn_endpSnapshot = [str ''ipc:///tmp/broker_snapshot''], rn_io = io_init\<rparr>"

definition Runner_setEndpoints :: "bytes list \<Rightarrow> bytes list \<Rightarrow> bytes list \<Rightarrow> 'r Runner_scheme \<Rightarrow> 'r Runner_scheme" where
  "Runner_setEndpoints delivery dispatch snapshot r =
     r\<lparr>rn_endpDelivery := delivery, rn_endpDispatch := dispatch, rn_endpSnapshot := snapshot\<rparr>"

text \<open>An exception that leaves a function declared \<^verbatim>\<open>noexcept\<close> ends the process.\<close>

definition noexceptA :: "('s, 'a) action \<Rightarrow> ('s, 'a) action" where
  "noexceptA f s =
     (case f s of
        (Inl (Throw _ _ _), s') \<Rightarrow> (Inl (Abort ''exception in a noexcept function''), s')
      | (r, s') \<Rightarrow> (r, s'))"

text \<open>An exception that is caught and logged as fatal.\<close>

definition fatalA :: "string \<Rightarrow> ('s, 'a) action \<Rightarrow> ('s, 'a) action" where
  "fatalA msg f s =
     (case f s of (Inl (Throw _ _ _), s') \<Rightarrow> (LOG_FATAL msg, s') | (r, s') \<Rightarrow> (r, s'))"

text \<open>
  \<^verbatim>\<open>isRunning\<close>: \<open>fin\<close> is what the completion socket holds, of which the last message is kept.
\<close>

definition Runner_isRunning :: "env \<Rightarrow> recv_result \<Rightarrow> ('r Runner_scheme, bool) action" where
  "Runner_isRunning P fin =
     noexceptA (bindA (liftA (recvMessagePart fin zmq_msg_init)) (\<lambda>(n, p).
       thenA (updA (\<lambda>r. if n \<noteq> - 1 \<and> toUint8 (en_arch P) p = rn_token r then r\<lparr>rn_running := False\<rparr> else r))
       (readA rn_running)))"

definition Operation_new :: "env \<Rightarrow> Operation_Type \<Rightarrow> Operation_Notification \<Rightarrow> Part \<Rightarrow> Operation result" where
  "Operation_new P ty nt pay =
     (case Part_copy (en_mem P) pay of
        Inl e \<Rightarrow> Inl (Abort ''exception in a noexcept function'')
      | Inr d \<Rightarrow> Inr \<lparr>op_type = ty, op_notif = nt, op_payload = d\<rparr>)"

text \<open>The two parts of an operation, token and content, and sending them.\<close>

definition operation_parts :: "env \<Rightarrow> u8 \<Rightarrow> Operation_Type \<Rightarrow> Part \<Rightarrow> (Part \<times> Part) result" where
  "operation_parts P tok oper pay =
     bindR (Part_uint (en_mem P) (en_arch P) tok) (\<lambda>t.
     bindR (Operation_new P oper OpSuccess pay) (\<lambda>o0.
     bindR (Operation_toPart (en_mem P) (en_arch P) o0) (\<lambda>p. Inr (t, p))))"

definition rn_send :: "env \<Rightarrow> Part \<Rightarrow> ('r Runner_scheme, int) action" where
  "rn_send P p r = (case sendMessagePart (en_net P) ChOps True p (rn_io r) of (x, i) \<Rightarrow> (x, r\<lparr>rn_io := i\<rparr>))"

definition Runner_sendOperation :: "env \<Rightarrow> Operation_Type \<Rightarrow> Part \<Rightarrow> ('r Runner_scheme, unit) action" where
  "Runner_sendOperation P oper payload =
     fatalA ''operation send threw exception''
       (bindA (\<lambda>r. (operation_parts P (rn_token r) oper payload, r)) (\<lambda>(t, p).
        thenA (rn_send P t) (thenA (rn_send P p) (retA ()))))"

definition Runner_prepareConfiguration :: "('r Runner_scheme, Part) action" where
  "Runner_prepareConfiguration = retA zmq_msg_init"

text \<open>
  \<^verbatim>\<open>start\<close>: the future it returns is invalid when a session is running already. \<open>spawn\<close> is what
  creating the session and its thread gives. When preparing the configuration throws, the future of
  the thread is destroyed, which waits for a session that has not been told to start: the call does
  not return, the value \<^term>\<open>None\<close>.
\<close>

datatype session_future = NoFuture | SessionFuture

definition Runner_start :: "env \<Rightarrow> recv_result \<Rightarrow> unit result \<Rightarrow> ('r Runner_scheme, Part) action \<Rightarrow>
    'r Runner_scheme \<Rightarrow> (session_future result \<times> 'r Runner_scheme) option" where
  "Runner_start P fin spawn prep r =
     (case Runner_isRunning P fin r of
        (Inl e, r1) \<Rightarrow> Some (Inl e, r1)
      | (Inr True, r1) \<Rightarrow> Some (Inr NoFuture, r1)
      | (Inr False, r1) \<Rightarrow>
          (let r2 = r1\<lparr>rn_token := rn_token r1 + 1, rn_running := True\<rparr> in
           case spawn of
             Inl (Abort m) \<Rightarrow> Some (Inl (Abort m), r2)
           | Inl (Throw e m n) \<Rightarrow> Some (Inl (Throw e m n), r2\<lparr>rn_running := False\<rparr>)
           | Inr _ \<Rightarrow>
               (case prep r2 of
                  (Inl (Abort m), r3) \<Rightarrow> Some (Inl (Abort m), r3)
                | (Inl (Throw _ _ _), r3) \<Rightarrow> None
                | (Inr cfg, r3) \<Rightarrow>
                    Some (thenA (Runner_sendOperation P OpStart cfg) (retA SessionFuture) r3))))"

definition Runner_stop :: "env \<Rightarrow> recv_result \<Rightarrow> ('r Runner_scheme, bool) action" where
  "Runner_stop P fin =
     bindA (Runner_isRunning P fin) (\<lambda>running.
     if \<not> running then retA False
     else thenA (Runner_sendOperation P OpStop zmq_msg_init) (retA True))"

section \<open>Events\<close>

definition Event_timeout :: Event where
  "Event_timeout = \<lparr>ev_type = EvInvalid, ev_notif = EvTimeout, ev_payload = zmq_msg_init\<rparr>"

definition Runner_recvEvent :: "env \<Rightarrow> u8 \<Rightarrow> recv_result \<Rightarrow> Event result" where
  "Runner_recvEvent P token ans =
     bindR (recvMessagePart ans zmq_msg_init) (\<lambda>(n, r).
     if n = - 1 then Inr Event_timeout
     else bindR (ASSERT (c_str (zmq_msg_group r) = GROUP_EVENTS) ''bad event group'') (\<lambda>_.
       bindR (unpack (en_mem P) (en_arch P) [TUInt8, TString] (pt_data r)) (\<lambda>fs.
       case fs of
         [FUInt8 tok, FString ev] \<Rightarrow>
           bindR (Event_fromPart (en_mem P) (en_arch P) (zmq_msg_init\<lparr>pt_data := ev\<rparr>)) (\<lambda>e.
           Inr (e\<lparr>ev_notif := if tok = token then EvSuccess else EvDiscard\<rparr>))
       | _ \<Rightarrow> throwAccessError)))"

text \<open>
  \<^verbatim>\<open>waitForEvent\<close>: each wait of the poller returns some of the two sockets it watches, the one of
  events and the one of the cancellation. \<^term>\<open>None\<close> while it is still waiting.
\<close>

datatype wake = WakeCancel | WakeEvent recv_result

definition event_skipped :: "(Event_Type \<Rightarrow> bool) option \<Rightarrow> Event \<Rightarrow> bool" where
  "event_skipped match ev \<longleftrightarrow>
     ev_notif ev = EvTimeout \<or> (case match of None \<Rightarrow> False | Some f \<Rightarrow> \<not> f (ev_type ev))"

fun wait_batch :: "env \<Rightarrow> u8 \<Rightarrow> (Event_Type \<Rightarrow> bool) option \<Rightarrow> wake list \<Rightarrow> Event option result" where
  "wait_batch P token match [] = Inr None"
| "wait_batch P token match (WakeCancel # ws) = Inr (Some Event_timeout)"
| "wait_batch P token match (WakeEvent ans # ws) =
     bindR (Runner_recvEvent P token ans) (\<lambda>ev.
     if event_skipped match ev then wait_batch P token match ws else Inr (Some ev))"

fun wait_loop :: "env \<Rightarrow> u8 \<Rightarrow> (Event_Type \<Rightarrow> bool) option \<Rightarrow> wake list result list \<Rightarrow> Event option result" where
  "wait_loop P token match [] = Inr None"
| "wait_loop P token match (w # ws) =
     bindR w (\<lambda>batch. bindR (wait_batch P token match batch) (\<lambda>ev.
     case ev of Some e \<Rightarrow> Inr (Some e) | None \<Rightarrow> wait_loop P token match ws))"

definition Runner_waitForEvent :: "env \<Rightarrow> (Event_Type \<Rightarrow> bool) option \<Rightarrow> unit result \<Rightarrow> wake list result list \<Rightarrow>
    'r Runner_scheme \<Rightarrow> Event option result" where
  "Runner_waitForEvent P match poll ws r = bindR poll (\<lambda>_. wait_loop P (rn_token r) match ws)"

section \<open>Broker\<close>

definition Broker_prepareConfiguration :: "env \<Rightarrow> (Runner, Part) action" where
  "Broker_prepareConfiguration P r =
     (BrokerConfig_toPart (en_mem P) (en_arch P)
        \<lparr>bc_uuid = rn_uuid r, bc_endpDelivery = rn_endpDelivery r, bc_endpDispatch = rn_endpDispatch r,
         bc_endpSnapshot = rn_endpSnapshot r\<rparr>, r)"

definition Broker_start :: "env \<Rightarrow> recv_result \<Rightarrow> unit result \<Rightarrow> Runner \<Rightarrow> (session_future result \<times> Runner) option" where
  "Broker_start P fin spawn = Runner_start P fin spawn (Broker_prepareConfiguration P)"

section \<open>Worker\<close>

record Worker = Runner +
  wk_seqNum :: u64
  wk_subscrAll :: bool
  wk_subscrNames :: "Name list"

definition Worker_new :: "uuid \<Rightarrow> u64 \<Rightarrow> bytes \<Rightarrow> Worker" where
  "Worker_new u initSequence nm =
     Runner.extend (Runner_new u nm) \<lparr>wk_seqNum = initSequence, wk_subscrAll = True, wk_subscrNames = []\<rparr>"

definition Worker_setTopicsAll :: "Worker \<Rightarrow> Worker" where
  "Worker_setTopicsAll w = w\<lparr>wk_subscrAll := True, wk_subscrNames := []\<rparr>"

definition Worker_setTopicsNames :: "Name list \<Rightarrow> Worker \<Rightarrow> Worker" where
  "Worker_setTopicsNames names w = w\<lparr>wk_subscrAll := False, wk_subscrNames := names\<rparr>"

definition Worker_topicsNames :: "Worker \<Rightarrow> bool \<times> Name list" where
  "Worker_topicsNames w = (wk_subscrAll w, wk_subscrNames w)"

text \<open>\<^verbatim>\<open>dispatch\<close>: the topic is built only when a session is running; the session numbers it.\<close>

definition Worker_dispatch :: "env \<Rightarrow> recv_result \<Rightarrow> Name \<Rightarrow> Part \<Rightarrow> Topic_Type \<Rightarrow> (Worker, unit) action" where
  "Worker_dispatch P fin name data ty =
     bindA (Runner_isRunning P fin) (\<lambda>running.
     if \<not> running then retA ()
     else bindA (\<lambda>w. (bindR (Topic_new (en_mem P) Uuid_null (rn_uuid w) 0 name data ty)
                      (Topic_toPart (en_mem P) (en_arch P)), w)) (\<lambda>p.
       Runner_sendOperation P OpDispatch p))"

definition Worker_sync :: "env \<Rightarrow> recv_result \<Rightarrow> (Worker, unit) action" where
  "Worker_sync P fin =
     bindA (Runner_isRunning P fin) (\<lambda>running.
     if \<not> running then retA () else Runner_sendOperation P OpSync zmq_msg_init)"

text \<open>\<^verbatim>\<open>seqNumber\<close>: \<open>seq\<close> is what the socket of sequence numbers holds.\<close>

definition Worker_seqNumber :: "env \<Rightarrow> recv_result \<Rightarrow> (Worker, u64) action" where
  "Worker_seqNumber P seq =
     bindA (liftA (recvMessagePart seq zmq_msg_init)) (\<lambda>(n, r).
     thenA (updA (\<lambda>w. if n \<noteq> - 1 then w\<lparr>wk_seqNum := toUint64 (en_arch P) r\<rparr> else w)) (readA wk_seqNum))"

definition Worker_config :: "u64 \<Rightarrow> Worker \<Rightarrow> WorkerConfig" where
  "Worker_config n w =
     \<lparr>wc_uuid = rn_uuid w, wc_seqNum = n, wc_topicsAll = wk_subscrAll w, wc_topicsNames = wk_subscrNames w,
      wc_endpDelivery = rn_endpDelivery w, wc_endpDispatch = rn_endpDispatch w,
      wc_endpSnapshot = rn_endpSnapshot w\<rparr>"

definition Worker_prepareConfiguration :: "env \<Rightarrow> recv_result \<Rightarrow> (Worker, Part) action" where
  "Worker_prepareConfiguration P seq =
     bindA (Worker_seqNumber P seq) (\<lambda>n w.
       (WorkerConfig_toPart (en_mem P) (en_arch P) (Worker_config n w), w))"

definition Worker_start :: "env \<Rightarrow> recv_result \<Rightarrow> recv_result \<Rightarrow> unit result \<Rightarrow> Worker \<Rightarrow>
    (session_future result \<times> Worker) option" where
  "Worker_start P fin seq spawn = Runner_start P fin spawn (Worker_prepareConfiguration P seq)"

text \<open>The waits for one kind of event match its type, and the result tells whether it has that type.\<close>

definition Worker_waitForType :: "env \<Rightarrow> Event_Type \<Rightarrow> unit result \<Rightarrow> wake list result list \<Rightarrow> Worker \<Rightarrow> bool option result" where
  "Worker_waitForType P ty poll ws w =
     bindR (Runner_waitForEvent P (Some (\<lambda>evt. evt = ty)) poll ws w) (\<lambda>ev.
     Inr (map_option (\<lambda>e. ev_type e = ty) ev))"

definition Worker_waitForStarted :: "env \<Rightarrow> unit result \<Rightarrow> wake list result list \<Rightarrow> Worker \<Rightarrow> bool option result" where
  "Worker_waitForStarted P = Worker_waitForType P EvStarted"

definition Worker_waitForStopped :: "env \<Rightarrow> unit result \<Rightarrow> wake list result list \<Rightarrow> Worker \<Rightarrow> bool option result" where
  "Worker_waitForStopped P = Worker_waitForType P EvStopped"

definition Worker_waitForOnline :: "env \<Rightarrow> unit result \<Rightarrow> wake list result list \<Rightarrow> Worker \<Rightarrow> bool option result" where
  "Worker_waitForOnline P = Worker_waitForType P EvOnline"

definition Worker_waitForOffline :: "env \<Rightarrow> unit result \<Rightarrow> wake list result list \<Rightarrow> Worker \<Rightarrow> bool option result" where
  "Worker_waitForOffline P = Worker_waitForType P EvOffline"

definition is_topic_event :: "Event_Type \<Rightarrow> bool" where
  "is_topic_event evt \<longleftrightarrow> evt = EvDelivery \<or> evt = EvSyncElement"

definition Worker_waitForTopic :: "env \<Rightarrow> unit result \<Rightarrow> wake list result list \<Rightarrow> Worker \<Rightarrow> Topic option option result" where
  "Worker_waitForTopic P poll ws w =
     bindR (Runner_waitForEvent P (Some is_topic_event) poll ws w) (\<lambda>ev.
     case ev of
       None \<Rightarrow> Inr None
     | Some e \<Rightarrow>
         if \<not> is_topic_event (ev_type e) then Inr (Some None)
         else bindR (Topic_fromPart (en_mem P) (en_arch P) (ev_payload e)) (\<lambda>t. Inr (Some (Some t))))"

section \<open>Waiting for events\<close>

lemma wait_batch_append:
  "wait_batch P tok match (ws @ ws') =
     bindR (wait_batch P tok match ws) (\<lambda>ev. case ev of Some e \<Rightarrow> Inr (Some e) | None \<Rightarrow> wait_batch P tok match ws')"
  by (induction P tok match ws rule: wait_batch.induct) (auto simp: bindR_def split: sum.splits)

lemma wait_loop_concat: "wait_loop P tok match (map Inr bs) = wait_batch P tok match (concat bs)"
  by (induction bs) (auto simp: wait_batch_append bindR_def split: sum.splits option.splits)

lemma wait_batch_events:
  assumes "map (Runner_recvEvent P tok) answers = map Inr evs"
  shows "wait_batch P tok match (map WakeEvent answers) = Inr (find (\<lambda>e. \<not> event_skipped match e) evs)"
  using assms by (induction answers arbitrary: evs) (auto simp: map_eq_Cons_conv Cons_eq_map_conv)

section \<open>Operations sent\<close>

definition rn_sent :: "Part list \<Rightarrow> 'r Runner_scheme \<Rightarrow> 'r Runner_scheme" where
  "rn_sent ps r = r\<lparr>rn_io := (rn_io r)\<lparr>io_sends := io_sends (rn_io r) + length ps,
     io_sent := io_sent (rn_io r) @ map (Pair ChOps) ps\<rparr>\<rparr>"

lemma rn_sent_simps [simp]:
  "rn_token (rn_sent ps r) = rn_token r" "rn_running (rn_sent ps r) = rn_running r"
  "io_sent (rn_io (rn_sent ps r)) = io_sent (rn_io r) @ map (Pair ChOps) ps"
  by (simp_all add: rn_sent_def)

lemma rn_send_Sent:
  "\<forall>k. nt_send (en_net P) k = Sent \<Longrightarrow> rn_send P p r = (Inr (int (length (pt_data p))), rn_sent [p] r)"
  by (simp add: rn_send_def sendMessagePart_def rn_sent_def Let_def)

lemma rn_sent_sent: "rn_sent [p] (rn_sent [t] r) = rn_sent [t, p] r"
  by (simp add: rn_sent_def)

lemma Runner_sendOperation_sent:
  assumes "Runner_sendOperation P oper pay r = (Inr x, r')" and net: "\<forall>k. nt_send (en_net P) k = Sent"
  obtains t p where "operation_parts P (rn_token r) oper pay = Inr (t, p)" "r' = rn_sent [t, p] r"
proof (cases "operation_parts P (rn_token r) oper pay")
  case (Inl e)
  then show thesis using assms(1) by (cases e) (auto simp: Runner_sendOperation_def fatalA_def bindA_def LOG_FATAL_def)
next
  case (Inr tp)
  then show thesis
    using that [of "fst tp" "snd tp"] assms(1)
    by (auto simp: Runner_sendOperation_def fatalA_def thenA_def bindA_def retA_def rn_send_Sent [OF net]
        rn_sent_sent split: prod.splits)
qed

lemma Runner_isRunning_ok:
  assumes "Runner_isRunning P fin r = (Inr b, r')"
  shows "r' = (case fin of Received p \<Rightarrow>
      if toUint8 (en_arch P) p = rn_token r then r\<lparr>rn_running := False\<rparr> else r | _ \<Rightarrow> r) \<and> b = rn_running r'"
  using assms
  by (auto simp: Runner_isRunning_def noexceptA_def recvMessagePart_def action_defs split: recv_result.splits if_splits)

lemma Runner_isRunning_eq:
  "Runner_isRunning P NoMessage r = (Inr (rn_running r), r)"
  "Runner_isRunning P (Received p) r =
     (if toUint8 (en_arch P) p = rn_token r then (Inr False, r\<lparr>rn_running := False\<rparr>) else (Inr (rn_running r), r))"
  by (auto simp: Runner_isRunning_def noexceptA_def recvMessagePart_def action_defs)

section \<open>Events received and numbers read\<close>

lemma Runner_recvEvent_decode:
  assumes "allocator_ok (en_mem Q)" and "wire_order (en_arch Q) = wire_order (en_arch P)"
    and "group_ok pay" and "length (pt_data pay) < 2 ^ 32" and "event_part Q tok ev pay = Inr p"
    and "en_mem P (length (pt_data pay)) \<noteq> None"
  shows "Runner_recvEvent P token (Received p) =
    Inr \<lparr>ev_type = ev, ev_notif = if tok = token then EvSuccess else EvDiscard,
         ev_payload = zmq_msg_init\<lparr>pt_data := pt_data pay\<rparr>\<rparr>"
proof -
  obtain d where "zmq_msg_group p = GROUP_EVENTS" "group_ok p"
    "unpack (en_mem P) (en_arch P) [TUInt8, TString] (pt_data p) = Inr [FUInt8 tok, FString d]"
    "Event_fromPart (en_mem P) (en_arch P) (zmq_msg_init\<lparr>pt_data := d\<rparr>) =
       Inr \<lparr>ev_type = ev, ev_notif = EvSuccess, ev_payload = zmq_msg_init\<lparr>pt_data := pt_data pay\<rparr>\<rparr>"
    by (rule event_part_decode [OF assms(1-5), where mem' = "en_mem P", OF assms(6)])
  then show ?thesis
    by (auto simp: Runner_recvEvent_def recvMessagePart_def group_ok_def c_str_id)
qed

lemma Worker_seqNumber_read:
  assumes "allocator_ok (en_mem P)" and "Part_uint (en_mem P) (en_arch P) (n :: u64) = Inr q"
  shows "Worker_seqNumber P (Received q) w = (Inr (toUint64 (en_arch P) q), w\<lparr>wk_seqNum := toUint64 (en_arch P) q\<rparr>)"
  by (simp add: Worker_seqNumber_def recvMessagePart_def action_defs)

section \<open>Properties\<close>

text \<open>An event reaches the application as the session sent it: with its type and its payload, as new
  when it comes from the current session and as old when it comes from another one.\<close>

theorem runner_receives_event:
  assumes "allocator_ok (en_mem Q)" and "wire_order (en_arch Q) = wire_order (en_arch P)"
    and "group_ok pay" and "length (pt_data pay) < 2 ^ 32" and "event_part Q tok ev pay = Inr p"
    and "en_mem P (length (pt_data pay)) \<noteq> None"
  shows "Runner_recvEvent P token (Received p) =
    Inr \<lparr>ev_type = ev, ev_notif = if tok = token then EvSuccess else EvDiscard,
         ev_payload = zmq_msg_init\<lparr>pt_data := pt_data pay\<rparr>\<rparr>"
  using assms by (rule Runner_recvEvent_decode)

lemma sample_event: "\<exists>p. event_part sample_env tok ev zmq_msg_init = Inr p"
  using event_part_returns [of sample_env zmq_msg_init tok ev] calloc_ok group_ok_init by (auto simp: zmq_msg_init_def)

lemma runner_receives_event_witness:
  "\<exists>p. event_part sample_env 3 EvOnline zmq_msg_init = Inr p \<and>
     Runner_recvEvent sample_env 4 (Received p) =
       Inr \<lparr>ev_type = EvOnline, ev_notif = EvDiscard, ev_payload = zmq_msg_init\<rparr>"
proof -
  obtain p where p: "event_part sample_env 3 EvOnline zmq_msg_init = Inr p" using sample_event by blast
  from runner_receives_event [OF _ _ group_ok_init(1) _ p, of sample_env 4] calloc_ok p
  show ?thesis by (simp add: zmq_msg_init_def)
qed

text \<open>C31: Waiting for an event returns the first one that was asked for. Over any number of polls, the
  nested loops of \<^verbatim>\<open>waitForEvent\<close> return the first event in order of arrival that is not a timeout and
  matches, the timeout event when the cancellation comes first, and go on waiting otherwise.\<close>

theorem runner_waits_first:
  assumes "map (Runner_recvEvent P (rn_token r)) answers = map Inr evs"
    and "concat bs = map WakeEvent answers @ (if canc then WakeCancel # rest else [])"
  shows "Runner_waitForEvent P match (Inr ()) (map Inr bs) r =
    Inr (case find (\<lambda>e. \<not> event_skipped match e) evs of
           Some e \<Rightarrow> Some e
         | None \<Rightarrow> if canc then Some Event_timeout else None)"
  using wait_batch_events [OF assms(1), of match]
  by (simp add: Runner_waitForEvent_def wait_loop_concat assms(2) wait_batch_append split: option.split)

lemma runner_waits_first_witness:
  "Runner_waitForEvent sample_env None (Inr ()) (map Inr [[WakeEvent NoMessage], [WakeCancel]]) (Runner_new [] []) =
     Inr (Some Event_timeout)"
proof -
  have "map (Runner_recvEvent sample_env (rn_token (Runner_new [] []))) [NoMessage] = map Inr [Event_timeout]"
    by (simp add: Runner_recvEvent_def recvMessagePart_def)
  from runner_waits_first [OF this, of "[[WakeEvent NoMessage], [WakeCancel]]" True "[]" None]
  show ?thesis by (simp add: event_skipped_def Event_timeout_def)
qed

text \<open>An old event satisfies a wait. The waits for one kind of event look at the type only, not at
  whether the event is old: an event of an earlier session that is still in the socket ends the wait
  for a start, a stop, a connection or a topic.\<close>

theorem worker_wait_stale:
  assumes "allocator_ok (en_mem Q)" and "wire_order (en_arch Q) = wire_order (en_arch P)"
    and "group_ok pay" and "length (pt_data pay) < 2 ^ 32" and "event_part Q old EvStarted pay = Inr p"
    and "en_mem P (length (pt_data pay)) \<noteq> None" and "old \<noteq> rn_token w"
  shows "(\<exists>e. Runner_recvEvent P (rn_token w) (Received p) = Inr e \<and> ev_notif e = EvDiscard) \<and>
    Worker_waitForStarted P (Inr ()) (Inr [WakeEvent (Received p)] # ws) w = Inr (Some True)"
  using Runner_recvEvent_decode [OF assms(1-6), of "rn_token w"] assms(7)
  by (simp add: Worker_waitForStarted_def Worker_waitForType_def Runner_waitForEvent_def event_skipped_def)

lemma worker_wait_stale_witness:
  "\<exists>p. event_part sample_env 1 EvStarted zmq_msg_init = Inr p \<and>
     Worker_waitForStarted sample_env (Inr ()) [Inr [WakeEvent (Received p)]] ((Worker_new [] 0 [])\<lparr>rn_token := 2\<rparr>) = Inr (Some True)"
proof -
  obtain p where p: "event_part sample_env 1 EvStarted zmq_msg_init = Inr p" using sample_event by blast
  from worker_wait_stale [OF _ _ group_ok_init(1) _ p, of sample_env "(Worker_new [] 0 [])\<lparr>rn_token := 2\<rparr>" "[]"] calloc_ok p
  show ?thesis by (simp add: zmq_msg_init_def)
qed

text \<open>A restarted worker goes on from its last sequence number only if it can read it. The session tells
  its number to the runner as a part of eight bytes, the runner reads it back with \<^verbatim>\<open>toUint64\<close> when it
  prepares the next start, and the next session numbers its topics from there: from the same number
  exactly when \<^verbatim>\<open>char\<close> is unsigned or no byte but the highest has its sign bit set.\<close>

theorem worker_restart_number:
  assumes "allocator_ok (en_mem P)" and "\<forall>n. en_mem P n \<noteq> None"
    and "Part_uint (en_mem P) (en_arch P) (n :: u64) = Inr q" and "worker_config_ok (Worker_config m w)"
    and "Worker_prepareConfiguration P (Received q) w = (Inr cfg, w')" and "we_saveConfiguration P cfg e = (Inr (), e')"
  shows "we_seqNum e' = n \<longleftrightarrow> (char_signed (en_arch P) \<longrightarrow> sign_clear n)"
proof -
  let ?c = "Worker_config (toUint64 (en_arch P) q) (w\<lparr>wk_seqNum := toUint64 (en_arch P) q\<rparr>)"
  have cfg: "WorkerConfig_toPart (en_mem P) (en_arch P) ?c = Inr cfg"
    using assms(5) Worker_seqNumber_read [OF assms(1,3), of w]
    by (auto simp: Worker_prepareConfiguration_def bindA_def)
  have "worker_config_ok ?c" using assms(4) by (simp add: worker_config_ok_def Worker_config_def)
  then have "WorkerConfig_fromPart (en_mem P) (en_arch P) cfg = Inr ?c"
    using worker_config.dec_enc [OF assms(1) refl _ _ cfg, of "en_mem P"] assms(2) by simp
  then have "we_seqNum e' = toUint64 (en_arch P) q"
    using assms(6) by (auto simp: we_saveConfiguration_def bindA_def liftA_def updA_def Worker_config_def)
  then show ?thesis using Part_uint64_read [OF assms(1,3)] by simp
qed

definition sample_app :: Worker where
  "sample_app = Worker_setTopicsNames [Name_new [65]]
     (Runner_setEndpoints [[66]] [] [[67, 68]] (Worker_new (replicate 16 2) 5 []))"

lemma sample_app_simps [simp]:
  "rn_token sample_app = 0" "\<not> rn_running sample_app" "rn_io sample_app = io_init" "wk_seqNum sample_app = 5"
  by (simp_all add: sample_app_def Worker_setTopicsNames_def Runner_setEndpoints_def Worker_new_def Runner_new_def
      Runner.defs)

lemma sample_app_worker_config: "Worker_config 5 sample_app = sample_worker_config"
  by (simp add: Worker_config_def sample_app_def Worker_setTopicsNames_def Runner_setEndpoints_def Worker_new_def
      Runner_new_def Runner.defs sample_worker_config_def)

lemma worker_restart_number_witness:
  "\<exists>q cfg w' e'. Part_uint calloc little (128 :: u64) = Inr q \<and>
     Worker_prepareConfiguration sample_env (Received q) sample_app = (Inr cfg, w') \<and>
     we_saveConfiguration sample_env cfg sample_worker_env = (Inr (), e') \<and> we_seqNum e' \<noteq> 128"
proof -
  obtain q where q: "Part_uint calloc little (128 :: u64) = Inr q" by (simp add: Part_uint_eq max_vsm_size_def)
  let ?n = "toUint64 little q" and ?w = "sample_app\<lparr>wk_seqNum := toUint64 little q\<rparr>"
  have c: "Worker_config ?n ?w = sample_worker_config\<lparr>wc_seqNum := ?n\<rparr>"
    unfolding sample_app_worker_config [symmetric] by (simp add: Worker_config_def)
  obtain cfg where cfg: "WorkerConfig_toPart calloc little (Worker_config ?n ?w) = Inr cfg"
    using sample_configs_pack(3) [of little ?n] by (auto simp: c)
  have ok: "worker_config_ok (Worker_config 5 sample_app)" by (simp add: sample_app_worker_config sample_configs_ok)
  have "worker_config_ok (Worker_config ?n ?w)" using sample_configs_ok(1) by (simp add: c worker_config_ok_def)
  then have d: "WorkerConfig_fromPart calloc little cfg = Inr (Worker_config ?n ?w)"
    using worker_config.dec_enc [OF calloc_ok(1) refl _ _ cfg, where mem' = calloc] calloc_ok(2) by simp
  have p: "Worker_prepareConfiguration sample_env (Received q) sample_app = (Inr cfg, ?w)"
    using Worker_seqNumber_read [of sample_env 128 q sample_app] calloc_ok(1) q cfg
    by (simp add: Worker_prepareConfiguration_def bindA_def)
  obtain e' where e: "we_saveConfiguration sample_env cfg sample_worker_env = (Inr (), e')"
    using d by (simp add: we_saveConfiguration_def bindA_def liftA_def updA_def)
  have "we_seqNum e' \<noteq> 128"
    using worker_restart_number [OF _ _ _ ok p e, of 128] q calloc_ok not_sign_clear_128 by (simp add: little_def)
  then show ?thesis using q p e by blast
qed

end
