(* ===== verification/Fuurin_Deadline.thy ===== *)
theory Fuurin_Deadline
  imports Fuurin_Inproc Fuurin_Runner
begin

text \<open>
  Waiting for an event with a timeout, \<^verbatim>\<open>Runner::waitForEvent\<close> of \<^verbatim>\<open>src/runner.cpp\<close>: every call makes a cancellation with a
  deadline, in the context of the runner, and polls it beside the socket of events.
\<close>

text \<open>
  \<open>dl\<close> is what setting the deadline gives. While the call waits, which gives \<^term>\<open>None\<close>, the sockets of its
  cancellation are open; it closes them when it returns or throws.
\<close>

definition Runner_waitForEvent_for :: "env \<Rightarrow> zlib \<Rightarrow> sid \<Rightarrow> sid \<Rightarrow> unit result \<Rightarrow> (Event_Type \<Rightarrow> bool) option \<Rightarrow> unit result \<Rightarrow>
    wake list result list \<Rightarrow> 'r Runner_scheme \<Rightarrow> Event option zaction" where
  "Runner_waitForEvent_for P lib t r dl match poll ws rn =
     thenA (Cancellation_wire lib ''waitForEvent_canc_deadline'' t r)
     (guardA
       (bindA (liftA dl) (\<lambda>_.
        bindA (liftA (Runner_waitForEvent P match poll ws rn)) (\<lambda>ev.
        case ev of
          None \<Rightarrow> retA None
        | Some x \<Rightarrow> thenA (seqA [zs_close lib r, zs_close lib t]) (retA (Some x)))))
       (seqA [zs_close lib r, zs_close lib t]))"

text \<open>C37: Waiting for an event with a timeout from two threads fails, although the operation is documented to be
  thread-safe. Every call makes a cancellation of the same name: while one call waits, another one, whatever it waits
  for, throws that a socket could not be bound, and leaves its own sockets closed and those of the first open.\<close>

theorem wait_twice_fails:
  assumes "inproc_ok lib" and "clock_ok lib" and "poll_inv w"
    and "distinct [t, r, t', r']" and "\<forall>s\<in>{t, r, t', r'}. \<not> isOpen w s \<and> zs_observers (zw_socks w s) = []"
    and "\<not> bound lib (zw_calls w) (inproc ''waitForEvent_canc_deadline'')"
    and "Runner_waitForEvent P match poll ws rn = Inr None"
  shows "\<exists>w1 w2. Runner_waitForEvent_for P lib t r (Inr ()) match poll ws rn w = (Inr None, w1) \<and>
    Runner_waitForEvent_for P lib t' r' dl' match' poll' ws' rn w1 =
      (Inl (Throw ZMQSocketBindFailed ''could not bind socket'' 0), w2) \<and>
    isOpen w1 t \<and> isOpen w1 r \<and> (\<forall>s. isOpen w2 s = isOpen w1 s) \<and> \<not> isOpen w2 t' \<and> \<not> isOpen w2 r'"
proof -
  obtain w1 w2 where c: "Cancellation_wire lib ''waitForEvent_canc_deadline'' t r w = (Inr (), w1)"
    "Cancellation_wire lib ''waitForEvent_canc_deadline'' t' r' w1 =
      (Inl (Throw ZMQSocketBindFailed ''could not bind socket'' 0), w2)"
    "isOpen w1 t" "isOpen w1 r" "\<forall>s. isOpen w2 s = isOpen w1 s" "\<not> isOpen w2 t'" "\<not> isOpen w2 r'"
    using cancellation_twice [OF assms(1-6)] by blast
  have "Runner_waitForEvent_for P lib t r (Inr ()) match poll ws rn w = (Inr None, w1)"
    using c(1) assms(7) by (simp add: Runner_waitForEvent_for_def guardA_def action_defs)
  moreover have "Runner_waitForEvent_for P lib t' r' dl' match' poll' ws' rn w1 =
      (Inl (Throw ZMQSocketBindFailed ''could not bind socket'' 0), w2)"
    using c(2) by (simp add: Runner_waitForEvent_for_def thenA_def bindA_def)
  ultimately show ?thesis using c(3-) by blast
qed

theorem wait_twice_fails_witness:
  "\<exists>w1 w2. Runner_waitForEvent_for sample_env inproc_lib 8 9 (Inr ()) None (Inr ()) [] (Runner_new [] []) (cx_world fresh) = (Inr None, w1) \<and>
    Runner_waitForEvent_for sample_env inproc_lib 10 11 (Inr ()) None (Inr ()) [] (Runner_new [] []) w1 =
      (Inl (Throw ZMQSocketBindFailed ''could not bind socket'' 0), w2) \<and> isOpen w2 9 \<and> \<not> isOpen w2 11"
proof -
  have b: "\<not> bound inproc_lib (zw_calls (cx_world fresh)) e" for e by (simp add: inproc_bound fresh_def binds_def)
  have s: "\<forall>s\<in>{8, 9, 10, 11}. \<not> isOpen (cx_world fresh) s \<and> zs_observers (zw_socks (cx_world fresh) s) = []"
    by (simp add: fresh_def isOpen_def ZSocket_new_def)
  have "Runner_waitForEvent sample_env None (Inr ()) [] (Runner_new [] []) = Inr None"
    by (simp add: Runner_waitForEvent_def)
  from wait_twice_fails [OF inproc_lib_ok sample_invs(2) _ s b this, of "Inr ()" None "Inr ()" "[]"] show ?thesis by auto
qed

end
