(* ===== verification/Fuurin_Arg.thy ===== *)
theory Fuurin_Arg
  imports Fuurin_Prelude
begin

text \<open>
  The arguments of log messages and errors: \<^verbatim>\<open>include/fuurin/arg.h\<close> and
  \<^verbatim>\<open>src/arg.cpp\<close>. A long string and an array are kept in a block of the heap that counts its
  references; copies share it and the last one deletes it, with everything an array holds. The heap is
  explicit: reading a deleted block is the fault ``use after free''.
\<close>

section \<open>Arguments and the heap\<close>

datatype Arg_Type = TyInvalid | TyInt | TyErrno | TyDouble | TyString | TyArray

datatype Alloc = AlNone | AlStack | AlHeap

text \<open>
  The union of values. A \<^verbatim>\<open>string_view\<close> is the bytes it shows, which belong to the caller, and a
  \<^verbatim>\<open>double\<close> is its 64 bits; the last two are pointers to blocks of the heap.
\<close>

datatype Val = VInt int | VDouble u64 | VChr bytes | VBuf bytes | VStr nat | VArr nat

record Arg =
  ar_type :: Arg_Type
  ar_alloc :: Alloc
  ar_key :: bytes
  ar_val :: Val

text \<open>
  The blocks, \<^verbatim>\<open>Ref<char>\<close> and \<^verbatim>\<open>Ref<Arg>\<close>, with their counts. Every reference is an object in memory,
  so the count of 64 bits cannot overflow and is a number here.
\<close>

datatype Ref = RefStr nat bytes | RefArr nat "Arg list"

type_synonym heap = "Ref option list"

primrec ref_cnt :: "Ref \<Rightarrow> nat" where
  "ref_cnt (RefStr c b) = c"
| "ref_cnt (RefArr c ys) = c"

primrec ref_upd :: "(nat \<Rightarrow> nat) \<Rightarrow> Ref \<Rightarrow> Ref" where
  "ref_upd f (RefStr c b) = RefStr (f c) b"
| "ref_upd f (RefArr c ys) = RefArr (f c) ys"

definition deref :: "heap \<Rightarrow> nat \<Rightarrow> Ref option" where
  "deref h p = (if p < length h then h ! p else None)"

text \<open>The block an argument refers to, the test of \<^verbatim>\<open>refAcquire\<close> and \<^verbatim>\<open>refRelease\<close>.\<close>

definition heap_ref :: "Arg \<Rightarrow> nat option" where
  "heap_ref x =
     (if ar_alloc x = AlHeap
      then (case (ar_type x, ar_val x) of
              (TyString, VStr p) \<Rightarrow> Some p
            | (TyArray, VArr p) \<Rightarrow> Some p
            | _ \<Rightarrow> None)
      else None)"

definition refAcquire :: "Arg \<Rightarrow> heap \<Rightarrow> heap result" where
  "refAcquire x h =
     (case heap_ref x of
        None \<Rightarrow> Inr h
      | Some p \<Rightarrow> (case deref h p of None \<Rightarrow> free_fault | Some r \<Rightarrow> Inr (h[p := Some (ref_upd Suc r)])))"

text \<open>The number of allocated blocks, which deleting makes smaller.\<close>

definition blocks :: "heap \<Rightarrow> nat" where
  "blocks h = length (filter (\<lambda>r. r \<noteq> None) h)"

lemma deref_less: "deref h p = Some r \<Longrightarrow> p < length h \<and> h ! p = Some r"
  by (simp add: deref_def split: if_splits)

lemma blocks_update:
  assumes "deref h p = Some r"
  shows "Suc (blocks (h[p := None])) = blocks h" "blocks (h[p := Some r']) = blocks h"
proof -
  have h: "h = take p h @ Some r # drop (Suc p) h" and less: "p < length h"
    using id_take_nth_drop [of p h] deref_less [OF assms] by simp_all
  have "h[p := x] = take p h @ x # drop (Suc p) h" for x using less by (rule upd_conv_take_nth_drop)
  then show "Suc (blocks (h[p := None])) = blocks h" "blocks (h[p := Some r']) = blocks h"
    by (subst (2) h, simp add: blocks_def)+
qed

text \<open>
  Releasing a list of arguments, the first one first. The last reference to an array deletes its block and
  with it the elements, which \<^verbatim>\<open>delete[]\<close> destroys from the last to the first; they are released next.
\<close>

function release :: "Arg list \<Rightarrow> heap \<Rightarrow> heap result" where
  "release [] h = Inr h"
| "release (x # xs) h =
     (case heap_ref x of
        None \<Rightarrow> release xs h
      | Some p \<Rightarrow>
          (case deref h p of
             None \<Rightarrow> free_fault
           | Some (RefStr c b) \<Rightarrow>
               if c - 1 = 0 then release xs (h[p := None]) else release xs (h[p := Some (RefStr (c - 1) b)])
           | Some (RefArr c ys) \<Rightarrow>
               if c - 1 = 0 then release (rev ys @ xs) (h[p := None])
               else release xs (h[p := Some (RefArr (c - 1) ys)])))"
  by pat_completeness auto

termination
  by (relation "measures [\<lambda>(xs, h). blocks h, \<lambda>(xs, h). length xs]")
    (auto simp: blocks_update dest!: blocks_update(1))

definition refRelease :: "Arg \<Rightarrow> heap \<Rightarrow> heap result" where
  "refRelease x h = release [x] h"

section \<open>Construction\<close>

definition Arg_invalid :: Arg where
  "Arg_invalid = \<lparr>ar_type = TyInvalid, ar_alloc = AlNone, ar_key = [], ar_val = VInt 0\<rparr>"

definition Arg_int :: "bytes \<Rightarrow> int \<Rightarrow> Arg" where
  "Arg_int key val = \<lparr>ar_type = TyInt, ar_alloc = AlNone, ar_key = key, ar_val = VInt val\<rparr>"

definition Arg_errno :: "bytes \<Rightarrow> int \<Rightarrow> Arg" where
  "Arg_errno key val = \<lparr>ar_type = TyErrno, ar_alloc = AlNone, ar_key = key, ar_val = VInt val\<rparr>"

definition Arg_double :: "bytes \<Rightarrow> u64 \<Rightarrow> Arg" where
  "Arg_double key val = \<lparr>ar_type = TyDouble, ar_alloc = AlNone, ar_key = key, ar_val = VDouble val\<rparr>"

definition Arg_view :: "bytes \<Rightarrow> bytes \<Rightarrow> Arg" where
  "Arg_view key val = \<lparr>ar_type = TyString, ar_alloc = AlNone, ar_key = key, ar_val = VChr val\<rparr>"

text \<open>The buffer of the union has the size of a \<^verbatim>\<open>string_view\<close>, 16 bytes, less the byte of its length.\<close>

definition MaxStringStackSize :: nat where
  "MaxStringStackSize = 15"

definition Arg_string :: "bytes \<Rightarrow> bytes \<Rightarrow> heap \<Rightarrow> Arg \<times> heap" where
  "Arg_string key val h =
     (if length val \<le> MaxStringStackSize
      then (\<lparr>ar_type = TyString, ar_alloc = AlStack, ar_key = key, ar_val = VBuf val\<rparr>, h)
      else (\<lparr>ar_type = TyString, ar_alloc = AlHeap, ar_key = key, ar_val = VStr (length h)\<rparr>,
            h @ [Some (RefStr 1 val)]))"

text \<open>
  The elements of a new array are invalid arguments first, and the values are then assigned to them one
  by one: the old element is released, the new one written and acquired.
\<close>

fun array_fill :: "nat \<Rightarrow> nat \<Rightarrow> Arg list \<Rightarrow> heap \<Rightarrow> heap result" where
  "array_fill p i [] h = Inr h"
| "array_fill p i (x # xs) h =
     (case deref h p of
        Some (RefArr c ys) \<Rightarrow>
          bindR (refRelease (ys ! i) h) (\<lambda>h1.
          (case deref h1 p of
             Some (RefArr c1 ys1) \<Rightarrow>
               bindR (refAcquire x (h1[p := Some (RefArr c1 (ys1[i := x]))])) (array_fill p (Suc i) xs)
           | _ \<Rightarrow> free_fault))
      | _ \<Rightarrow> free_fault)"

definition Arg_array :: "bytes \<Rightarrow> Arg list \<Rightarrow> heap \<Rightarrow> (Arg \<times> heap) result" where
  "Arg_array key vals h =
     (let p = length h in
      bindR (array_fill p 0 vals (h @ [Some (RefArr 1 (replicate (length vals) Arg_invalid))])) (\<lambda>h1.
      Inr (\<lparr>ar_type = TyArray, ar_alloc = AlHeap, ar_key = key, ar_val = VArr p\<rparr>, h1)))"

section \<open>Reading\<close>

definition Arg_count :: "heap \<Rightarrow> Arg \<Rightarrow> nat result" where
  "Arg_count h x =
     (case ar_type x of
        TyInvalid \<Rightarrow> Inr 0
      | TyArray \<Rightarrow>
          (case ar_val x of
             VArr p \<Rightarrow> (case deref h p of Some (RefArr c ys) \<Rightarrow> Inr (length ys) | _ \<Rightarrow> free_fault)
           | _ \<Rightarrow> free_fault)
      | _ \<Rightarrow> Inr 1)"

definition Arg_refCount :: "heap \<Rightarrow> Arg \<Rightarrow> nat result" where
  "Arg_refCount h x =
     (case ar_type x of
        TyString \<Rightarrow>
          if ar_alloc x \<noteq> AlHeap then Inr 0
          else (case ar_val x of
                  VStr p \<Rightarrow> (case deref h p of Some (RefStr c b) \<Rightarrow> Inr c | _ \<Rightarrow> free_fault)
                | _ \<Rightarrow> free_fault)
      | TyArray \<Rightarrow>
          (case ar_val x of
             VArr p \<Rightarrow> (case deref h p of Some (RefArr c ys) \<Rightarrow> Inr c | _ \<Rightarrow> free_fault)
           | _ \<Rightarrow> free_fault)
      | _ \<Rightarrow> Inr 0)"

definition Arg_toInt :: "Arg \<Rightarrow> int" where
  "Arg_toInt x = (if ar_type x \<noteq> TyInt \<and> ar_type x \<noteq> TyErrno then 0 else (case ar_val x of VInt v \<Rightarrow> v | _ \<Rightarrow> 0))"

definition Arg_toDouble :: "Arg \<Rightarrow> u64" where
  "Arg_toDouble x = (if ar_type x \<noteq> TyDouble then 0 else (case ar_val x of VDouble v \<Rightarrow> v | _ \<Rightarrow> 0))"

text \<open>
  The text of an argument; \<open>strerror\<close> is the description of an error number by the library. A moved string has
  no allocation any more but still its pointer, which is then read as a \<^verbatim>\<open>string_view\<close>.
\<close>

definition Arg_toString :: "(int \<Rightarrow> bytes) \<Rightarrow> heap \<Rightarrow> Arg \<Rightarrow> bytes result" where
  "Arg_toString strerror h x =
     (case ar_type x of
        TyString \<Rightarrow>
          (case (ar_alloc x, ar_val x) of
             (AlNone, VChr v) \<Rightarrow> Inr v
           | (AlStack, VBuf v) \<Rightarrow> Inr v
           | (AlHeap, VStr p) \<Rightarrow> (case deref h p of Some (RefStr c b) \<Rightarrow> Inr b | _ \<Rightarrow> free_fault)
           | _ \<Rightarrow> Inl (Abort ''wrong member of the union''))
      | TyErrno \<Rightarrow> Inr (strerror (Arg_toInt x))
      | _ \<Rightarrow> Inr [])"

definition Arg_toArray :: "heap \<Rightarrow> Arg \<Rightarrow> Arg list option result" where
  "Arg_toArray h x =
     (if ar_type x \<noteq> TyArray then Inr None
      else (case ar_val x of
              VArr p \<Rightarrow> (case deref h p of Some (RefArr c ys) \<Rightarrow> Inr (Some ys) | _ \<Rightarrow> free_fault)
            | _ \<Rightarrow> free_fault))"

section \<open>Copies, moves and assignments\<close>

text \<open>
  The arguments of a program are its variables, by number, and the elements of arrays, by block and
  index. A variable is gone once it is destroyed.
\<close>

datatype loc = Var nat | Elem nat nat

record store =
  st_vars :: "Arg option list"
  st_heap :: heap

fun get_arg :: "store \<Rightarrow> loc \<Rightarrow> Arg result" where
  "get_arg st (Var v) =
     (if v < length (st_vars st)
      then (case st_vars st ! v of Some x \<Rightarrow> Inr x | None \<Rightarrow> free_fault) else free_fault)"
| "get_arg st (Elem p i) =
     (case deref (st_heap st) p of
        Some (RefArr c ys) \<Rightarrow> if i < length ys then Inr (ys ! i) else free_fault
      | _ \<Rightarrow> free_fault)"

text \<open>Arrays are constant for their users: only variables are assigned to.\<close>

definition Arg_assign :: "nat \<Rightarrow> loc \<Rightarrow> store \<Rightarrow> store result" where
  "Arg_assign v src st =
     (if src = Var v then Inr st
      else bindR (get_arg st (Var v)) (\<lambda>x.
        bindR (refRelease x (st_heap st)) (\<lambda>h.
        bindR (get_arg (st\<lparr>st_heap := h\<rparr>) src) (\<lambda>other.
        bindR (refAcquire other h) (\<lambda>h1.
        Inr (st\<lparr>st_vars := (st_vars st)[v := Some other], st_heap := h1\<rparr>))))))"

definition Arg_copy :: "loc \<Rightarrow> store \<Rightarrow> store result" where
  "Arg_copy src st =
     bindR (get_arg st src) (\<lambda>other.
     bindR (refAcquire other (st_heap st)) (\<lambda>h.
     Inr (st\<lparr>st_vars := st_vars st @ [Some other], st_heap := h\<rparr>)))"

definition Arg_move :: "nat \<Rightarrow> store \<Rightarrow> store result" where
  "Arg_move v st =
     bindR (get_arg st (Var v)) (\<lambda>other.
     Inr (st\<lparr>st_vars := (st_vars st)[v := Some (other\<lparr>ar_alloc := AlNone\<rparr>)] @ [Some other]\<rparr>))"

definition Arg_destroy :: "nat \<Rightarrow> store \<Rightarrow> store result" where
  "Arg_destroy v st =
     bindR (get_arg st (Var v)) (\<lambda>x.
     bindR (refRelease x (st_heap st)) (\<lambda>h.
     Inr (st\<lparr>st_vars := (st_vars st)[v := None], st_heap := h\<rparr>)))"

section \<open>The reference counts\<close>

text \<open>
  The count of a block is the number of arguments that refer to it: live variables, given as the list
  \<open>R\<close>, and elements of live arrays. The elements of an array refer to older blocks, so there are no
  cycles, and the type of an argument is the type of its block.
\<close>

fun elems_of :: "Ref option \<Rightarrow> Arg list" where
  "elems_of None = []"
| "elems_of (Some (RefStr c b)) = []"
| "elems_of (Some (RefArr c ys)) = ys"

definition elems :: "heap \<Rightarrow> Arg list" where
  "elems h = concat (map elems_of h)"

definition holders :: "nat \<Rightarrow> Arg list \<Rightarrow> nat" where
  "holders p xs = length (filter (\<lambda>x. heap_ref x = Some p) xs)"

definition block_kind :: "heap \<Rightarrow> nat \<Rightarrow> Arg_Type option" where
  "block_kind h p = map_option (\<lambda>r. case r of RefStr c b \<Rightarrow> TyString | RefArr c ys \<Rightarrow> TyArray) (deref h p)"

definition kind_ok :: "heap \<Rightarrow> Arg \<Rightarrow> bool" where
  "kind_ok h x \<longleftrightarrow> (\<forall>p. heap_ref x = Some p \<longrightarrow> block_kind h p = Some (ar_type x)) \<and>
     (ar_alloc x = AlHeap \<longrightarrow> heap_ref x \<noteq> None)"

definition ranked :: "heap \<Rightarrow> bool" where
  "ranked h \<longleftrightarrow> (\<forall>p c ys. deref h p = Some (RefArr c ys) \<longrightarrow> (\<forall>y\<in>set ys. \<forall>q. heap_ref y = Some q \<longrightarrow> q < p))"

definition heap_inv :: "Arg list \<Rightarrow> heap \<Rightarrow> bool" where
  "heap_inv R h \<longleftrightarrow>
     (\<forall>p. holders p R + holders p (elems h) = (case deref h p of None \<Rightarrow> 0 | Some r \<Rightarrow> ref_cnt r)) \<and>
     (\<forall>p r. deref h p = Some r \<longrightarrow> 0 < ref_cnt r) \<and> ranked h \<and> (\<forall>x\<in>set R \<union> set (elems h). kind_ok h x)"

lemma holders_simps [simp]:
  "holders p [] = 0" "holders p (x # xs) = (if heap_ref x = Some p then 1 else 0) + holders p xs"
  "holders p (xs @ ys) = holders p xs + holders p ys" "holders p (rev xs) = holders p xs"
  by (simp_all add: holders_def rev_filter [symmetric])

lemma deref_simps:
  "deref (h[q := r]) p = (if p = q \<and> q < length h then r else deref h p)"
  "deref (h @ [r]) p = (if p = length h then r else deref h p)"
  by (auto simp: deref_def nth_append)

lemma elems_app [simp]: "elems (h @ [r]) = elems h @ elems_of r"
  by (simp add: elems_def)

lemma split_heap:
  assumes "deref h p = Some r"
  shows "h = take p h @ Some r # drop (Suc p) h" "h[p := x] = take p h @ x # drop (Suc p) h"
  using id_take_nth_drop [of p h] upd_conv_take_nth_drop [of p h x] deref_less [OF assms] by simp_all

lemma holders_update:
  assumes "deref h p = Some r"
  shows "holders q (elems (h[p := x])) + holders q (elems_of (Some r)) = holders q (elems h) + holders q (elems_of x)"
proof -
  have "elems (h[p := x]) = elems (take p h) @ elems_of x @ elems (drop (Suc p) h)"
    by (simp add: split_heap(2) [OF assms] elems_def)
  moreover have "elems h = elems (take p h) @ elems_of (Some r) @ elems (drop (Suc p) h)"
    by (subst split_heap(1) [OF assms], simp add: elems_def)
  ultimately show ?thesis by simp
qed

lemma set_elems_update:
  assumes "deref h p = Some r"
  shows "set (elems (h[p := x])) \<subseteq> set (elems h) \<union> set (elems_of x)" "set (elems_of (Some r)) \<subseteq> set (elems h)"
proof -
  have "elems (h[p := x]) = elems (take p h) @ elems_of x @ elems (drop (Suc p) h)"
    by (simp add: split_heap(2) [OF assms] elems_def)
  moreover have "elems h = elems (take p h) @ elems_of (Some r) @ elems (drop (Suc p) h)"
    by (subst split_heap(1) [OF assms], simp add: elems_def)
  ultimately show "set (elems (h[p := x])) \<subseteq> set (elems h) \<union> set (elems_of x)" "set (elems_of (Some r)) \<subseteq> set (elems h)"
    by auto
qed

lemma ref_upd_simps [simp]: "ref_cnt (ref_upd f r) = f (ref_cnt r)" "elems_of (Some (ref_upd f r)) = elems_of (Some r)"
  by (cases r; simp)+

lemma kind_upd: "deref h p = Some r \<Longrightarrow> block_kind (h[p := Some (ref_upd f r)]) = block_kind h"
  by (rule ext, cases r) (auto simp: block_kind_def deref_simps dest: deref_less)

lemma ranked_upd: "ranked h \<Longrightarrow> deref h p = Some r \<Longrightarrow> ranked (h[p := Some (ref_upd f r)])"
  by (cases r) (auto simp: ranked_def deref_simps split: if_splits)

lemma ranked_del: "ranked h \<Longrightarrow> ranked (h[p := None])"
  by (auto simp: ranked_def deref_simps split: if_splits)

lemma inv_cnt:
  "heap_inv R h \<Longrightarrow> holders p R + holders p (elems h) = (case deref h p of None \<Rightarrow> 0 | Some r \<Rightarrow> ref_cnt r)"
  by (simp add: heap_inv_def)

lemma inv_pos: "heap_inv R h \<Longrightarrow> deref h p = Some r \<Longrightarrow> 0 < ref_cnt r"
  by (simp add: heap_inv_def)

lemma inv_held:
  assumes "heap_inv (x # R) h" and "heap_ref x = Some p"
  obtains r where "deref h p = Some r" and "0 < ref_cnt r"
proof -
  have "0 < holders p (x # R) + holders p (elems h)" using assms(2) by simp
  then have "deref h p \<noteq> None" using assms(1) by (auto simp: heap_inv_def split: option.splits)
  then show thesis using assms(1) that by (auto simp: heap_inv_def)
qed

text \<open>Changing a count together with the references, and deleting a block nothing refers to any more.\<close>

lemma inv_count:
  assumes "heap_inv R h" and "deref h p = Some r" and "0 < f (ref_cnt r)"
    and "\<forall>q. holders q R' + (if q = p then ref_cnt r else 0) = holders q R + (if q = p then f (ref_cnt r) else 0)"
    and "\<forall>x\<in>set R'. kind_ok h x"
  shows "heap_inv R' (h[p := Some (ref_upd f r)])"
proof -
  let ?h = "h[p := Some (ref_upd f r)]"
  have less: "p < length h" using deref_less [OF assms(2)] by simp
  have kok: "kind_ok ?h x = kind_ok h x" for x by (simp add: kind_ok_def kind_upd [OF assms(2)])
  have els: "holders q (elems ?h) = holders q (elems h)" for q
    using holders_update [OF assms(2), of q "Some (ref_upd f r)"] by simp
  have "holders q R' + holders q (elems ?h) = (case deref ?h q of None \<Rightarrow> 0 | Some r \<Rightarrow> ref_cnt r)" for q
    using inv_cnt [OF assms(1), of q] assms(2) spec [OF assms(4), of q] less
    by (cases "q = p") (auto simp: els deref_simps)
  moreover have "set (elems ?h) \<subseteq> set (elems h)"
    using set_elems_update(1) [OF assms(2), of "Some (ref_upd f r)"] set_elems_update(2) [OF assms(2)] by auto
  ultimately show ?thesis
    using assms(1,3,5) ranked_upd [OF _ assms(2)] less
    by (auto simp: heap_inv_def kok deref_simps split: if_splits)
qed

lemma inv_delete:
  assumes "heap_inv (x # R) h" and "heap_ref x = Some p" and "deref h p = Some r" and "ref_cnt r = 1"
  shows "heap_inv (elems_of (Some r) @ R) (h[p := None])"
proof -
  let ?h = "h[p := None]"
  have less: "p < length h" using deref_less [OF assms(3)] by simp
  have cnt: "holders q (x # R) + holders q (elems h) = (case deref h q of None \<Rightarrow> 0 | Some r \<Rightarrow> ref_cnt r)" for q
    using assms(1) by (rule inv_cnt)
  have els: "holders q (elems ?h) + holders q (elems_of (Some r)) = holders q (elems h)" for q
    using holders_update [OF assms(3), of q None] by simp
  have none: "holders p R = 0" "holders p (elems h) = 0" using cnt [of p] assms(2-4) by simp_all
  have free: "heap_ref y \<noteq> Some p" if "y \<in> set R \<union> set (elems h)" for y
    using none that by (auto simp: holders_def filter_empty_conv)
  have kok: "kind_ok ?h y" if "y \<in> set R \<union> set (elems h)" for y
    using that free [OF that] assms(1) by (auto simp: heap_inv_def kind_ok_def block_kind_def deref_simps)
  have "holders q (elems_of (Some r) @ R) + holders q (elems ?h) = (case deref ?h q of None \<Rightarrow> 0 | Some r \<Rightarrow> ref_cnt r)" for q
    using cnt [of q] els [of q] assms(2) none less by (auto simp: deref_simps)
  moreover have "set (elems ?h) \<subseteq> set (elems h)" "set (elems_of (Some r)) \<subseteq> set (elems h)"
    using set_elems_update(1) [OF assms(3), of None] set_elems_update(2) [OF assms(3)] by auto
  ultimately show ?thesis
    using assms(1) kok ranked_del by (auto simp: heap_inv_def deref_simps split: if_splits)
qed

lemma inv_cong:
  assumes "heap_inv R h" and "\<forall>q. holders q R' = holders q R" and "set R' \<subseteq> set R"
  shows "heap_inv R' h"
  using assms by (auto simp: heap_inv_def)

lemma inv_unref:
  assumes "heap_inv (x # R) h" and "heap_ref x = None"
  shows "heap_inv R h"
  using assms by (intro inv_cong [OF assms(1)]) auto

text \<open>What a block holds is never changed: only its count is, until it is deleted.\<close>

definition same_data :: "heap \<Rightarrow> heap \<Rightarrow> bool" where
  "same_data h h' \<longleftrightarrow> length h' = length h \<and>
     (\<forall>p r'. deref h' p = Some r' \<longrightarrow> (\<exists>r. deref h p = Some r \<and> ref_upd (\<lambda>_. 0) r' = ref_upd (\<lambda>_. 0) r))"

lemma same_data_refl: "same_data h h"
  by (simp add: same_data_def)

lemma same_data_trans: "same_data h h1 \<Longrightarrow> same_data h1 h2 \<Longrightarrow> same_data h h2"
  unfolding same_data_def by (metis (no_types, lifting))

lemma same_data_upd: "deref h p = Some r \<Longrightarrow> same_data h (h[p := Some (ref_upd f r)])"
  by (cases r) (auto simp: same_data_def deref_simps)

lemma same_data_del: "same_data h (h[p := None])"
  by (auto simp: same_data_def deref_simps split: if_splits)

lemma inv_decr:
  assumes "heap_inv (x # R) h" and "heap_ref x = Some p" and "deref h p = Some r" and "ref_cnt r - 1 \<noteq> 0"
  shows "heap_inv R (h[p := Some (ref_upd (\<lambda>c. c - 1) r)])"
  by (rule inv_count [OF assms(1,3)]) (use assms in \<open>auto simp: heap_inv_def\<close>)

lemma release_inv:
  assumes "heap_inv (xs @ R) h"
  shows "\<exists>h'. release xs h = Inr h' \<and> heap_inv R h' \<and> same_data h h'"
  using assms
proof (induction xs h rule: release.induct)
  case (1 h)
  then show ?case by (simp add: same_data_refl)
next
  case (2 x xs h)
  have inv: "heap_inv (x # xs @ R) h" using "2.prems" by simp
  show ?case
  proof (cases "heap_ref x")
    case None
    then show ?thesis using "2.IH"(1) inv_unref [OF inv None] by simp
  next
    case (Some p)
    obtain r where r: "deref h p = Some r" "0 < ref_cnt r" using inv_held [OF inv Some] .
    show ?thesis
    proof (cases "ref_cnt r - 1 = 0")
      case True
      then have del: "heap_inv (elems_of (Some r) @ xs @ R) (h[p := None])"
        using inv_delete [OF inv Some r(1)] r(2) by simp
      show ?thesis
      proof (cases r)
        case (RefStr c b)
        then obtain h' where "release xs (h[p := None]) = Inr h'" "heap_inv R h'" "same_data (h[p := None]) h'"
          using "2.IH"(2) [OF Some r(1) RefStr] del True by auto
        then show ?thesis using Some r RefStr True same_data_trans [OF same_data_del] by auto
      next
        case (RefArr c ys)
        have "heap_inv ((rev ys @ xs) @ R) (h[p := None])" by (rule inv_cong [OF del]) (simp_all add: RefArr)
        then obtain h' where "release (rev ys @ xs) (h[p := None]) = Inr h'" "heap_inv R h'" "same_data (h[p := None]) h'"
          using "2.IH"(4) [OF Some r(1) RefArr] True RefArr by auto
        then show ?thesis using Some r RefArr True same_data_trans [OF same_data_del] by auto
      qed
    next
      case False
      let ?h = "h[p := Some (ref_upd (\<lambda>c. c - 1) r)]"
      have "heap_inv (xs @ R) ?h" by (rule inv_decr [OF inv Some r(1) False])
      moreover have "same_data h ?h" by (rule same_data_upd [OF r(1)])
      ultimately show ?thesis
        using "2.IH"(3) [OF Some r(1)] "2.IH"(5) [OF Some r(1)] Some r False
        by (cases r) (fastforce dest: same_data_trans)+
    qed
  qed
qed

lemma acquire_inv:
  assumes "heap_inv R h" and "kind_ok h x"
  shows "\<exists>h'. refAcquire x h = Inr h' \<and> heap_inv (x # R) h' \<and> same_data h h'"
proof (cases "heap_ref x")
  case None
  then have "heap_inv (x # R) h" using assms by (auto simp: heap_inv_def)
  then show ?thesis using None by (simp add: refAcquire_def same_data_refl)
next
  case (Some p)
  then obtain r where r: "deref h p = Some r" using assms(2) by (auto simp: kind_ok_def block_kind_def)
  have "heap_inv (x # R) (h[p := Some (ref_upd Suc r)])"
    by (rule inv_count [OF assms(1) r]) (use assms Some in \<open>auto simp: heap_inv_def\<close>)
  then show ?thesis using Some r same_data_upd [OF r] by (simp add: refAcquire_def)
qed

text \<open>Without cycles, a heap nothing refers to is empty.\<close>

lemma elems_block:
  assumes "y \<in> set (elems h)"
  obtains q c ys where "deref h q = Some (RefArr c ys)" and "y \<in> set ys"
proof -
  obtain r where "r \<in> set h" "y \<in> set (elems_of r)" using assms by (auto simp: elems_def)
  then obtain q where q: "q < length h" "y \<in> set (elems_of (h ! q))" by (metis in_set_conv_nth)
  then obtain c ys where "h ! q = Some (RefArr c ys)" "y \<in> set ys"
    by (cases "h ! q" rule: elems_of.cases) auto
  then show thesis using that [of q c ys] q(1) by (simp add: deref_def)
qed

lemma inv_no_leak:
  assumes "heap_inv [] h"
  shows "deref h p = None"
proof (rule ccontr)
  assume "deref h p \<noteq> None"
  define L where "L = {p. deref h p \<noteq> None}"
  have fin: "finite L" by (rule finite_subset [of _ "{..<length h}"]) (auto simp: L_def deref_def split: if_splits)
  have "p \<in> L" using \<open>deref h p \<noteq> None\<close> by (simp add: L_def)
  then have "Max L \<in> L" using fin by (intro Max_in) auto
  then obtain r where r: "deref h (Max L) = Some r" by (auto simp: L_def)
  have "0 < holders (Max L) (elems h)" using inv_cnt [OF assms, of "Max L"] r assms by (auto simp: heap_inv_def)
  then obtain y where "y \<in> set (elems h)" "heap_ref y = Some (Max L)" by (auto simp: holders_def filter_empty_conv)
  then obtain q c ys where q: "deref h q = Some (RefArr c ys)" "y \<in> set ys" using elems_block by blast
  then have "Max L < q" using assms \<open>heap_ref y = Some (Max L)\<close> by (auto simp: heap_inv_def ranked_def)
  moreover have "q \<le> Max L" using fin q by (intro Max_ge) (auto simp: L_def)
  ultimately show False by simp
qed

section \<open>Arrays\<close>

lemma same_data_kind: "same_data h h' \<Longrightarrow> deref h' p \<noteq> None \<Longrightarrow> block_kind h' p = block_kind h p"
proof -
  assume s: "same_data h h'" and d: "deref h' p \<noteq> None"
  then obtain r' where r': "deref h' p = Some r'" by blast
  then obtain r where "deref h p = Some r" "ref_upd (\<lambda>_. 0) r' = ref_upd (\<lambda>_. 0) r" using s by (auto simp: same_data_def)
  then show ?thesis using r' by (cases r; cases r') (simp_all add: block_kind_def)
qed

lemma kind_less: "block_kind h q = Some ty \<Longrightarrow> q < length h"
  by (auto simp: block_kind_def deref_def split: if_splits)

lemma kind_ok_app: "kind_ok h x \<Longrightarrow> kind_ok (h @ [r]) x"
  using kind_less [of h] by (fastforce simp: kind_ok_def block_kind_def deref_simps)

lemma kind_ok_less: "kind_ok h x \<Longrightarrow> heap_ref x = Some q \<Longrightarrow> q < length h"
  by (auto simp: kind_ok_def intro: kind_less)

lemma inv_new_block:
  assumes "heap_inv R h" and "ref_cnt r = 1" and "elems_of (Some r) = ys" and "heap_ref x = Some (length h)"
    and "kind_ok (h @ [Some r]) x" and "\<forall>y\<in>set ys. heap_ref y = None \<and> ar_alloc y \<noteq> AlHeap"
  shows "heap_inv (x # R) (h @ [Some r])"
proof -
  have deref0: "deref h (length h) = None" by (simp add: deref_def)
  have ys0: "holders p ys = 0" for p using assms(6) by (auto simp: holders_def filter_empty_conv)
  have "holders p (x # R) + holders p (elems (h @ [Some r])) =
      (case deref (h @ [Some r]) p of None \<Rightarrow> 0 | Some r \<Rightarrow> ref_cnt r)" for p
    using inv_cnt [OF assms(1), of p] assms(2-4) deref0 ys0 by (auto simp: deref_simps)
  moreover have "kind_ok (h @ [Some r]) y" if "y \<in> set ys" for y using that assms(6) by (auto simp: kind_ok_def)
  moreover have "ranked (h @ [Some r])"
    using assms(1,3,6) by (auto simp: heap_inv_def ranked_def deref_simps split: if_splits)
  ultimately show ?thesis
    using assms(1,2,3,5) kind_ok_app by (auto simp: heap_inv_def deref_simps split: if_splits)
qed

text \<open>Writing an element that refers to nothing, once the new one is acquired.\<close>

lemma inv_write_elem:
  assumes "heap_inv (x # R) h" and "deref h p = Some (RefArr c ys)" and "i < length ys" and "heap_ref (ys ! i) = None"
    and "\<forall>q. heap_ref x = Some q \<longrightarrow> q < p"
  shows "heap_inv R (h[p := Some (RefArr c (ys[i := x]))])"
proof -
  let ?h = "h[p := Some (RefArr c (ys[i := x]))]"
  have less: "p < length h" using deref_less [OF assms(2)] by simp
  have ys: "holders q (ys[i := x]) = holders q ys + (if heap_ref x = Some q then 1 else 0)" for q
  proof -
    have "holders q ys = holders q (take i ys) + holders q (drop (Suc i) ys)"
      by (subst id_take_nth_drop [OF assms(3)], simp add: assms(4))
    then show ?thesis by (simp add: upd_conv_take_nth_drop [OF assms(3)])
  qed
  have "holders q (elems ?h) = holders q (elems h) + (if heap_ref x = Some q then 1 else 0)" for q
    using holders_update [OF assms(2), of q "Some (RefArr c (ys[i := x]))"] ys [of q] by simp
  then have "holders q R + holders q (elems ?h) = (case deref ?h q of None \<Rightarrow> 0 | Some r \<Rightarrow> ref_cnt r)" for q
    using inv_cnt [OF assms(1), of q] assms(2) less by (auto simp: deref_simps)
  moreover have block_kind: "block_kind ?h = block_kind h" using assms(2) less by (auto simp: block_kind_def deref_simps fun_eq_iff)
  moreover have "set (elems ?h) \<subseteq> insert x (set (elems h))"
    using set_elems_update(1) [OF assms(2), of "Some (RefArr c (ys[i := x]))"] set_elems_update(2) [OF assms(2)]
      set_update_subset_insert [of ys i x] by auto
  moreover have "ranked ?h"
    using assms(1,2,5) less set_update_subset_insert [of ys i x]
    by (auto simp: heap_inv_def ranked_def deref_simps split: if_splits)
  ultimately show ?thesis
    using assms(1,2) less inv_pos [OF assms(1,2)] by (auto simp: heap_inv_def kind_ok_def deref_simps split: if_splits)
qed

definition block_data :: "heap \<Rightarrow> nat \<Rightarrow> Ref option" where
  "block_data h p = map_option (ref_upd (\<lambda>_. 0)) (deref h p)"

lemma data_kind: "block_data h' q = block_data h q \<Longrightarrow> block_kind h' q = block_kind h q"
  unfolding block_data_def block_kind_def
  by (cases "deref h q"; cases "deref h' q"; simp; cases "the (deref h q)"; cases "the (deref h' q)"; simp)

lemma ref_upd_upd [simp]: "ref_upd f (ref_upd g r) = ref_upd (\<lambda>c. f (g c)) r"
  by (cases r) simp_all

lemma acquire_write:
  assumes "heap_inv R h" and "deref h p = Some (RefArr c ys)" and "i < length ys" and "heap_ref (ys ! i) = None"
    and "kind_ok h x" and "\<forall>q. heap_ref x = Some q \<longrightarrow> q < p"
  shows "\<exists>h'. refAcquire x (h[p := Some (RefArr c (ys[i := x]))]) = Inr h' \<and> heap_inv R h' \<and>
    deref h' p = Some (RefArr c (ys[i := x])) \<and> (\<forall>q. q \<noteq> p \<longrightarrow> block_data h' q = block_data h q)"
proof (cases "heap_ref x")
  case None
  then have "heap_inv (x # R) h" using assms(1,5) by (auto simp: heap_inv_def)
  from inv_write_elem [OF this assms(2-4)] show ?thesis
    using None deref_less [OF assms(2)] by (auto simp: refAcquire_def deref_simps block_data_def)
next
  case (Some q)
  obtain h1 where h1: "refAcquire x h = Inr h1" "heap_inv (x # R) h1" using acquire_inv [OF assms(1,5)] by blast
  have q: "q < p" using assms(6) Some by simp
  obtain r where r: "deref h q = Some r" "h1 = h[q := Some (ref_upd Suc r)]"
    using h1(1) Some by (auto simp: refAcquire_def free_fault_def split: option.splits)
  have d: "deref h1 p = Some (RefArr c ys)" using assms(2) r q by (simp add: deref_simps)
  have "refAcquire x (h[p := Some (RefArr c (ys[i := x]))]) = Inr (h1[p := Some (RefArr c (ys[i := x]))])"
    using Some r q by (simp add: refAcquire_def deref_simps list_update_swap)
  moreover have "heap_inv R (h1[p := Some (RefArr c (ys[i := x]))])" by (rule inv_write_elem [OF h1(2) d assms(3,4,6)])
  moreover have "block_data (h1[p := Some (RefArr c (ys[i := x]))]) k = block_data h k" if "k \<noteq> p" for k
    using that r deref_less [OF r(1)] by (auto simp: block_data_def deref_simps)
  ultimately show ?thesis using deref_less [OF d] by (auto simp: deref_simps)
qed

lemma array_fill_inv:
  assumes "heap_inv R h" and "deref h p = Some (RefArr c ys)" and "length ys = i + length xs"
    and "\<forall>k\<ge>i. k < length ys \<longrightarrow> ys ! k = Arg_invalid"
    and "\<forall>x\<in>set xs. kind_ok h x \<and> (\<forall>q. heap_ref x = Some q \<longrightarrow> q < p)"
  shows "\<exists>h'. array_fill p i xs h = Inr h' \<and> heap_inv R h' \<and> deref h' p = Some (RefArr c (take i ys @ xs)) \<and>
    (\<forall>q. q \<noteq> p \<longrightarrow> block_data h' q = block_data h q)"
  using assms
proof (induction xs arbitrary: i ys h)
  case Nil
  then show ?case by simp
next
  case (Cons x xs)
  have i: "i < length ys" "ys ! i = Arg_invalid" using Cons.prems(3,4) by simp_all
  have none: "heap_ref (ys ! i) = None" by (simp add: i heap_ref_def Arg_invalid_def)
  have rel: "refRelease (ys ! i) h = Inr h" by (simp add: refRelease_def none)
  obtain h1 where h1: "refAcquire x (h[p := Some (RefArr c (ys[i := x]))]) = Inr h1" "heap_inv R h1"
      "deref h1 p = Some (RefArr c (ys[i := x]))" "\<forall>q. q \<noteq> p \<longrightarrow> block_data h1 q = block_data h q"
    using acquire_write [OF Cons.prems(1,2) i(1) none, of x] Cons.prems(5) by auto
  have "block_kind h1 q = block_kind h q" if "q < p" for q using h1(4) that by (intro data_kind) auto
  then have k: "\<forall>x\<in>set xs. kind_ok h1 x \<and> (\<forall>q. heap_ref x = Some q \<longrightarrow> q < p)"
    using Cons.prems(5) by (auto simp: kind_ok_def)
  obtain h' where h': "array_fill p (Suc i) xs h1 = Inr h'" "heap_inv R h'"
      "deref h' p = Some (RefArr c (take (Suc i) (ys[i := x]) @ xs))" "\<forall>q. q \<noteq> p \<longrightarrow> block_data h' q = block_data h1 q"
    using Cons.IH [OF h1(2,3), of "Suc i"] Cons.prems(3,4) k by auto
  have "take (Suc i) (ys[i := x]) @ xs = take i ys @ x # xs" using i(1) by (simp add: take_Suc_conv_app_nth)
  then show ?case using h' h1(1,4) rel Cons.prems(2) by simp
qed

lemma array_inv:
  assumes "heap_inv R h" and "\<forall>x\<in>set vals. kind_ok h x"
  shows "\<exists>a h'. Arg_array key vals h = Inr (a, h') \<and> heap_inv (a # R) h' \<and> Arg_toArray h' a = Inr (Some vals) \<and>
    Arg_refCount h' a = Inr 1 \<and> ar_key a = key \<and> (\<forall>q. q \<noteq> length h \<longrightarrow> block_data h' q = block_data h q)"
proof -
  let ?r = "RefArr 1 (replicate (length vals) Arg_invalid)" and ?p = "length h"
  let ?a = "\<lparr>ar_type = TyArray, ar_alloc = AlHeap, ar_key = key, ar_val = VArr ?p\<rparr>"
  have ref: "heap_ref ?a = Some ?p" by (simp add: heap_ref_def)
  have inv: "heap_inv (?a # R) (h @ [Some ?r])"
    by (rule inv_new_block [OF assms(1) _ refl ref])
      (auto simp: ref kind_ok_def block_kind_def deref_simps heap_ref_def Arg_invalid_def)
  have vals: "kind_ok (h @ [Some ?r]) x \<and> (\<forall>q. heap_ref x = Some q \<longrightarrow> q < ?p)" if "x \<in> set vals" for x
    using assms(2) that kind_ok_app kind_ok_less by blast
  have "\<exists>h'. array_fill ?p 0 vals (h @ [Some ?r]) = Inr h' \<and> heap_inv (?a # R) h' \<and>
      deref h' ?p = Some (RefArr 1 (take 0 (replicate (length vals) Arg_invalid) @ vals)) \<and>
      (\<forall>q. q \<noteq> ?p \<longrightarrow> block_data h' q = block_data (h @ [Some ?r]) q)"
    by (rule array_fill_inv [OF inv]) (use vals in \<open>auto simp: deref_simps\<close>)
  then obtain h' where "array_fill ?p 0 vals (h @ [Some ?r]) = Inr h'" "heap_inv (?a # R) h'"
      "deref h' ?p = Some (RefArr 1 vals)" "\<forall>q. q \<noteq> ?p \<longrightarrow> block_data h' q = block_data (h @ [Some ?r]) q" by auto
  then show ?thesis
    by (intro exI [of _ ?a] exI [of _ h']) (simp add: Arg_array_def Arg_toArray_def Arg_refCount_def block_data_def deref_simps)
qed

section \<open>Programs\<close>

text \<open>
  What a program does with its arguments: it constructs them, also from a string, from an array of other ones, as a copy or
  by a move, assigns them and destroys them. Each one refers to variables that are not destroyed yet.
\<close>

datatype arg_op =
    MakePlain Arg
  | MakeString bytes bytes
  | MakeArray bytes "nat list"
  | Copy nat
  | Move nat
  | Assign nat nat
  | Destroy nat

fun arg_step :: "arg_op \<Rightarrow> store \<Rightarrow> store result" where
  "arg_step (MakePlain a) st = Inr (st\<lparr>st_vars := st_vars st @ [Some a]\<rparr>)"
| "arg_step (MakeString key val) st =
     (case Arg_string key val (st_heap st) of (a, h) \<Rightarrow> Inr (st\<lparr>st_vars := st_vars st @ [Some a], st_heap := h\<rparr>))"
| "arg_step (MakeArray key vs) st =
     bindR (Arg_array key (map (\<lambda>v. the (st_vars st ! v)) vs) (st_heap st)) (\<lambda>(a, h).
     Inr (st\<lparr>st_vars := st_vars st @ [Some a], st_heap := h\<rparr>))"
| "arg_step (Copy v) st = Arg_copy (Var v) st"
| "arg_step (Move v) st = Arg_move v st"
| "arg_step (Assign v u) st = Arg_assign v (Var u) st"
| "arg_step (Destroy v) st = Arg_destroy v st"

definition alive :: "store \<Rightarrow> nat \<Rightarrow> bool" where
  "alive st v \<longleftrightarrow> v < length (st_vars st) \<and> st_vars st ! v \<noteq> None"

fun arg_op_ok :: "store \<Rightarrow> arg_op \<Rightarrow> bool" where
  "arg_op_ok st (MakePlain a) \<longleftrightarrow>
     a = Arg_invalid \<or> (\<exists>k v. a = Arg_int k v \<or> a = Arg_errno k v) \<or> (\<exists>k v. a = Arg_double k v) \<or> (\<exists>k v. a = Arg_view k v)"
| "arg_op_ok st (MakeString key val) \<longleftrightarrow> True"
| "arg_op_ok st (MakeArray key vs) \<longleftrightarrow> (\<forall>v\<in>set vs. alive st v)"
| "arg_op_ok st (Copy v) \<longleftrightarrow> alive st v"
| "arg_op_ok st (Move v) \<longleftrightarrow> alive st v"
| "arg_op_ok st (Assign v u) \<longleftrightarrow> alive st v \<and> alive st u"
| "arg_op_ok st (Destroy v) \<longleftrightarrow> alive st v"

definition store_init :: store where
  "store_init = \<lparr>st_vars = [], st_heap = []\<rparr>"

inductive arg_reach :: "store \<Rightarrow> bool" where
  init: "arg_reach store_init"
| step: "arg_reach st'" if "arg_reach st" "arg_op_ok st c" "arg_step c st = Inr st'"

definition live_args :: "store \<Rightarrow> Arg list" where
  "live_args st = concat (map (\<lambda>x. case x of None \<Rightarrow> [] | Some a \<Rightarrow> [a]) (st_vars st))"

definition store_inv :: "store \<Rightarrow> bool" where
  "store_inv st \<longleftrightarrow> heap_inv (live_args st) (st_heap st)"

lemma vars_app [simp]: "live_args (st\<lparr>st_vars := vs @ [Some a], st_heap := h\<rparr>) = live_args (st\<lparr>st_vars := vs\<rparr>) @ [a]"
  "live_args (st\<lparr>st_vars := vs @ [Some a]\<rparr>) = live_args (st\<lparr>st_vars := vs\<rparr>) @ [a]" "live_args (st\<lparr>st_heap := h\<rparr>) = live_args st"
  by (simp_all add: live_args_def)

lemma vars_split:
  assumes "v < length (st_vars st)" and "st_vars st ! v = Some x"
  obtains l r where "live_args st = l @ x # r" and "\<And>y. live_args (st\<lparr>st_vars := (st_vars st)[v := Some y]\<rparr>) = l @ y # r"
    and "live_args (st\<lparr>st_vars := (st_vars st)[v := None]\<rparr>) = l @ r"
proof -
  let ?f = "\<lambda>x. case x of None \<Rightarrow> [] | Some a \<Rightarrow> [a]"
  let ?l = "concat (map ?f (take v (st_vars st)))" and ?r = "concat (map ?f (drop (Suc v) (st_vars st)))"
  have "live_args st = ?l @ x # ?r" unfolding live_args_def by (subst id_take_nth_drop [OF assms(1)]) (simp add: assms(2))
  moreover have "live_args (st\<lparr>st_vars := (st_vars st)[v := Some y]\<rparr>) = ?l @ y # ?r" for y
    by (simp add: live_args_def upd_conv_take_nth_drop [OF assms(1)])
  moreover have "live_args (st\<lparr>st_vars := (st_vars st)[v := None]\<rparr>) = ?l @ ?r"
    by (simp add: live_args_def upd_conv_take_nth_drop [OF assms(1)])
  ultimately show thesis by (rule that)
qed

lemma alive_get: "alive st v \<Longrightarrow> \<exists>x. get_arg st (Var v) = Inr x \<and> st_vars st ! v = Some x \<and> v < length (st_vars st) \<and> x \<in> set (live_args st)"
  by (auto simp: alive_def live_args_def in_set_conv_nth split: option.splits)

lemma inv_plain:
  assumes "heap_inv R h" and "ar_alloc a \<noteq> AlHeap"
  shows "heap_inv (R @ [a]) h"
proof -
  have "heap_ref a = None" using assms(2) by (simp add: heap_ref_def)
  then show ?thesis using assms by (auto simp: heap_inv_def kind_ok_def)
qed

lemma inv_front: "heap_inv (l @ x # r) h \<longleftrightarrow> heap_inv (x # l @ r) h" "heap_inv (l @ [x]) h \<longleftrightarrow> heap_inv (x # l) h"
  by (auto intro: inv_cong)

lemma inv_kind: "heap_inv R h \<Longrightarrow> x \<in> set R \<Longrightarrow> kind_ok h x"
  by (simp add: heap_inv_def)

lemma string_inv:
  assumes "heap_inv R h"
  shows "case Arg_string key val h of (a, h') \<Rightarrow> heap_inv (a # R) h' \<and> (\<forall>strerror. Arg_toString strerror h' a = Inr val)"
proof (cases "length val \<le> MaxStringStackSize")
  case True
  then show ?thesis using inv_plain [OF assms] by (simp add: Arg_string_def Arg_toString_def inv_front)
next
  case False
  let ?a = "\<lparr>ar_type = TyString, ar_alloc = AlHeap, ar_key = key, ar_val = VStr (length h)\<rparr>"
  have "heap_inv (?a # R) (h @ [Some (RefStr 1 val)])"
    by (rule inv_new_block [OF assms _ refl]) (auto simp: heap_ref_def kind_ok_def block_kind_def deref_simps)
  then show ?thesis using False by (simp add: Arg_string_def Arg_toString_def deref_simps)
qed

lemma destroy_inv:
  assumes "store_inv st" and "alive st v"
  shows "\<exists>x h. get_arg st (Var v) = Inr x \<and> refRelease x (st_heap st) = Inr h \<and> same_data (st_heap st) h \<and>
    heap_inv (live_args (st\<lparr>st_vars := (st_vars st)[v := None]\<rparr>)) h"
proof -
  obtain x where x: "get_arg st (Var v) = Inr x" "st_vars st ! v = Some x" "v < length (st_vars st)"
    using alive_get [OF assms(2)] by blast
  obtain l r where lr: "live_args st = l @ x # r" "live_args (st\<lparr>st_vars := (st_vars st)[v := None]\<rparr>) = l @ r"
    using vars_split [OF x(3,2)] by metis
  have "heap_inv ([x] @ l @ r) (st_heap st)" using assms(1) by (simp add: store_inv_def lr inv_front)
  from release_inv [OF this] show ?thesis using x(1) lr by (auto simp: refRelease_def)
qed

lemma assign_inv:
  assumes "store_inv st" and "alive st v" and "alive st u"
  shows "\<exists>st'. Arg_assign v (Var u) st = Inr st' \<and> store_inv st'"
proof (cases "u = v")
  case True
  then show ?thesis using assms(1) by (simp add: Arg_assign_def)
next
  case False
  obtain x h where x: "get_arg st (Var v) = Inr x" "refRelease x (st_heap st) = Inr h"
      "heap_inv (live_args (st\<lparr>st_vars := (st_vars st)[v := None]\<rparr>)) h"
    using destroy_inv [OF assms(1,2)] by blast
  let ?st = "st\<lparr>st_vars := (st_vars st)[v := None]\<rparr>"
  have "alive ?st u" using assms(3) False by (simp add: alive_def)
  then obtain y where y: "get_arg ?st (Var u) = Inr y" "y \<in> set (live_args ?st)" using alive_get by blast
  have y2: "get_arg (st\<lparr>st_heap := h\<rparr>) (Var u) = Inr y" using y(1) False by (simp split: if_splits)
  obtain h1 where h1: "refAcquire y h = Inr h1" "heap_inv (y # live_args ?st) h1"
    using acquire_inv [OF x(3) inv_kind [OF x(3) y(2)]] by blast
  obtain z where z: "st_vars st ! v = Some z" "v < length (st_vars st)" using assms(2) by (auto simp: alive_def)
  obtain l r where lr: "\<And>y. live_args (st\<lparr>st_vars := (st_vars st)[v := Some y]\<rparr>) = l @ y # r" "live_args ?st = l @ r"
    using vars_split [OF z(2,1)] by metis
  have "live_args (st\<lparr>st_vars := (st_vars st)[v := Some y], st_heap := h1\<rparr>) = l @ y # r"
    using lr(1) [of y] by (simp add: live_args_def)
  then have "store_inv (st\<lparr>st_vars := (st_vars st)[v := Some y], st_heap := h1\<rparr>)"
    using h1(2) by (simp add: store_inv_def lr(2) inv_front)
  then show ?thesis using False x(1,2) y2 h1(1) by (simp add: Arg_assign_def)
qed

lemma arg_step_inv:
  assumes "store_inv st" and "arg_op_ok st c"
  shows "\<exists>st'. arg_step c st = Inr st' \<and> store_inv st'"
proof (cases c)
  case (MakePlain a)
  then have "ar_alloc a \<noteq> AlHeap" using assms(2)
    by (auto simp: Arg_invalid_def Arg_int_def Arg_errno_def Arg_double_def Arg_view_def)
  then show ?thesis using assms(1) MakePlain inv_plain by (simp add: store_inv_def)
next
  case (MakeString key val)
  then show ?thesis using string_inv [OF assms(1) [unfolded store_inv_def], where key = key and val = val]
    by (auto simp: store_inv_def inv_front split: prod.splits)
next
  case (MakeArray key vs)
  let ?xs = "map (\<lambda>v. the (st_vars st ! v)) vs"
  have "\<forall>x\<in>set ?xs. kind_ok (st_heap st) x"
    using assms alive_get inv_kind [OF assms(1) [unfolded store_inv_def]] MakeArray by fastforce
  from array_inv [OF assms(1) [unfolded store_inv_def] this, of key] show ?thesis
    using MakeArray by (auto simp: store_inv_def inv_front)
next
  case (Copy v)
  then obtain x where x: "get_arg st (Var v) = Inr x" "x \<in> set (live_args st)" using assms(2) alive_get by fastforce
  from acquire_inv [OF assms(1) [unfolded store_inv_def] inv_kind [OF assms(1) [unfolded store_inv_def] x(2)]]
  show ?thesis using Copy x(1) by (auto simp: Arg_copy_def store_inv_def inv_front)
next
  case (Move v)
  then obtain x where x: "get_arg st (Var v) = Inr x" "st_vars st ! v = Some x" "v < length (st_vars st)"
    using assms(2) alive_get by fastforce
  let ?y = "x\<lparr>ar_alloc := AlNone\<rparr>"
  obtain l r where lr: "live_args st = l @ x # r" "\<And>y. live_args (st\<lparr>st_vars := (st_vars st)[v := Some y]\<rparr>) = l @ y # r"
    using vars_split [OF x(3,2)] by metis
  have "heap_inv ((l @ x # r) @ [?y]) (st_heap st)" by (rule inv_plain) (use assms(1) in \<open>simp_all add: store_inv_def lr(1)\<close>)
  then have "heap_inv (l @ ?y # r @ [x]) (st_heap st)" by (rule inv_cong) auto
  then show ?thesis using Move x(1) lr(2) by (simp add: Arg_move_def store_inv_def)
next
  case (Assign v u)
  then show ?thesis using assms assign_inv by simp
next
  case (Destroy v)
  then obtain x h where "get_arg st (Var v) = Inr x" "refRelease x (st_heap st) = Inr h"
      "heap_inv (live_args (st\<lparr>st_vars := (st_vars st)[v := None]\<rparr>)) h"
    using assms destroy_inv by fastforce
  moreover have "live_args (st\<lparr>st_vars := vs, st_heap := h\<rparr>) = live_args (st\<lparr>st_vars := vs\<rparr>)" for vs by (simp add: live_args_def)
  ultimately show ?thesis using Destroy by (simp add: Arg_destroy_def store_inv_def)
qed

lemma arg_reach_inv: "arg_reach st \<Longrightarrow> store_inv st"
proof (induction rule: arg_reach.induct)
  case init
  then show ?case by (simp add: store_inv_def store_init_def live_args_def heap_inv_def elems_def deref_def ranked_def)
next
  case (step st c st')
  then show ?case using arg_step_inv by fastforce
qed

lemma refCount_holders:
  assumes "heap_inv R h" and "x \<in> set R" and "heap_ref x = Some p"
  shows "Arg_refCount h x = Inr (holders p (R @ elems h))"
proof -
  have k: "block_kind h p = Some (ar_type x)" using inv_kind [OF assms(1,2)] assms(3) by (simp add: kind_ok_def)
  then obtain r where r: "deref h p = Some r" by (auto simp: block_kind_def)
  have "holders p (R @ elems h) = ref_cnt r" using inv_cnt [OF assms(1), of p] r by simp
  then show ?thesis using assms(3) k r
    by (cases r) (auto simp: Arg_refCount_def heap_ref_def block_kind_def split: if_splits Arg_Type.splits Val.splits)
qed


definition sample_args :: store where
  "sample_args =
     \<lparr>st_vars = [Some \<lparr>ar_type = TyString, ar_alloc = AlHeap, ar_key = [], ar_val = VStr 0\<rparr>,
        Some \<lparr>ar_type = TyArray, ar_alloc = AlHeap, ar_key = [], ar_val = VArr 1\<rparr>],
      st_heap = [Some (RefStr 2 (replicate 16 0)),
        Some (RefArr 1 [\<lparr>ar_type = TyString, ar_alloc = AlHeap, ar_key = [], ar_val = VStr 0\<rparr>])]\<rparr>"

lemma sample_args_reach: "arg_reach sample_args"
proof -
  have 1: "arg_step (MakeString [] (replicate 16 0)) store_init =
      Inr \<lparr>st_vars = [Some \<lparr>ar_type = TyString, ar_alloc = AlHeap, ar_key = [], ar_val = VStr 0\<rparr>],
        st_heap = [Some (RefStr 1 (replicate 16 0))]\<rparr>" (is "_ = Inr ?st")
    by (simp add: store_init_def Arg_string_def MaxStringStackSize_def)
  have 2: "arg_step (MakeArray [] [0]) ?st = Inr sample_args"
    by (simp add: sample_args_def Arg_array_def refRelease_def refAcquire_def heap_ref_def deref_def Arg_invalid_def)
  have "arg_reach ?st" by (rule arg_reach.step [OF arg_reach.init _ 1]) simp
  then show ?thesis by (rule arg_reach.step [OF _ _ 2]) (simp add: alive_def)
qed


section \<open>Assigning an element of an array to its owner\<close>

text \<open>The assignment releases the old value before it reads the new one. When an argument that is the only
  reference to an array is assigned one of the elements of that array, the array is deleted first and the
  element is read after its memory is freed; with another reference to the array the assignment is safe.\<close>

theorem arg_assign_element:
  assumes "arg_reach st" and "v < length (st_vars st)" and "st_vars st ! v = Some x" and "ar_type x = TyArray"
    and "ar_alloc x = AlHeap" and "ar_val x = VArr p" and "deref (st_heap st) p = Some (RefArr c ys)" and "i < length ys"
  shows "(c = 1 \<longrightarrow> Arg_assign v (Elem p i) st = free_fault) \<and> (c > 1 \<longrightarrow> (\<exists>st'. Arg_assign v (Elem p i) st = Inr st'))"
proof (intro conjI impI)
  have ref: "heap_ref x = Some p" using assms(4-6) by (simp add: heap_ref_def)
  have inv: "store_inv st" by (rule arg_reach_inv [OF assms(1)])
  obtain l r where lr: "live_args st = l @ x # r" using vars_split [OF assms(2,3)] by metis
  have hinv: "heap_inv (x # l @ r) (st_heap st)" using inv by (simp add: store_inv_def lr inv_front)
  {
    assume "c = 1"
    then have "heap_inv (ys @ l @ r) ((st_heap st)[p := None])" using inv_delete [OF hinv ref assms(7)] by simp
    then have "heap_inv (rev ys @ l @ r) ((st_heap st)[p := None])" by (rule inv_cong) simp_all
    then obtain h where h: "release (rev ys) ((st_heap st)[p := None]) = Inr h" "same_data ((st_heap st)[p := None]) h"
      using release_inv by blast
    have "deref ((st_heap st)[p := None]) p = None" using deref_less [OF assms(7)] by (simp add: deref_simps)
    then have "deref h p = None" using h(2) by (cases "deref h p") (fastforce simp: same_data_def)+
    then show "Arg_assign v (Elem p i) st = free_fault"
      using assms ref h(1) \<open>c = 1\<close> by (simp add: Arg_assign_def refRelease_def free_fault_def)
  next
    assume c: "c > 1"
    let ?h = "(st_heap st)[p := Some (RefArr (c - 1) ys)]"
    have "heap_inv (l @ r) ?h" using inv_decr [OF hinv ref assms(7)] c by simp
    moreover have "deref ?h p = Some (RefArr (c - 1) ys)" using deref_less [OF assms(7)] by (simp add: deref_simps)
    moreover from this have "kind_ok ?h (ys ! i)"
      using calculation(1) set_elems_update(2) [of ?h p "RefArr (c - 1) ys"] nth_mem [OF assms(8)]
      by (auto simp: heap_inv_def)
    ultimately show "\<exists>st'. Arg_assign v (Elem p i) st = Inr st'"
      using assms ref c acquire_inv [of "l @ r" ?h "ys ! i"] by (auto simp: Arg_assign_def refRelease_def)
  }
qed

theorem arg_assign_element_witness:
  "Arg_assign 1 (Elem 1 0) sample_args = free_fault"
  using arg_assign_element [OF sample_args_reach, of 1 _ 1 1 _ 0]
  by (simp add: sample_args_def deref_def)

end
