(* ===== verification/Fuurin_Text.thy ===== *)
theory Fuurin_Text
  imports Fuurin_Arg Fuurin_Messages
begin

text \<open>
  Printable forms: the text of uuids, which is cached (\<^verbatim>\<open>src/uuid.cpp\<close>), the names of events and
  operations, the streaming operators of the messages, and the logger (\<^verbatim>\<open>src/logger.cpp\<close>), whose
  arguments may be nested arrays. A stream is the bytes that are written to it. The text that the uuid
  library gives to sixteen bytes, and the one the standard library gives to a floating point number,
  are parameters.
\<close>

section \<open>Numbers\<close>

fun dec :: "nat \<Rightarrow> bytes" where
  "dec n = (if n < 10 then [of_nat (48 + n)] else dec (n div 10) @ [of_nat (48 + n mod 10)])"

declare dec.simps [simp del]

definition show_int :: "int \<Rightarrow> bytes" where
  "show_int i = (if i < 0 then 45 # dec (nat (- i)) else dec (nat i))"

definition hex_digit :: "nat \<Rightarrow> byte" where
  "hex_digit n = of_nat (if n < 10 then 48 + n else 55 + n)"

fun hex :: "nat \<Rightarrow> bytes" where
  "hex n = (if n < 16 then [hex_digit n] else hex (n div 16) @ [hex_digit (n mod 16)])"

declare hex.simps [simp del]

text \<open>\<^verbatim>\<open>setfill('0') << setw(2)\<close>.\<close>

definition pad2 :: "bytes \<Rightarrow> bytes" where
  "pad2 s = replicate (2 - length s) 48 @ s"

text \<open>Every byte of a part is cast from \<^verbatim>\<open>char\<close> to \<^verbatim>\<open>int\<close> and printed as an unsigned hexadecimal number.\<close>

definition Part_print :: "arch \<Rightarrow> Part \<Rightarrow> bytes" where
  "Part_print a p = concat (map (\<lambda>c. pad2 (hex (unat (char_cast a c :: u32)))) (pt_data p))"

section \<open>Uuid\<close>

record Uuid =
  uu_bytes :: bytes
  uu_cached :: bool
  uu_srepr :: bytes

text \<open>The text is not initialized by the constructor: \<open>junk\<close> is what the memory holds.\<close>

definition Uuid_new :: "bytes \<Rightarrow> Uuid" where
  "Uuid_new junk = \<lparr>uu_bytes = replicate 16 0, uu_cached = False, uu_srepr = junk\<rparr>"

definition Uuid_fromBytes :: "bytes \<Rightarrow> bytes \<Rightarrow> Uuid" where
  "Uuid_fromBytes junk b = (Uuid_new junk)\<lparr>uu_bytes := b\<rparr>"

text \<open>The library reads a text or throws.\<close>

definition Uuid_fromString :: "(bytes \<Rightarrow> bytes result) \<Rightarrow> bytes \<Rightarrow> bytes \<Rightarrow> Uuid result" where
  "Uuid_fromString gen junk s = bindR (gen s) (\<lambda>u. Inr (Uuid_fromBytes junk u))"

definition Uuid_assign :: "Uuid \<Rightarrow> Uuid \<Rightarrow> Uuid" where
  "Uuid_assign rhs u = u\<lparr>uu_bytes := uu_bytes rhs, uu_cached := uu_cached rhs, uu_srepr := uu_srepr rhs\<rparr>"

definition cacheSrepr :: "(bytes \<Rightarrow> bytes) \<Rightarrow> Uuid \<Rightarrow> Uuid" where
  "cacheSrepr text u = (if uu_cached u then u else u\<lparr>uu_srepr := text (uu_bytes u), uu_cached := True\<rparr>)"

definition Uuid_toString :: "(bytes \<Rightarrow> bytes) \<Rightarrow> Uuid \<Rightarrow> bytes \<times> Uuid" where
  "Uuid_toString text u = (let v = cacheSrepr text u in (uu_srepr v, v))"

definition Uuid_toShortString :: "(bytes \<Rightarrow> bytes) \<Rightarrow> Uuid \<Rightarrow> bytes \<times> Uuid" where
  "Uuid_toShortString text u = (let v = cacheSrepr text u in (take 8 (uu_srepr v), v))"

section \<open>Names\<close>

fun Event_Notification_toString :: "Event_Notification \<Rightarrow> bytes" where
  "Event_Notification_toString EvDiscard = str ''discard''"
| "Event_Notification_toString EvTimeout = str ''timeout''"
| "Event_Notification_toString EvSuccess = str ''success''"

fun Event_Type_toString :: "Event_Type \<Rightarrow> bytes" where
  "Event_Type_toString EvInvalid = str ''invalid''"
| "Event_Type_toString EvStarted = str ''started''"
| "Event_Type_toString EvStopped = str ''stopped''"
| "Event_Type_toString EvOffline = str ''offline''"
| "Event_Type_toString EvOnline = str ''online''"
| "Event_Type_toString EvDelivery = str ''delivery''"
| "Event_Type_toString EvSyncRequest = str ''sync/request''"
| "Event_Type_toString EvSyncBegin = str ''sync/begin''"
| "Event_Type_toString EvSyncElement = str ''sync/element''"
| "Event_Type_toString EvSyncSuccess = str ''sync/success''"
| "Event_Type_toString EvSyncError = str ''sync/error''"
| "Event_Type_toString EvSyncDownloadOn = str ''sync/download/on''"
| "Event_Type_toString EvSyncDownloadOff = str ''sync/download/off''"

fun Operation_Notification_toString :: "Operation_Notification \<Rightarrow> bytes" where
  "Operation_Notification_toString OpDiscard = str ''discard''"
| "Operation_Notification_toString OpSuccess = str ''success''"

fun Operation_Type_toString :: "Operation_Type \<Rightarrow> bytes" where
  "Operation_Type_toString OpInvalid = str ''invalid''"
| "Operation_Type_toString OpStart = str ''start''"
| "Operation_Type_toString OpStop = str ''stop''"
| "Operation_Type_toString OpDispatch = str ''dispatch''"
| "Operation_Type_toString OpSync = str ''sync''"

fun Arg_Type_toString :: "Arg_Type \<Rightarrow> bytes" where
  "Arg_Type_toString TyInvalid = str ''invalid''"
| "Arg_Type_toString TyInt = str ''int''"
| "Arg_Type_toString TyErrno = str ''errno''"
| "Arg_Type_toString TyDouble = str ''double''"
| "Arg_Type_toString TyString = str ''string''"
| "Arg_Type_toString TyArray = str ''array''"

section \<open>Arguments\<close>

text \<open>The libraries the arguments are printed with: descriptions of error numbers, and floating point numbers.\<close>

record printer =
  pr_strerror :: "int \<Rightarrow> bytes"
  pr_double :: "u64 \<Rightarrow> bytes"

definition printkey :: "bytes \<Rightarrow> bytes" where
  "printkey key = (if key = [] then [] else key @ str '': '')"

text \<open>A list with separators, the loop of \<^verbatim>\<open>printargs\<close> and of the lists of the configurations.\<close>

fun with_seps :: "bytes \<Rightarrow> bytes list \<Rightarrow> bytes" where
  "with_seps sep [] = []"
| "with_seps sep (x # xs) = sep @ x @ with_seps (str '', '') xs"

fun seq_results :: "'a result list \<Rightarrow> 'a list result" where
  "seq_results [] = Inr []"
| "seq_results (r # rs) = bindR r (\<lambda>x. bindR (seq_results rs) (\<lambda>xs. Inr (x # xs)))"

text \<open>Printing, to a bounded depth of nesting; \<^term>\<open>None\<close> when the depth is not enough.\<close>

fun print_arg :: "printer \<Rightarrow> heap \<Rightarrow> nat \<Rightarrow> Arg \<Rightarrow> bytes result option" where
  "print_arg R h 0 x = None"
| "print_arg R h (Suc n) x =
     (case ar_type x of
        TyInvalid \<Rightarrow> Some (Inr (str ''<>''))
      | TyInt \<Rightarrow> Some (Inr (printkey (ar_key x) @ show_int (Arg_toInt x)))
      | TyDouble \<Rightarrow> Some (Inr (printkey (ar_key x) @ pr_double R (Arg_toDouble x)))
      | TyErrno \<Rightarrow> Some (bindR (Arg_toString (pr_strerror R) h x) (\<lambda>s. Inr (printkey (ar_key x) @ s)))
      | TyString \<Rightarrow> Some (bindR (Arg_toString (pr_strerror R) h x) (\<lambda>s. Inr (printkey (ar_key x) @ s)))
      | TyArray \<Rightarrow>
          (case Arg_toArray h x of
             Inl e \<Rightarrow> Some (Inl e)
           | Inr None \<Rightarrow> Some (Inr (printkey (ar_key x)))
           | Inr (Some ys) \<Rightarrow>
               (if list_all (\<lambda>y. print_arg R h n y \<noteq> None) ys
                then Some (bindR (seq_results (map (\<lambda>y. the (print_arg R h n y)) ys)) (\<lambda>ts.
                       Inr (printkey (ar_key x) @ with_seps [] ts)))
                else None)))"

definition println :: "printer \<Rightarrow> heap \<Rightarrow> nat \<Rightarrow> Arg list \<Rightarrow> bytes result option" where
  "println R h n xs =
     (if list_all (\<lambda>y. print_arg R h n y \<noteq> None) xs
      then Some (bindR (seq_results (map (\<lambda>y. the (print_arg R h n y)) xs)) (\<lambda>ts. Inr (with_seps [] ts @ [10])))
      else None)"

section \<open>Setters\<close>

text \<open>Both overloads for the payload copy it, as a part has no assignment that moves.\<close>

definition Event_withType :: "Event_Type \<Rightarrow> Event \<Rightarrow> Event" where
  "Event_withType v e = e\<lparr>ev_type := v\<rparr>"

definition Event_withNotification :: "Event_Notification \<Rightarrow> Event \<Rightarrow> Event" where
  "Event_withNotification v e = e\<lparr>ev_notif := v\<rparr>"

definition Event_withPayload :: "allocator \<Rightarrow> Part \<Rightarrow> (Event, unit) action" where
  "Event_withPayload mem v e = (case Part_assign mem v (ev_payload e) of (r, d) \<Rightarrow> (r, e\<lparr>ev_payload := d\<rparr>))"

definition Operation_withType :: "Operation_Type \<Rightarrow> Operation \<Rightarrow> Operation" where
  "Operation_withType v e = e\<lparr>op_type := v\<rparr>"

definition Operation_withNotification :: "Operation_Notification \<Rightarrow> Operation \<Rightarrow> Operation" where
  "Operation_withNotification v e = e\<lparr>op_notif := v\<rparr>"

definition Operation_withPayload :: "allocator \<Rightarrow> Part \<Rightarrow> (Operation, unit) action" where
  "Operation_withPayload mem v e = (case Part_assign mem v (op_payload e) of (r, d) \<Rightarrow> (r, e\<lparr>op_payload := d\<rparr>))"

section \<open>Messages\<close>

text \<open>Sizes are cast to \<^verbatim>\<open>int\<close>.\<close>

definition int_of_size :: "nat \<Rightarrow> int" where
  "int_of_size n = sint (of_nat n :: u32)"

definition Event_toArgs :: "Event \<Rightarrow> Arg list" where
  "Event_toArgs e =
     [Arg_view [] (Event_Type_toString (ev_type e)), Arg_view [] (Event_Notification_toString (ev_notif e)),
      Arg_int [] (int_of_size (length (pt_data (ev_payload e))))]"

definition Operation_toArgs :: "Operation \<Rightarrow> Arg list" where
  "Operation_toArgs e =
     [Arg_view [] (Operation_Type_toString (op_type e)), Arg_view [] (Operation_Notification_toString (op_notif e)),
      Arg_int [] (int_of_size (length (pt_data (op_payload e))))]"

definition Event_print :: "printer \<Rightarrow> Event \<Rightarrow> bytes result option" where
  "Event_print R e = println R [] 1 (Event_toArgs e)"

definition Operation_print :: "printer \<Rightarrow> Operation \<Rightarrow> bytes result option" where
  "Operation_print R e = println R [] 1 (Operation_toArgs e)"

definition putList :: "bytes list \<Rightarrow> bytes" where
  "putList xs = str ''['' @ with_seps [] xs @ str '']''"

definition WorkerConfig_print :: "(bytes \<Rightarrow> bytes) \<Rightarrow> WorkerConfig \<Rightarrow> bytes" where
  "WorkerConfig_print text wc =
     str ''['' @ text (wc_uuid wc) @ str '', '' @ dec (unat (wc_seqNum wc)) @ str '', '' @
     (if wc_topicsAll wc then str ''*'' else str ''+'') @ str '', '' @
     putList (map Name_str (wc_topicsNames wc)) @ str '', '' @ putList (wc_endpDelivery wc) @ str '', '' @
     putList (wc_endpDispatch wc) @ str '', '' @ putList (wc_endpSnapshot wc) @ str '']''"

definition BrokerConfig_print :: "(bytes \<Rightarrow> bytes) \<Rightarrow> BrokerConfig \<Rightarrow> bytes" where
  "BrokerConfig_print text cc =
     str ''['' @ text (bc_uuid cc) @ str '', '' @ putList (bc_endpDelivery cc) @ str '', '' @
     putList (bc_endpDispatch cc) @ str '', '' @ putList (bc_endpSnapshot cc) @ str '']''"

definition WorkerConfig_eq :: "WorkerConfig \<Rightarrow> WorkerConfig \<Rightarrow> bool" where
  "WorkerConfig_eq lhs rhs \<longleftrightarrow>
     wc_uuid lhs = wc_uuid rhs \<and> wc_seqNum lhs = wc_seqNum rhs \<and> wc_topicsAll lhs = wc_topicsAll rhs \<and>
     list_all2 Name_eq (wc_topicsNames lhs) (wc_topicsNames rhs) \<and> wc_endpDelivery lhs = wc_endpDelivery rhs \<and>
     wc_endpDispatch lhs = wc_endpDispatch rhs \<and> wc_endpSnapshot lhs = wc_endpSnapshot rhs"

definition BrokerConfig_eq :: "BrokerConfig \<Rightarrow> BrokerConfig \<Rightarrow> bool" where
  "BrokerConfig_eq lhs rhs \<longleftrightarrow>
     bc_uuid lhs = bc_uuid rhs \<and> bc_endpDelivery lhs = bc_endpDelivery rhs \<and>
     bc_endpDispatch lhs = bc_endpDispatch rhs \<and> bc_endpSnapshot lhs = bc_endpSnapshot rhs"

fun Topic_Type_print :: "Topic_Type \<Rightarrow> bytes" where
  "Topic_Type_print State = str ''state''"
| "Topic_Type_print Event = str ''event''"

definition Topic_print :: "(bytes \<Rightarrow> bytes) \<Rightarrow> Topic \<Rightarrow> bytes" where
  "Topic_print text t =
     str ''['' @ text (tp_broker t) @ str '', '' @ text (tp_worker t) @ str '', '' @ dec (unat (tp_seqn t)) @ str '', '' @
     Name_str (tp_name t) @ str '', '' @ dec (length (pt_data (tp_data t))) @ str '', '' @ Topic_Type_print (tp_type t) @ str '']''"

section \<open>Logger\<close>

datatype level = Debug | Info | Warn | Err | Fatal

datatype stream = Cout | Cerr

datatype Handler = StandardHandler | SilentHandler

text \<open>What a handler writes, and whether it returns.\<close>

fun Handler_log :: "Handler \<Rightarrow> level \<Rightarrow> bytes \<Rightarrow> (stream \<times> bytes) list \<times> unit result" where
  "Handler_log StandardHandler Debug line = ([(Cout, line)], Inr ())"
| "Handler_log StandardHandler Info line = ([(Cout, line)], Inr ())"
| "Handler_log StandardHandler Warn line = ([(Cerr, line)], Inr ())"
| "Handler_log StandardHandler Err line = ([(Cerr, line)], Inr ())"
| "Handler_log SilentHandler Debug line = ([], Inr ())"
| "Handler_log SilentHandler Info line = ([], Inr ())"
| "Handler_log SilentHandler Warn line = ([], Inr ())"
| "Handler_log SilentHandler Err line = ([], Inr ())"
| "Handler_log h Fatal line = ([(Cerr, line)], Inl (Abort ''std::abort''))"

definition installContentHandler :: "Handler option \<Rightarrow> (Handler, unit) action" where
  "installContentHandler h =
     thenA (liftA (ASSERT (h \<noteq> None) ''log message handler is null'')) (updA (\<lambda>old. case h of Some x \<Rightarrow> x | None \<Rightarrow> old))"

definition Logger_log :: "printer \<Rightarrow> heap \<Rightarrow> nat \<Rightarrow> Handler \<Rightarrow> level \<Rightarrow> Arg list \<Rightarrow>
    ((stream \<times> bytes) list \<times> unit result) result option" where
  "Logger_log R h n hnd lv xs =
     (if hnd = SilentHandler \<and> lv \<noteq> Fatal then Some (Inr (Handler_log hnd lv []))
      else map_option (\<lambda>r. bindR r (\<lambda>line. Inr (Handler_log hnd lv line))) (println R h n xs))"


section \<open>Properties of the text\<close>

lemma length_hex_byte: "n < 256 \<Longrightarrow> length (pad2 (hex n)) = 2"
  using less_mult_imp_div_less [of n 16 16] by (simp add: pad2_def hex.simps [of n] hex.simps [of "n div 16"])

lemma length_hex_ge: "16 ^ k \<le> n \<Longrightarrow> k < length (hex n)"
proof (induction k arbitrary: n)
  case 0
  show ?case by (simp add: hex.simps [of n])
next
  case (Suc k)
  then have "\<not> n < 16" by (simp add: order_trans [of 16 "16 * 16 ^ k" n] not_less)
  moreover have "16 ^ k \<le> n div 16" using Suc.prems by (simp add: less_eq_div_iff_mult_less_eq mult.commute)
  ultimately show ?case using Suc.IH [of "n div 16"] by (simp add: hex.simps [of n])
qed

lemma bit_unat_odd: "bit w n \<longleftrightarrow> odd (unat w div 2 ^ n)"
proof -
  have "bit w n = bit (unat w) n" by (simp add: bit_simps)
  then show ?thesis by (simp add: bit_iff_odd)
qed

lemma bit_7_byte: "bit (c :: byte) 7 \<longleftrightarrow> \<not> c < 128"
proof -
  have "unat c < 2 ^ 8" using unsigned_less [of c, where 'a = nat] by simp
  then have "unat c div 128 < 2" by (simp add: less_mult_imp_div_less)
  then have "unat c div 128 = 0 \<or> unat c div 128 = 1" by linarith
  then have "odd (unat c div 128) \<longleftrightarrow> 128 \<le> unat c" by (auto simp: div_eq_0_iff)
  then show ?thesis by (simp add: bit_unat_odd word_less_nat_alt not_less)
qed

lemma char_cast_low:
  assumes "\<not> char_signed a \<or> c < 128"
  shows "unat (char_cast a c :: u32) = unat c"
proof -
  have "(char_cast a c :: u32) = ucast c"
    using assms bit_7_byte [of c] by (intro bit_word_eqI) (auto simp: bit_char_cast bit_simps dest: bit_imp_le_length)
  moreover have "unat c < 2 ^ 32" using unsigned_less [of c, where 'a = nat] by simp
  ultimately show ?thesis by (simp add: unsigned_ucast_eq take_bit_nat_eq_self)
qed

lemma char_cast_high:
  assumes "char_signed a" "\<not> c < 128"
  shows "16 ^ 7 \<le> unat (char_cast a c :: u32)"
proof -
  have "bit (char_cast a c :: u32) 28" using assms bit_7_byte [of c] by (simp add: bit_char_cast)
  then have "odd (unat (char_cast a c :: u32) div 2 ^ 28)" by (simp add: bit_unat_odd)
  then have "unat (char_cast a c :: u32) div 2 ^ 28 \<noteq> 0" by (metis even_zero)
  then show ?thesis by (simp add: div_eq_0_iff not_less)
qed

text \<open>
  The printed part is two hexadecimal digits for every byte exactly when \<^verbatim>\<open>char\<close> is unsigned or no byte
  is above 127; every such byte is otherwise printed with eight digits.
\<close>

definition hex_text :: "bytes \<Rightarrow> bytes" where
  "hex_text bs = concat (map (\<lambda>c. pad2 (hex (unat c))) bs)"

lemma length_hex_text: "length (hex_text bs) = 2 * length bs"
proof (induction bs)
  case (Cons c bs)
  then show ?case using length_hex_byte [of "unat c"] unsigned_less [of c, where 'a = nat] by (simp add: hex_text_def)
qed (simp add: hex_text_def)

lemma length_Part_print_ge:
  "2 * length cs \<le> length (concat (map (\<lambda>c. pad2 (hex (unat (char_cast a c :: u32)))) cs))"
  by (induction cs) (auto simp: pad2_def intro: add_mono)

lemma part_print_exact:
  "Part_print a p = hex_text (pt_data p) \<longleftrightarrow> \<not> char_signed a \<or> (\<forall>c\<in>set (pt_data p). c < 128)"
proof
  assume "\<not> char_signed a \<or> (\<forall>c\<in>set (pt_data p). c < 128)"
  then show "Part_print a p = hex_text (pt_data p)"
    unfolding Part_print_def hex_text_def by (intro arg_cong [of _ _ concat] map_cong refl) (auto simp: char_cast_low)
next
  assume eq: "Part_print a p = hex_text (pt_data p)"
  show "\<not> char_signed a \<or> (\<forall>c\<in>set (pt_data p). c < 128)"
  proof (rule ccontr)
    assume "\<not> ?thesis"
    then obtain c xs ys where c: "char_signed a" "pt_data p = xs @ c # ys" "\<not> c < 128"
      by (auto simp: in_set_conv_decomp)
    have "8 \<le> length (pad2 (hex (unat (char_cast a c :: u32))))"
      using length_hex_ge [OF char_cast_high [OF c(1,3)]] by (simp add: pad2_def)
    then have "2 * length (pt_data p) < length (Part_print a p)"
      using length_Part_print_ge [of xs a] length_Part_print_ge [of ys a] by (simp add: Part_print_def c(2))
    then show False using eq length_hex_text [of "pt_data p"] by simp
  qed
qed


text \<open>Names are unambiguous.\<close>

lemma event_names_distinct:
  "Event_Type_toString a = Event_Type_toString b \<longleftrightarrow> a = b"
  "Event_Notification_toString m = Event_Notification_toString n \<longleftrightarrow> m = n"
  by (cases a; cases b; simp add: str_def) (cases m; cases n; simp add: str_def)

lemma operation_names_distinct:
  "Operation_Type_toString a = Operation_Type_toString b \<longleftrightarrow> a = b"
  "Operation_Notification_toString m = Operation_Notification_toString n \<longleftrightarrow> m = n"
  by (cases a; cases b; simp add: str_def) (cases m; cases n; simp add: str_def)

lemma config_eq: "WorkerConfig_eq a b \<longleftrightarrow> a = b" "BrokerConfig_eq c d \<longleftrightarrow> c = d"
proof -
  have "Name_eq = (=)" by (auto simp: Name_eq_def fun_eq_iff)
  then show "WorkerConfig_eq a b \<longleftrightarrow> a = b" by (auto simp: WorkerConfig_eq_def list.rel_eq)
  show "BrokerConfig_eq c d \<longleftrightarrow> c = d" by (auto simp: BrokerConfig_eq_def)
qed

section \<open>The cached text of a uuid\<close>

text \<open>The uuids of a program: constructed, assigned and copied from others, and asked for their text.\<close>

inductive uuid_reach :: "(bytes \<Rightarrow> bytes) \<Rightarrow> Uuid \<Rightarrow> bool" for tx where
  fresh: "uuid_reach tx (Uuid_new junk)"
| of_bytes: "uuid_reach tx (Uuid_fromBytes junk b)"
| assigned: "uuid_reach tx u \<Longrightarrow> uuid_reach tx rhs \<Longrightarrow> uuid_reach tx (Uuid_assign rhs u)"
| asked: "uuid_reach tx u \<Longrightarrow> uuid_reach tx (snd (Uuid_toString tx u))"
| asked_short: "uuid_reach tx u \<Longrightarrow> uuid_reach tx (snd (Uuid_toShortString tx u))"

lemma uuid_reach_inv: "uuid_reach text u \<Longrightarrow> uu_cached u \<Longrightarrow> uu_srepr u = text (uu_bytes u)"
  by (induction rule: uuid_reach.induct)
    (auto simp: Uuid_new_def Uuid_fromBytes_def Uuid_assign_def Uuid_toString_def Uuid_toShortString_def cacheSrepr_def Let_def)

text \<open>
  However a uuid came about and however often it was assigned or asked, its text is that of its bytes, the
  short text the first eight characters of it, and asking changes neither the bytes nor later answers.
\<close>

lemma uuid_text:
  assumes "uuid_reach text u"
  shows "fst (Uuid_toString text u) = text (uu_bytes u) \<and> fst (Uuid_toShortString text u) = take 8 (text (uu_bytes u)) \<and>
    uu_bytes (snd (Uuid_toString text u)) = uu_bytes u \<and>
    fst (Uuid_toString text (snd (Uuid_toString text u))) = text (uu_bytes u)"
  using uuid_reach_inv [OF assms]
  by (auto simp: Uuid_toString_def Uuid_toShortString_def cacheSrepr_def Let_def)

section \<open>Printing arguments\<close>

text \<open>An argument that was not moved away: its text or its array can be read.\<close>

fun printable :: "Arg \<Rightarrow> bool" where
  "printable x =
     (case ar_type x of
        TyString \<Rightarrow> (case (ar_alloc x, ar_val x) of
            (AlNone, VChr v) \<Rightarrow> True | (AlStack, VBuf v) \<Rightarrow> True | (AlHeap, VStr p) \<Rightarrow> True | _ \<Rightarrow> False)
      | TyArray \<Rightarrow> ar_alloc x = AlHeap
      | _ \<Rightarrow> True)"

lemma seq_results_ok: "\<forall>y\<in>set ys. \<exists>t. f y = Some (Inr t) \<Longrightarrow> \<exists>ts. seq_results (map (\<lambda>y. the (f y)) ys) = Inr ts"
  by (induction ys) (auto dest!: bspec)

lemma block_kind_cases:
  "block_kind h p = Some TyArray \<Longrightarrow> \<exists>c ys. deref h p = Some (RefArr c ys)"
  "block_kind h p = Some TyString \<Longrightarrow> \<exists>c b. deref h p = Some (RefStr c b)"
  unfolding block_kind_def by (cases "deref h p"; cases "the (deref h p)"; simp)+

lemma kind_array:
  "kind_ok h x \<Longrightarrow> ar_type x = TyArray \<Longrightarrow> ar_alloc x = AlHeap \<Longrightarrow>
     \<exists>p c ys. heap_ref x = Some p \<and> ar_val x = VArr p \<and> deref h p = Some (RefArr c ys)"
  by (cases "ar_val x") (auto simp: kind_ok_def heap_ref_def dest: block_kind_cases)

lemma kind_string:
  "kind_ok h x \<Longrightarrow> ar_type x = TyString \<Longrightarrow> ar_alloc x = AlHeap \<Longrightarrow>
     \<exists>p c b. ar_val x = VStr p \<and> deref h p = Some (RefStr c b)"
  by (cases "ar_val x") (auto simp: kind_ok_def heap_ref_def dest: block_kind_cases)

lemma elem_of_block: "deref h p = Some (RefArr c ys) \<Longrightarrow> y \<in> set ys \<Longrightarrow> y \<in> set (elems h)"
  using nth_mem [of p h] deref_less [of h p] by (force simp: elems_def)

lemma print_arg_returns:
  assumes "ranked h" and el: "\<forall>y\<in>set (elems h). kind_ok h y \<and> printable y"
    and "kind_ok h x" "printable x" and "\<forall>p. heap_ref x = Some p \<longrightarrow> Suc p < n" and "0 < n"
  shows "\<exists>t. print_arg R h n x = Some (Inr t)"
  using assms(3-6)
proof (induction n arbitrary: x)
  case (Suc n)
  show ?case
  proof (cases "ar_type x = TyArray")
    case True
    then obtain p c ys where p: "heap_ref x = Some p" "ar_val x = VArr p" "deref h p = Some (RefArr c ys)"
      using kind_array [OF Suc.prems(1)] Suc.prems(2) by auto
    have "\<exists>t. print_arg R h n y = Some (Inr t)" if y: "y \<in> set ys" for y
    proof (rule Suc.IH)
      have "y \<in> set (elems h)" by (rule elem_of_block [OF p(3) y])
      then show "kind_ok h y" "printable y" using el by auto
      have "q < p" if "heap_ref y = Some q" for q using assms(1) p(3) y that unfolding ranked_def by blast
      then show "\<forall>q. heap_ref y = Some q \<longrightarrow> Suc q < n" "0 < n" using Suc.prems(3) p(1) by auto
    qed
    then have "list_all (\<lambda>y. print_arg R h n y \<noteq> None) ys" "\<exists>ts. seq_results (map (\<lambda>y. the (print_arg R h n y)) ys) = Inr ts"
      using seq_results_ok [of ys "print_arg R h n"] by (force simp: list_all_iff)+
    then show ?thesis using True p by (auto simp: Arg_toArray_def)
  next
    case False
    then show ?thesis
      using Suc.prems(2) kind_string [OF Suc.prems(1)]
      by (cases "ar_type x"; cases "ar_alloc x"; cases "ar_val x") (auto simp: Arg_toString_def)
  qed
qed simp

text \<open>
  Logging returns: whatever a program did with its arguments, a line of arguments that were not moved away is
  printed, nested arrays included, with a depth of the number of blocks plus one.
\<close>

lemma log_returns:
  assumes "arg_reach st" and "\<forall>y\<in>set (live_args st) \<union> set (elems (st_heap st)). printable y"
    and "set xs \<subseteq> set (live_args st)" and "length (st_heap st) < n"
  shows "\<exists>line. println R (st_heap st) n xs = Some (Inr line)"
proof -
  have inv: "heap_inv (live_args st) (st_heap st)" using arg_reach_inv [OF assms(1)] by (simp add: store_inv_def)
  have "\<exists>t. print_arg R (st_heap st) n x = Some (Inr t)" if x: "x \<in> set xs" for x
  proof (rule print_arg_returns)
    show "ranked (st_heap st)" "\<forall>y\<in>set (elems (st_heap st)). kind_ok (st_heap st) y \<and> printable y"
      using inv assms(2) by (auto simp: heap_inv_def)
    show k: "kind_ok (st_heap st) x" "printable x" using inv assms(2,3) x by (auto simp: heap_inv_def)
    show "\<forall>p. heap_ref x = Some p \<longrightarrow> Suc p < n"
      using k(1) assms(4) by (auto simp: kind_ok_def dest!: kind_less)
  qed (use assms(4) in simp)
  then show ?thesis
    using seq_results_ok [of xs "print_arg R (st_heap st) n"] by (force simp: println_def list_all_iff)
qed

lemma log_fatal_aborts: "Logger_log R h n hnd Fatal xs = Some (Inr (out, r)) \<Longrightarrow> \<exists>m. r = Inl (Abort m)"
  by (cases hnd; cases "println R h n xs"; cases "the (println R h n xs)") (auto simp: Logger_log_def)


end
