(* ===== verification/Fuurin_Lifecycle.thy ===== *)
theory Fuurin_Lifecycle
  imports Fuurin_Runner
begin

text \<open>
  A runner and the threads of its sessions together: the calls of the application on one side, the
  sessions reading operations and ending on the other, in any interleaving. The inter-thread sockets are
  what their documentation says: the pair of operations delivers every message once and in order, the
  completion socket keeps the last message.
\<close>

section \<open>Runner and sessions\<close>

record 'r sys =
  sy_runner :: "'r Runner_scheme"
  sy_sessions :: "u8 list"
  sy_fin :: "Part option"
  sy_ops :: "(Part \<times> Part) list"
  sy_read :: nat
  sy_base :: nat

definition fin_answer :: "Part option \<Rightarrow> recv_result" where
  "fin_answer f = (case f of None \<Rightarrow> NoMessage | Some p \<Rightarrow> Received p)"

fun pairs :: "'a list \<Rightarrow> ('a \<times> 'a) list" where
  "pairs (x # y # xs) = (x, y) # pairs xs"
| "pairs _ = []"

text \<open>The operations a call of the runner has sent.\<close>

definition new_ops :: "'r Runner_scheme \<Rightarrow> 'r Runner_scheme \<Rightarrow> (Part \<times> Part) list" where
  "new_ops r r' = pairs (map snd (drop (length (io_sent (rn_io r))) (io_sent (rn_io r'))))"

text \<open>What \<^verbatim>\<open>Worker::sync\<close> and \<^verbatim>\<open>Worker::dispatch\<close> do once they have their payload.\<close>

definition Runner_request :: "env \<Rightarrow> recv_result \<Rightarrow> Operation_Type \<Rightarrow> Part \<Rightarrow> ('r Runner_scheme, unit) action" where
  "Runner_request P fin oper pay =
     bindA (Runner_isRunning P fin) (\<lambda>running.
     if \<not> running then retA () else Runner_sendOperation P oper pay)"

lemma Worker_sync_request: "Worker_sync P fin = Runner_request P fin OpSync zmq_msg_init"
  by (simp add: Worker_sync_def Runner_request_def)

lemma Worker_dispatch_request:
  assumes "bindR (Topic_new (en_mem P) Uuid_null (rn_uuid w) 0 name data ty) (Topic_toPart (en_mem P) (en_arch P)) = Inr p"
  shows "Worker_dispatch P fin name data ty w = Runner_request P fin OpDispatch p w"
  using assms
  by (auto simp: Worker_dispatch_def Runner_request_def bindA_def dest!: Runner_isRunning_ok
      split: prod.splits sum.splits recv_result.splits if_splits)

datatype sys_label = LStart | LStartFails | LStop | LQuery | LRequest | LRead | LEnd | LCrash

text \<open>
  The steps of the application and of the sessions. \<open>sy_base\<close> is the number of operations sent before
  the last start. A session ends after an operation that stops it, or at any time by an exception; both
  send its token.
\<close>

inductive sys_step :: "env \<Rightarrow> ('r Runner_scheme, Part) action set \<Rightarrow> sys_label \<Rightarrow> 'r sys \<Rightarrow> 'r sys \<Rightarrow> bool"
  for P preps where
  start: "prep \<in> preps \<Longrightarrow> Runner_start P (fin_answer (sy_fin y)) (Inr ()) prep (sy_runner y) = Some (Inr fut, r') \<Longrightarrow>
    sys_step P preps LStart y (y\<lparr>sy_runner := r', sy_fin := None,
      sy_sessions := (if fut = SessionFuture then rn_token r' # sy_sessions y else sy_sessions y),
      sy_base := (if fut = SessionFuture then length (sy_ops y) else sy_base y),
      sy_ops := sy_ops y @ new_ops (sy_runner y) r'\<rparr>)"
| start_fails: "prep \<in> preps \<Longrightarrow>
    Runner_start P (fin_answer (sy_fin y)) (Inl (Throw e m n)) prep (sy_runner y) = Some (f, r') \<Longrightarrow>
    sys_step P preps LStartFails y (y\<lparr>sy_runner := r', sy_fin := None\<rparr>)"
| stop: "Runner_stop P (fin_answer (sy_fin y)) (sy_runner y) = (Inr b, r') \<Longrightarrow>
    sys_step P preps LStop y (y\<lparr>sy_runner := r', sy_fin := None, sy_ops := sy_ops y @ new_ops (sy_runner y) r'\<rparr>)"
| query: "Runner_isRunning P (fin_answer (sy_fin y)) (sy_runner y) = (Inr b, r') \<Longrightarrow>
    sys_step P preps LQuery y (y\<lparr>sy_runner := r', sy_fin := None\<rparr>)"
| request: "Runner_request P (fin_answer (sy_fin y)) oper pay (sy_runner y) = (Inr (), r') \<Longrightarrow>
    sys_step P preps LRequest y (y\<lparr>sy_runner := r', sy_fin := None, sy_ops := sy_ops y @ new_ops (sy_runner y) r'\<rparr>)"
| read: "tok \<in> set (sy_sessions y) \<Longrightarrow> sy_read y < length (sy_ops y) \<Longrightarrow> sy_ops y ! sy_read y = (t, p) \<Longrightarrow>
    recvOperation P tok t p = Inr oper \<Longrightarrow> op_notif oper = OpDiscard \<or> op_type oper \<noteq> OpStop \<Longrightarrow>
    sys_step P preps LRead y (y\<lparr>sy_read := Suc (sy_read y)\<rparr>)"
| end_stop: "tok \<in> set (sy_sessions y) \<Longrightarrow> sy_read y < length (sy_ops y) \<Longrightarrow> sy_ops y ! sy_read y = (t, p) \<Longrightarrow>
    recvOperation P tok t p = Inr oper \<Longrightarrow> op_notif oper \<noteq> OpDiscard \<Longrightarrow> op_type oper = OpStop \<Longrightarrow>
    Part_uint (en_mem P) (en_arch P) tok = Inr f \<Longrightarrow>
    sys_step P preps LEnd y (y\<lparr>sy_sessions := remove1 tok (sy_sessions y), sy_fin := Some f, sy_read := Suc (sy_read y)\<rparr>)"
| crash: "tok \<in> set (sy_sessions y) \<Longrightarrow> Part_uint (en_mem P) (en_arch P) tok = Inr f \<Longrightarrow>
    sys_step P preps LCrash y (y\<lparr>sy_sessions := remove1 tok (sy_sessions y), sy_fin := Some f\<rparr>)"

inductive sys_run :: "env \<Rightarrow> ('r Runner_scheme, Part) action set \<Rightarrow> sys_label list \<Rightarrow> 'r sys \<Rightarrow> bool"
  for P preps where
  init: "\<not> rn_running r \<Longrightarrow> sys_run P preps []
     \<lparr>sy_runner = r, sy_sessions = [], sy_fin = None, sy_ops = [], sy_read = 0, sy_base = 0\<rparr>"
| step: "sys_run P preps ls y \<Longrightarrow> sys_step P preps l y y' \<Longrightarrow> sys_run P preps (l # ls) y'"

section \<open>Invariant\<close>

text \<open>
  There is no session but one with the current token, none when the runner is not running, and a token
  in the completion socket means that the current session is over.
\<close>

definition sys_inv :: "env \<Rightarrow> 'r sys \<Rightarrow> bool" where
  "sys_inv P y \<longleftrightarrow>
     (sy_sessions y = [] \<or> sy_sessions y = [rn_token (sy_runner y)]) \<and>
     (\<not> rn_running (sy_runner y) \<longrightarrow> sy_sessions y = []) \<and>
     (\<forall>p. sy_fin y = Some p \<longrightarrow> toUint8 (en_arch P) p = rn_token (sy_runner y) \<and> sy_sessions y = []) \<and>
     (rn_running (sy_runner y) \<and> sy_sessions y = [] \<longrightarrow> sy_fin y \<noteq> None)"

lemma sys_isRunning:
  assumes "sys_inv P y"
  shows "Runner_isRunning P (fin_answer (sy_fin y)) (sy_runner y) =
    (Inr (sy_sessions y \<noteq> []), (sy_runner y)\<lparr>rn_running := (sy_sessions y \<noteq> [])\<rparr>)"
  using assms by (cases "sy_fin y") (auto simp: sys_inv_def fin_answer_def Runner_isRunning_eq)

lemma Runner_sendOperation_keeps:
  assumes "Runner_sendOperation P oper pay r = (x, r')"
  shows "rn_token r' = rn_token r \<and> rn_running r' = rn_running r"
  using assms
  by (auto simp: Runner_sendOperation_def fatalA_def thenA_def bindA_def retA_def rn_send_def
      split: prod.splits sum.splits fault.splits)

lemma Runner_stop_cases:
  assumes "sys_inv P y" and "Runner_stop P (fin_answer (sy_fin y)) (sy_runner y) = (Inr b, r')"
  obtains "\<not> b" "sy_sessions y = []" "r' = (sy_runner y)\<lparr>rn_running := False\<rparr>"
  | "b" "sy_sessions y \<noteq> []" "Runner_sendOperation P OpStop zmq_msg_init ((sy_runner y)\<lparr>rn_running := True\<rparr>) = (Inr (), r')"
  using assms(2) sys_isRunning [OF assms(1)]
  by (cases "sy_sessions y = []") (auto simp: Runner_stop_def bindA_def thenA_Inr retA_def)

lemma Runner_request_cases:
  assumes "sys_inv P y" and "Runner_request P (fin_answer (sy_fin y)) oper pay (sy_runner y) = (Inr (), r')"
  obtains "sy_sessions y = []" "r' = (sy_runner y)\<lparr>rn_running := False\<rparr>"
  | "sy_sessions y \<noteq> []" "Runner_sendOperation P oper pay ((sy_runner y)\<lparr>rn_running := True\<rparr>) = (Inr (), r')"
  using assms(2) sys_isRunning [OF assms(1)]
  by (cases "sy_sessions y = []") (auto simp: Runner_request_def bindA_def retA_def)

text \<open>The end of a session, by an operation or by an exception.\<close>

lemma sys_inv_ended:
  assumes "sys_inv P y" and "allocator_ok (en_mem P)" and "tok \<in> set (sy_sessions y)"
    and "Part_uint (en_mem P) (en_arch P) tok = Inr f"
  shows "sys_inv P (y\<lparr>sy_sessions := remove1 tok (sy_sessions y), sy_fin := Some f, sy_read := n\<rparr>)"
    and "sys_inv P (y\<lparr>sy_sessions := remove1 tok (sy_sessions y), sy_fin := Some f\<rparr>)"
  using assms Part_uint8_read [OF assms(2,4)] by (auto simp: sys_inv_def)

section \<open>Tokens of the operations\<close>

definition op_token :: "env \<Rightarrow> Part \<times> Part \<Rightarrow> u8" where
  "op_token P tp = toUint8 (en_arch P) (fst tp)"

text \<open>
  The unread operations carry the current token when they were sent since the last start, and the one
  before when they are left over from the session before.
\<close>

definition ops_inv :: "env \<Rightarrow> 'r sys \<Rightarrow> bool" where
  "ops_inv P y \<longleftrightarrow> sy_read y \<le> length (sy_ops y) \<and>
     (if sy_sessions y = []
      then \<forall>i < length (sy_ops y). sy_read y \<le> i \<longrightarrow> op_token P (sy_ops y ! i) = rn_token (sy_runner y)
      else sy_base y \<le> length (sy_ops y) \<and>
        (\<forall>i < length (sy_ops y). sy_read y \<le> i \<longrightarrow> op_token P (sy_ops y ! i) =
           (if sy_base y \<le> i then rn_token (sy_runner y) else rn_token (sy_runner y) - 1)))"

lemma operation_parts_token:
  "allocator_ok (en_mem P) \<Longrightarrow> operation_parts P tok oper pay = Inr (t, p) \<Longrightarrow> op_token P (t, p) = tok"
  by (auto simp: operation_parts_def op_token_def intro: Part_uint8_read)

lemma sent_op:
  assumes "Runner_sendOperation P oper pay (r\<lparr>rn_running := b\<rparr>) = (Inr (), r')"
    and "\<forall>k. nt_send (en_net P) k = Sent" and "allocator_ok (en_mem P)"
  obtains tp where "new_ops r r' = [tp]" "op_token P tp = rn_token r" "rn_token r' = rn_token r"
proof -
  obtain t p where tp: "operation_parts P (rn_token r) oper pay = Inr (t, p)" "r' = rn_sent [t, p] (r\<lparr>rn_running := b\<rparr>)"
    using Runner_sendOperation_sent [OF assms(1,2)] by auto
  have "op_token P (t, p) = rn_token r" by (rule operation_parts_token [OF assms(3) tp(1)])
  then show thesis using that [of "(t, p)"] tp(2) by (simp add: new_ops_def)
qed

lemma ops_inv_snoc:
  assumes "ops_inv P y" and "op_token P tp = rn_token (sy_runner y)" and "rn_token r' = rn_token (sy_runner y)"
  shows "ops_inv P (y\<lparr>sy_runner := r', sy_fin := None, sy_ops := sy_ops y @ [tp]\<rparr>)"
  using assms by (auto simp: ops_inv_def nth_append less_Suc_eq)

lemma ops_inv_runner:
  assumes "ops_inv P y" and "rn_token r' = rn_token (sy_runner y)"
  shows "ops_inv P (y\<lparr>sy_runner := r', sy_fin := None\<rparr>)"
    and "ops_inv P (y\<lparr>sy_runner := r', sy_fin := None, sy_ops := sy_ops y @ []\<rparr>)"
  using assms by (simp_all add: ops_inv_def)

lemma new_ops_same [simp]: "new_ops r (r\<lparr>rn_running := b\<rparr>) = []" "new_ops r r = []"
  by (simp_all add: new_ops_def)

lemma recvOperation_own:
  "recvOperation P tok t p = Inr oper \<Longrightarrow> op_notif oper \<noteq> OpDiscard \<longleftrightarrow> op_token P (t, p) = tok"
  by (auto simp: recvOperation_def op_token_def LOG_FATAL_def split: sum.splits fault.splits if_splits)

lemma word_pred_neq [simp]: "(x :: u8) - 1 \<noteq> x" "x \<noteq> x - 1"
  by (simp_all add: eq_neg_iff_add_eq_0 diff_eq_eq)

lemma ops_inv_end:
  assumes "ops_inv P y" and "sys_inv P y" and "tok \<in> set (sy_sessions y)" and "sy_read y < length (sy_ops y)"
    and "op_token P (sy_ops y ! sy_read y) = tok"
  shows "ops_inv P (y\<lparr>sy_sessions := remove1 tok (sy_sessions y), sy_fin := Some f, sy_read := Suc (sy_read y)\<rparr>)"
proof -
  have tok: "sy_sessions y = [tok]" "tok = rn_token (sy_runner y)" using assms(2,3) by (auto simp: sys_inv_def)
  then have "sy_base y \<le> sy_read y" using assms(1,4,5) by (auto simp: ops_inv_def split: if_splits)
  then show ?thesis using assms(1,4) tok by (auto simp: ops_inv_def)
qed

section \<open>The contract of the configurations\<close>

text \<open>Preparing a configuration leaves the state of the runner alone.\<close>

locale runner_config =
  fixes preps :: "('r Runner_scheme, Part) action set"
  assumes prep_keeps: "prep \<in> preps \<Longrightarrow> prep r = (x, r') \<Longrightarrow>
    rn_token r' = rn_token r \<and> rn_running r' = rn_running r \<and> rn_io r' = rn_io r"
begin

lemma start_spec:
  assumes "prep \<in> preps" and "Runner_start P fin spawn prep r = Some (Inr fut, r')" and "\<forall>k. nt_send (en_net P) k = Sent"
  obtains (refused) r1 where "fut = NoFuture" "Runner_isRunning P fin r = (Inr True, r1)" "r' = r1"
  | (started) r1 t p cfg where "fut = SessionFuture" "Runner_isRunning P fin r = (Inr False, r1)" "spawn = Inr ()"
      "operation_parts P (rn_token r1 + 1) OpStart cfg = Inr (t, p)"
      "rn_token r' = rn_token r1 + 1" "rn_running r'" "new_ops r1 r' = [(t, p)]"
proof -
  obtain b r1 where q: "Runner_isRunning P fin r = (Inr b, r1)"
    using assms(2) by (cases "Runner_isRunning P fin r") (auto simp: Runner_start_def split: sum.splits)
  show thesis
  proof (cases b)
    case True
    have f: "fut = NoFuture" "r' = r1" using True q assms(2) by (simp_all add: Runner_start_def)
    have "Runner_isRunning P fin r = (Inr True, r1)" using True q by simp
    from refused [OF f(1) this f(2)] show thesis .
  next
    case False
    let ?r2 = "r1\<lparr>rn_token := rn_token r1 + 1, rn_running := True\<rparr>"
    have s: "spawn = Inr ()"
      using False q assms(2) by (auto simp: Runner_start_def Let_def split: sum.splits fault.splits)
    obtain x r3 where x: "prep ?r2 = (x, r3)" by (cases "prep ?r2")
    obtain cfg where c: "prep ?r2 = (Inr cfg, r3)"
      using False q assms(2) s x by (cases x) (auto simp: Runner_start_def Let_def split: fault.splits)
    have send: "thenA (Runner_sendOperation P OpStart cfg) (retA SessionFuture) r3 = (Inr fut, r')"
      using False q assms(2) s c by (simp add: Runner_start_def)
    have k: "rn_token r3 = rn_token r1 + 1" "rn_running r3" "rn_io r3 = rn_io r1"
      using prep_keeps [OF assms(1) c] by auto
    obtain r4 where s4: "Runner_sendOperation P OpStart cfg r3 = (Inr (), r4)" and fut: "fut = SessionFuture" "r' = r4"
      using send by (auto simp: thenA_Inr retA_def)
    obtain t p where tp: "operation_parts P (rn_token r3) OpStart cfg = Inr (t, p)" "r4 = rn_sent [t, p] r3"
      by (rule Runner_sendOperation_sent [OF s4 assms(3)])
    show thesis
    proof (rule started)
      show "Runner_isRunning P fin r = (Inr False, r1)" using q False by simp
      show "operation_parts P (rn_token r1 + 1) OpStart cfg = Inr (t, p)" using tp k by simp
      show "new_ops r1 r' = [(t, p)]" "rn_running r'" "rn_token r' = rn_token r1 + 1"
        using tp k fut by (simp_all add: new_ops_def)
    qed (use s fut in simp_all)
  qed
qed

lemma start_fails_spec:
  assumes "prep \<in> preps" and "Runner_start P fin (Inl (Throw e m n)) prep r = Some (f, r')"
    and "Runner_isRunning P fin r = (Inr b, r1)"
  shows "r' = (if b then r1 else r1\<lparr>rn_token := rn_token r1 + 1, rn_running := False\<rparr>)"
  using assms(2,3) by (cases b) (auto simp: Runner_start_def Let_def)

lemma sys_inv_step:
  assumes "sys_step P preps l y y'" and inv: "sys_inv P y" and mem: "allocator_ok (en_mem P)"
    and net: "\<forall>k. nt_send (en_net P) k = Sent"
  shows "sys_inv P y'"
  using assms(1)
proof cases
  case (start prep fut r')
  from start(3,4) show ?thesis
  proof (rule start_spec [OF _ _ net])
    fix r1 assume "fut = NoFuture" "Runner_isRunning P (fin_answer (sy_fin y)) (sy_runner y) = (Inr True, r1)" "r' = r1"
    then show ?thesis using start(2) sys_isRunning [OF inv] inv by (auto simp: sys_inv_def)
  next
    fix r1 t p cfg
    assume "fut = SessionFuture" "Runner_isRunning P (fin_answer (sy_fin y)) (sy_runner y) = (Inr False, r1)"
      "rn_token r' = rn_token r1 + 1" "rn_running r'"
    then show ?thesis using start(2) sys_isRunning [OF inv] by (auto simp: sys_inv_def)
  qed
next
  case (start_fails prep e m n f r')
  then show ?thesis
    using start_fails_spec [OF start_fails(3,4) sys_isRunning [OF inv]] inv by (auto simp: sys_inv_def)
next
  case (stop b r')
  from inv stop(3) show ?thesis
    by (cases rule: Runner_stop_cases)
      (use stop(2) inv in \<open>auto simp: sys_inv_def dest!: Runner_sendOperation_keeps\<close>)
next
  case (query b r')
  then show ?thesis using sys_isRunning [OF inv] inv by (auto simp: sys_inv_def)
next
  case (request oper pay r')
  from inv request(3) show ?thesis
    by (cases rule: Runner_request_cases)
      (use request(2) inv in \<open>auto simp: sys_inv_def dest!: Runner_sendOperation_keeps\<close>)
next
  case (read tok t p oper)
  then show ?thesis using inv by (auto simp: sys_inv_def)
next
  case (end_stop tok t p oper f)
  then show ?thesis using sys_inv_ended(1) [OF inv mem] by simp
next
  case (crash tok f)
  then show ?thesis using sys_inv_ended(2) [OF inv mem] by simp
qed

lemma sys_run_inv:
  assumes "sys_run P preps ls y" and "allocator_ok (en_mem P)" and "\<forall>k. nt_send (en_net P) k = Sent"
  shows "sys_inv P y"
  using assms(1)
proof induction
  case (init r)
  then show ?case by (simp add: sys_inv_def)
next
  case (step ls y l y')
  then show ?case using sys_inv_step assms(2,3) by blast
qed

lemma ops_inv_step:
  assumes "sys_step P preps l y y'" and ops: "ops_inv P y" and inv: "sys_inv P y" and l: "l \<noteq> LStartFails" "l \<noteq> LCrash"
    and mem: "allocator_ok (en_mem P)" and net: "\<forall>k. nt_send (en_net P) k = Sent"
  shows "ops_inv P y'"
  using assms(1)
proof cases
  case (start prep fut r')
  from start(3,4) show ?thesis
  proof (rule start_spec [OF _ _ net])
    fix r1 assume "fut = NoFuture" "Runner_isRunning P (fin_answer (sy_fin y)) (sy_runner y) = (Inr True, r1)" "r' = r1"
    then show ?thesis using start(2) sys_isRunning [OF inv] ops by (auto simp: ops_inv_def)
  next
    fix r1 t p cfg
    assume a: "fut = SessionFuture" "Runner_isRunning P (fin_answer (sy_fin y)) (sy_runner y) = (Inr False, r1)"
      "operation_parts P (rn_token r1 + 1) OpStart cfg = Inr (t, p)" "rn_token r' = rn_token r1 + 1" "new_ops r1 r' = [(t, p)]"
    have r1: "sy_sessions y = []" "rn_token r1 = rn_token (sy_runner y)" "new_ops (sy_runner y) r' = [(t, p)]"
      using a(2,5) sys_isRunning [OF inv] by (auto simp: new_ops_def)
    show ?thesis
      using start(2) a(1,4) r1 ops operation_parts_token [OF mem a(3)] by (auto simp: ops_inv_def nth_append less_Suc_eq)
  qed
next
  case (stop b r')
  from inv stop(3) show ?thesis
  proof (cases rule: Runner_stop_cases)
    case 1
    then show ?thesis using stop(2) ops by (simp add: ops_inv_def)
  next
    case 2
    then show ?thesis using stop(2) ops_inv_snoc [OF ops] by (auto elim: sent_op [OF _ net mem])
  qed
next
  case (query b r')
  then show ?thesis using sys_isRunning [OF inv] ops by (auto simp: ops_inv_def)
next
  case (request oper pay r')
  from inv request(3) show ?thesis
  proof (cases rule: Runner_request_cases)
    case 1
    then show ?thesis using request(2) ops by (simp add: ops_inv_def)
  next
    case 2
    then show ?thesis using request(2) ops_inv_snoc [OF ops] by (auto elim: sent_op [OF _ net mem])
  qed
next
  case (read tok t p oper)
  then show ?thesis using ops by (auto simp: ops_inv_def)
next
  case (end_stop tok t p oper f)
  then show ?thesis using ops_inv_end [OF ops inv] recvOperation_own by simp
qed (use l in simp_all)

lemma sys_run_ops:
  assumes "sys_run P preps ls y" and "allocator_ok (en_mem P)" and "\<forall>k. nt_send (en_net P) k = Sent"
    and "LStartFails \<notin> set ls" and "LCrash \<notin> set ls"
  shows "ops_inv P y"
  using assms(1,4,5)
proof induction
  case (init r)
  then show ?case by (simp add: ops_inv_def)
next
  case (step ls y l y')
  then show ?case using ops_inv_step [OF step.hyps(2) _ sys_run_inv [OF step.hyps(1) assms(2,3)] _ _ assms(2,3)] by auto
qed

lemma run_isRunning:
  assumes "sys_run P preps ls y" and "allocator_ok (en_mem P)" and "\<forall>k. nt_send (en_net P) k = Sent"
  shows "length (sy_sessions y) \<le> 1 \<and>
    fst (Runner_isRunning P (fin_answer (sy_fin y)) (sy_runner y)) = Inr (sy_sessions y \<noteq> [])"
  using sys_run_inv [OF assms] sys_isRunning [OF sys_run_inv [OF assms]] by (auto simp: sys_inv_def)

lemma run_own_operations:
  assumes "sys_run P preps ls y" and "allocator_ok (en_mem P)" and "\<forall>k. nt_send (en_net P) k = Sent"
    and "LStartFails \<notin> set ls" and "LCrash \<notin> set ls" and "tok \<in> set (sy_sessions y)"
    and "sy_read y < length (sy_ops y)" and "sy_ops y ! sy_read y = (t, p)" and "recvOperation P tok t p = Inr oper"
  shows "op_notif oper \<noteq> OpDiscard \<longleftrightarrow> sy_base y \<le> sy_read y"
proof -
  have "sy_sessions y = [tok]" "tok = rn_token (sy_runner y)"
    using sys_run_inv [OF assms(1-3)] assms(6) by (auto simp: sys_inv_def)
  then show ?thesis
    using sys_run_ops [OF assms(1-5)] assms(7,8) recvOperation_own [OF assms(9)]
    by (auto simp: ops_inv_def dest: spec [of _ "sy_read y"] split: if_splits)
qed

end

interpretation broker_lifecycle: runner_config "{Broker_prepareConfiguration P}" for P
  by unfold_locales (auto simp: Broker_prepareConfiguration_def)

interpretation worker_lifecycle: runner_config "range (Worker_prepareConfiguration P)" for P
  by unfold_locales
    (auto simp: Worker_prepareConfiguration_def Worker_seqNumber_def action_defs split: prod.splits sum.splits if_splits)

section \<open>A started worker\<close>

lemma operation_parts_returns:
  assumes mem: "allocator_ok (en_mem P)" and all: "\<forall>n. en_mem P n \<noteq> None"
    and grp: "group_ok pay" and len: "length (pt_data pay) < 2 ^ 31"
  shows "\<exists>t p. operation_parts P tok oper pay = Inr (t, p)"
proof -
  obtain q where q: "Part_copy (en_mem P) pay = Inr q" using Part_copy_returns [OF grp, of "en_mem P"] all by blast
  have qd: "pt_data q = pt_data pay" using Part_copy_spec [OF grp q] by simp
  obtain p where "Operation_toPart (en_mem P) (en_arch P) \<lparr>op_type = oper, op_notif = OpSuccess, op_payload = q\<rparr> = Inr p"
    using operation_part_returns [OF mem all, of "\<lparr>op_type = oper, op_notif = OpSuccess, op_payload = q\<rparr>" "en_arch P"] qd len
    by auto
  then show ?thesis
    using q Part_uint_eq [OF mem, of "en_arch P" tok]
    by (simp add: operation_parts_def Operation_new_def max_vsm_size_def)
qed

lemma sample_app_config:
  "\<exists>c. Worker_prepareConfiguration sample_env NoMessage (sample_app\<lparr>rn_token := 1, rn_running := True\<rparr>) =
     (Inr c, sample_app\<lparr>rn_token := 1, rn_running := True\<rparr>) \<and> group_ok c \<and> length (pt_data c) = 89"
proof -
  have "Worker_config 5 (sample_app\<lparr>rn_token := 1, rn_running := True\<rparr>) = sample_worker_config"
    using sample_app_worker_config by (simp add: Worker_config_def)
  then show ?thesis
    using sample_configs_pack(1) [of little] sample_app_simps(4)
    by (simp add: Worker_prepareConfiguration_def Worker_seqNumber_def recvMessagePart_def action_defs)
qed

lemma sample_app_starts:
  obtains r' where
    "Runner_start sample_env NoMessage (Inr ()) (Worker_prepareConfiguration sample_env NoMessage) sample_app =
       Some (Inr SessionFuture, r')"
    "\<exists>t p oper. new_ops sample_app r' = [(t, p)] \<and> recvOperation sample_env 1 t p = Inr oper \<and> op_type oper = OpStart"
proof -
  let ?r2 = "sample_app\<lparr>rn_token := 1, rn_running := True\<rparr>"
  obtain c where c: "Worker_prepareConfiguration sample_env NoMessage ?r2 = (Inr c, ?r2)"
      and g: "group_ok c" "length (pt_data c) = 89"
    using sample_app_config by blast
  obtain t p where tp: "operation_parts sample_env 1 OpStart c = Inr (t, p)"
    using operation_parts_returns [of sample_env c 1 OpStart] calloc_ok g by auto
  obtain q where q: "Part_copy calloc c = Inr q" "Operation_toPart calloc little \<lparr>op_type = OpStart, op_notif = OpSuccess, op_payload = q\<rparr> = Inr p"
      "Part_uint calloc little (1 :: u8) = Inr t"
    using tp by (auto simp: operation_parts_def Operation_new_def split: sum.splits)
  have "\<exists>oper. recvOperation sample_env 1 t p = Inr oper \<and> op_type oper = OpStart"
    using recvOperation_decode [OF calloc_ok(1) _ _ _ q(2,3), of sample_env 1] Part_copy_spec [OF g(1) q(1)] g(2) calloc_ok(2)
    by simp
  moreover have "Runner_start sample_env NoMessage (Inr ()) (Worker_prepareConfiguration sample_env NoMessage) sample_app =
      Some (Inr SessionFuture, rn_sent [t, p] ?r2)"
    using c tp
    by (simp add: Runner_start_def Runner_isRunning_eq Let_def Runner_sendOperation_def fatalA_def thenA_def bindA_def
        retA_def rn_send_Sent rn_sent_sent)
  ultimately show thesis using that by (simp add: new_ops_def)
qed

lemma sample_app_run:
  obtains y t p oper where "sys_run sample_env (range (Worker_prepareConfiguration sample_env)) [LStart] y"
    "sy_sessions y = [1]" "sy_read y = 0" "sy_ops y = [(t, p)]"
    "recvOperation sample_env 1 t p = Inr oper" "op_type oper = OpStart"
proof -
  obtain r' t p oper where s: "Runner_start sample_env NoMessage (Inr ()) (Worker_prepareConfiguration sample_env NoMessage) sample_app =
       Some (Inr SessionFuture, r')" and o: "new_ops sample_app r' = [(t, p)]" "recvOperation sample_env 1 t p = Inr oper" "op_type oper = OpStart"
    using sample_app_starts by metis
  have m: "Worker_prepareConfiguration sample_env NoMessage \<in> range (Worker_prepareConfiguration sample_env)" by simp
  have tok: "rn_token r' = 1"
    by (rule worker_lifecycle.start_spec [OF m s]) (auto simp: Runner_isRunning_eq)
  let ?y0 = "\<lparr>sy_runner = sample_app, sy_sessions = [], sy_fin = None, sy_ops = [], sy_read = 0, sy_base = 0\<rparr>"
  have 0: "sys_run sample_env (range (Worker_prepareConfiguration sample_env)) [] ?y0" by (rule sys_run.init) simp
  have s': "Runner_start sample_env (fin_answer (sy_fin ?y0)) (Inr ()) (Worker_prepareConfiguration sample_env NoMessage) (sy_runner ?y0) =
       Some (Inr SessionFuture, r')" using s by (simp add: fin_answer_def)
  note 1 = sys_run.step [OF 0 sys_step.start [OF m s']]
  show thesis by (rule that [OF 1, of t p oper]) (use o tok in simp_all)
qed

section \<open>Properties\<close>

text \<open>C4: A worker never has two sessions. In whatever order the application starts, stops, dispatches and
  asks, and the sessions run, stop or fail, there is at most one session, and \<^verbatim>\<open>isRunning\<close> answers at
  any moment exactly whether there is one.\<close>

theorem worker_one_session:
  assumes "sys_run P (range (Worker_prepareConfiguration P)) ls y" and "allocator_ok (en_mem P)"
    and "\<forall>k. nt_send (en_net P) k = Sent"
  shows "length (sy_sessions y) \<le> 1 \<and>
    fst (Runner_isRunning P (fin_answer (sy_fin y)) (sy_runner y)) = Inr (sy_sessions y \<noteq> [])"
  using assms by (rule worker_lifecycle.run_isRunning)

lemma worker_one_session_witness:
  "\<exists>y. sys_run sample_env (range (Worker_prepareConfiguration sample_env)) [LStart] y \<and> sy_sessions y \<noteq> [] \<and>
     fst (Runner_isRunning sample_env (fin_answer (sy_fin y)) (sy_runner y)) = Inr True"
proof -
  obtain y where y: "sys_run sample_env (range (Worker_prepareConfiguration sample_env)) [LStart] y" "sy_sessions y = [1]"
    using sample_app_run by metis
  then show ?thesis using worker_one_session [OF y(1)] calloc_ok(1) by (auto intro!: exI [of _ y])
qed



end
