(* ===== verification/Fuurin_Service.thy ===== *)
theory Fuurin_Service
  imports Fuurin_Lifecycle
begin

text \<open>
  The remote service of a worker: \<^verbatim>\<open>grpc/fuurin_worker_impl.cpp\<close>, its client \<^verbatim>\<open>grpc/fuurin_cli_impl.cpp\<close>
  and \<^verbatim>\<open>grpc/utils.cpp\<close>. The handlers of remote calls run in threads of the gRPC library and send
  requests to one thread that owns the worker; another thread publishes the events of the worker, which
  the handlers that stream events translate. The messages are those of \<^verbatim>\<open>grpc/worker.proto\<close>; their
  encoding, by code generated from that file, is a parameter.
\<close>

section \<open>Messages\<close>

record EndpointsMsg =
  em_delivery :: "bytes list"
  em_dispatch :: "bytes list"
  em_snapshot :: "bytes list"

record SubscriptionsMsg =
  sm_wildcard :: bool
  sm_name :: "bytes list"

text \<open>An enumeration is open: a message may hold a number that has no name.\<close>

record TopicMsg =
  tm_name :: bytes
  tm_data :: bytes
  tm_type :: int

definition Topic_Type_State :: int where "Topic_Type_State = 0"
definition Topic_Type_Event :: int where "Topic_Type_Event = 1"

record TopicEventMsg =
  te_seqn :: u64
  te_broker :: bytes
  te_worker :: bytes
  te_topic :: TopicMsg

record ConfigEventMsg =
  ce_uuid :: bytes
  ce_seqn :: u64
  ce_endpoints :: EndpointsMsg
  ce_subscriptions :: SubscriptionsMsg

datatype EventMsg_Type =
    RCPSetup
  | RCPTeardown
  | Started
  | Stopped
  | Offline
  | Online
  | Delivery
  | SyncRequest
  | SyncBegin
  | SyncElement
  | SyncSuccess
  | SyncError
  | SyncDownloadOn
  | SyncDownloadOff

datatype EventMsg_payload = NoPayload | TopicPayload TopicEventMsg | ConfigPayload ConfigEventMsg

record EventMsg =
  em_type :: EventMsg_Type
  em_payload :: EventMsg_payload

text \<open>The generated encoders and decoders of the messages that travel between the threads.\<close>

record proto =
  pb_endpoints :: "EndpointsMsg \<Rightarrow> bytes"
  pb_parseEndpoints :: "bytes \<Rightarrow> EndpointsMsg option"
  pb_subscriptions :: "SubscriptionsMsg \<Rightarrow> bytes"
  pb_parseSubscriptions :: "bytes \<Rightarrow> SubscriptionsMsg option"
  pb_topic :: "TopicMsg \<Rightarrow> bytes"
  pb_parseTopic :: "bytes \<Rightarrow> TopicMsg option"

definition proto_ok :: "proto \<Rightarrow> bool" where
  "proto_ok B \<longleftrightarrow> (\<forall>m. pb_parseEndpoints B (pb_endpoints B m) = Some m) \<and>
     (\<forall>m. pb_parseSubscriptions B (pb_subscriptions B m) = Some m) \<and> (\<forall>m. pb_parseTopic B (pb_topic B m) = Some m)"

definition protoSerialize :: "env \<Rightarrow> ('m \<Rightarrow> bytes) \<Rightarrow> 'm \<Rightarrow> Part result" where
  "protoSerialize P ser val =
     bindR (initMessageSize (en_mem P) (length (ser val))) (\<lambda>ret. Inr (ret\<lparr>pt_data := ser val\<rparr>))"

definition protoParse :: "(bytes \<Rightarrow> 'm option) \<Rightarrow> Part \<Rightarrow> 'm result" where
  "protoParse parse val =
     (case parse (pt_data val) of None \<Rightarrow> LOG_FATAL ''failed ParseFromArray'' | Some ret \<Rightarrow> Inr ret)"

section \<open>Command line and endpoints\<close>

record Endpoints =
  en_delivery :: "bytes list"
  en_dispatch :: "bytes list"
  en_snapshot :: "bytes list"

text \<open>
  \<^verbatim>\<open>parseArgsEndpoints\<close>: the arguments go to the three lists in turn; \<open>k\<close> is the list of the next one.
\<close>

fun args_loop :: "nat \<Rightarrow> bytes list \<Rightarrow> Endpoints \<Rightarrow> Endpoints" where
  "args_loop k [] e = e"
| "args_loop k (x # xs) e =
     args_loop (if k + 1 \<ge> 3 then 0 else k + 1) xs
       (if k = 0 then e\<lparr>en_delivery := en_delivery e @ [x]\<rparr>
        else if k = 1 then e\<lparr>en_dispatch := en_dispatch e @ [x]\<rparr>
        else e\<lparr>en_snapshot := en_snapshot e @ [x]\<rparr>)"

definition parseArgsEndpoints :: "bytes list \<Rightarrow> nat \<Rightarrow> Endpoints" where
  "parseArgsEndpoints argv startIdx =
     args_loop 0 (drop startIdx argv) \<lparr>en_delivery = [], en_dispatch = [], en_snapshot = []\<rparr>"

definition parseArgsServerAddress :: "bytes list \<Rightarrow> nat \<Rightarrow> bytes" where
  "parseArgsServerAddress argv startIdx =
     (if startIdx \<ge> length argv then str ''localhost:50051'' else argv ! startIdx)"

definition applyArgsEndpoints :: "Endpoints \<Rightarrow> 'r Runner_scheme \<Rightarrow> Endpoints \<times> 'r Runner_scheme" where
  "applyArgsEndpoints e r =
     (let r' = (if en_delivery e \<noteq> [] \<or> en_dispatch e \<noteq> [] \<or> en_snapshot e \<noteq> []
                then Runner_setEndpoints (en_delivery e) (en_dispatch e) (en_snapshot e) r else r) in
      (\<lparr>en_delivery = rn_endpDelivery r', en_dispatch = rn_endpDispatch r', en_snapshot = rn_endpSnapshot r'\<rparr>, r'))"

definition parseAndApplyArgsEndpoints :: "bytes list \<Rightarrow> nat \<Rightarrow> 'r Runner_scheme \<Rightarrow> Endpoints \<times> 'r Runner_scheme" where
  "parseAndApplyArgsEndpoints argv startIdx r = applyArgsEndpoints (parseArgsEndpoints argv startIdx) r"

text \<open>
  \<^verbatim>\<open>waitForResult\<close> of the future of a session, valid or not; \<open>fut\<close> is how the session has ended, when it
  has. Errors of the session are logged. \<^term>\<open>None\<close> when the call waits for ever.
\<close>

definition waitForResult :: "int \<Rightarrow> unit result option \<Rightarrow> bool \<Rightarrow> (unit result \<times> bool) option" where
  "waitForResult timeout fut valid =
     (if \<not> valid then Some (Inr (), False)
      else (case fut of
              None \<Rightarrow> if timeout \<ge> 0 then Some (Inr (), True) else None
            | Some (Inl (Abort m)) \<Rightarrow> Some (Inl (Abort m), False)
            | Some _ \<Rightarrow> Some (Inr (), False)))"

section \<open>The thread that owns the worker\<close>

datatype RPC =
    Cancel
  | GetUuid
  | GetSeqNum
  | SetEndpoints
  | SetSubscriptions
  | SetStart
  | SetStop
  | SetSync
  | SetDispatch

definition RPCs :: "RPC list" where
  "RPCs = [Cancel, GetUuid, GetSeqNum, SetEndpoints, SetSubscriptions, SetStart, SetStop, SetSync, SetDispatch]"

text \<open>The worker, whether the future of a session is valid, and whether the service is cancelled.\<close>

record WorkerServiceImpl =
  sv_worker :: Worker
  sv_active :: bool
  sv_canc1 :: bool

text \<open>
  What the sockets and threads answer while a request is served: the completion socket at the first and
  at the second question whether the worker runs, the socket of sequence numbers, the creation of the
  session, and how the session has ended.
\<close>

record answers =
  an_fin1 :: recv_result
  an_fin2 :: recv_result
  an_seq :: recv_result
  an_spawn :: "unit result"
  an_fut :: "unit result option"

type_synonym 'a service = "WorkerServiceImpl \<Rightarrow> ('a result \<times> WorkerServiceImpl) option"

definition on_worker :: "(Worker, 'a) action \<Rightarrow> 'a service" where
  "on_worker f s = (case f (sv_worker s) of (x, w) \<Rightarrow> Some (x, s\<lparr>sv_worker := w\<rparr>))"

definition andThen :: "'a service \<Rightarrow> ('a \<Rightarrow> 'b service) \<Rightarrow> 'b service" where
  "andThen f g s =
     (case f s of None \<Rightarrow> None | Some (Inl e, s') \<Rightarrow> Some (Inl e, s') | Some (Inr x, s') \<Rightarrow> g x s')"

definition giveS :: "'a \<Rightarrow> 'a service" where
  "giveS x s = Some (Inr x, s)"

definition applySubscriptions :: "SubscriptionsMsg \<Rightarrow> Worker \<Rightarrow> Worker" where
  "applySubscriptions m w =
     (if sm_wildcard m then Worker_setTopicsAll w else Worker_setTopicsNames (map Name_new (sm_name m)) w)"

definition applyEndpoints :: "EndpointsMsg \<Rightarrow> Worker \<Rightarrow> Worker" where
  "applyEndpoints m w = Runner_setEndpoints (em_delivery m) (em_dispatch m) (em_snapshot m) w"

definition setDispatch :: "env \<Rightarrow> recv_result \<Rightarrow> TopicMsg \<Rightarrow> (Worker, unit) action" where
  "setDispatch P fin m =
     bindA (liftA (Part_bytes (en_mem P) (tm_data m))) (\<lambda>d.
     Worker_dispatch P fin (Name_new (tm_name m)) d (if tm_type m = Topic_Type_State then State else Event))"

definition serveStart :: "env \<Rightarrow> answers \<Rightarrow> unit service" where
  "serveStart P A =
     andThen (on_worker (Runner_isRunning P (an_fin1 A))) (\<lambda>running.
     if running then giveS ()
     else (\<lambda>s. case Worker_start P (an_fin2 A) (an_seq A) (an_spawn A) (sv_worker s) of
                 None \<Rightarrow> None
               | Some (Inl e, w) \<Rightarrow> Some (Inl e, s\<lparr>sv_worker := w\<rparr>)
               | Some (Inr f, w) \<Rightarrow> Some (Inr (), s\<lparr>sv_worker := w, sv_active := (f = SessionFuture)\<rparr>)))"

definition serveStop :: "env \<Rightarrow> answers \<Rightarrow> unit service" where
  "serveStop P A =
     andThen (on_worker (Runner_isRunning P (an_fin1 A))) (\<lambda>running.
     andThen (if running then on_worker (bindA (Runner_stop P (an_fin2 A)) (\<lambda>_. retA ())) else giveS ()) (\<lambda>_.
     (\<lambda>s. case waitForResult (- 1) (an_fut A) (sv_active s) of
            None \<Rightarrow> None
          | Some (r, valid) \<Rightarrow> Some (r, s\<lparr>sv_active := valid\<rparr>))))"

text \<open>The result is the reply, empty when there is none.\<close>

definition serveRPC :: "env \<Rightarrow> proto \<Rightarrow> answers \<Rightarrow> RPC \<Rightarrow> Part \<Rightarrow> Part service" where
  "serveRPC P B A ty pay =
     (case ty of
        Cancel \<Rightarrow> (\<lambda>s. Some (Inr zmq_msg_init, s\<lparr>sv_canc1 := True\<rparr>))
      | GetUuid \<Rightarrow> on_worker (\<lambda>w. (Uuid_toPart (en_mem P) (en_arch P) (rn_uuid w), w))
      | GetSeqNum \<Rightarrow>
          on_worker (bindA (Worker_seqNumber P (an_seq A)) (\<lambda>n. liftA (Part_uint (en_mem P) (en_arch P) n)))
      | SetEndpoints \<Rightarrow>
          on_worker (bindA (liftA (protoParse (pb_parseEndpoints B) pay)) (\<lambda>m.
            thenA (updA (applyEndpoints m)) (retA zmq_msg_init)))
      | SetSubscriptions \<Rightarrow>
          on_worker (bindA (liftA (protoParse (pb_parseSubscriptions B) pay)) (\<lambda>m.
            thenA (updA (applySubscriptions m)) (retA zmq_msg_init)))
      | SetStart \<Rightarrow> andThen (serveStart P A) (\<lambda>_. giveS zmq_msg_init)
      | SetStop \<Rightarrow> andThen (serveStop P A) (\<lambda>_. giveS zmq_msg_init)
      | SetSync \<Rightarrow> on_worker (thenA (Worker_sync P (an_fin1 A)) (retA zmq_msg_init))
      | SetDispatch \<Rightarrow>
          on_worker (bindA (liftA (protoParse (pb_parseTopic B) pay)) (\<lambda>m.
            thenA (setDispatch P (an_fin1 A) m) (retA zmq_msg_init))))"

text \<open>
  One turn of \<^verbatim>\<open>runClient\<close> for a request: a number that is not a request does nothing. The reply goes
  back to the peer the request came from.
\<close>

definition runClient_request :: "env \<Rightarrow> proto \<Rightarrow> answers \<Rightarrow> Part \<Rightarrow> Part option service" where
  "runClient_request P B A r =
     (\<lambda>s. case unpack (en_mem P) (en_arch P) [TUInt8, TPart] (pt_data r) of
            Inl e \<Rightarrow> Some (Inl e, s)
          | Inr [FUInt8 rpc, FPart pay] \<Rightarrow>
              andThen (if unat rpc < length RPCs
                       then serveRPC P B A (RPCs ! unat rpc) (zmq_msg_init\<lparr>pt_data := pay\<rparr>) else giveS zmq_msg_init)
                (\<lambda>reply. if Part_empty reply then giveS None
                          else (\<lambda>s. case withRoutingID (pt_routing r) reply of
                                      Inl e \<Rightarrow> Some (Inl e, s)
                                    | Inr q \<Rightarrow> Some (Inr (Some q), s))) s
          | Inr _ \<Rightarrow> Some (throwAccessError, s))"

text \<open>The monitor of the same thread collects the result of a session that has ended.\<close>

definition runClient_monitor :: "answers \<Rightarrow> unit service" where
  "runClient_monitor A s =
     (case waitForResult 0 (an_fut A) (sv_active s) of
        None \<Rightarrow> None
      | Some (r, valid) \<Rightarrow> Some (r, s\<lparr>sv_active := valid\<rparr>))"

section \<open>The handlers of remote calls\<close>

definition sendRPC :: "env \<Rightarrow> RPC \<Rightarrow> Part \<Rightarrow> Part result" where
  "sendRPC P ty pay = pack (en_mem P) (en_arch P) [FUInt8 (enum_int RPCs ty), FPart (pt_data pay)]"

definition handle_SetEndpoints :: "env \<Rightarrow> proto \<Rightarrow> EndpointsMsg \<Rightarrow> Part result" where
  "handle_SetEndpoints P B m = bindR (protoSerialize P (pb_endpoints B) m) (sendRPC P SetEndpoints)"

definition handle_SetSubscriptions :: "env \<Rightarrow> proto \<Rightarrow> SubscriptionsMsg \<Rightarrow> Part result" where
  "handle_SetSubscriptions P B m = bindR (protoSerialize P (pb_subscriptions B) m) (sendRPC P SetSubscriptions)"

text \<open>The handler of a stream of topics sends one request for each; \<^verbatim>\<open>shutdown\<close> and the destructor send one each.\<close>

fun handle_Dispatch :: "env \<Rightarrow> proto \<Rightarrow> TopicMsg list \<Rightarrow> Part list result" where
  "handle_Dispatch P B [] = Inr []"
| "handle_Dispatch P B (m # ms) =
     bindR (bindR (protoSerialize P (pb_topic B) m) (sendRPC P SetDispatch)) (\<lambda>r.
     bindR (handle_Dispatch P B ms) (\<lambda>rs. Inr (r # rs)))"

definition handle_plain :: "env \<Rightarrow> RPC \<Rightarrow> Part result" where
  "handle_plain P ty = sendRPC P ty zmq_msg_init"

text \<open>What the handlers of the two questions make of the reply they receive.\<close>

definition reply_GetUuid :: "env \<Rightarrow> Part \<Rightarrow> bytes result" where
  "reply_GetUuid P reply = Uuid_fromPart (en_mem P) (en_arch P) reply"

definition reply_GetSeqNum :: "env \<Rightarrow> Part \<Rightarrow> u64" where
  "reply_GetSeqNum P reply = toUint64 (en_arch P) reply"

section \<open>The stream of events\<close>

definition fillConfig :: "env \<Rightarrow> Event \<Rightarrow> ConfigEventMsg result" where
  "fillConfig P ev =
     bindR (WorkerConfig_fromPart (en_mem P) (en_arch P) (ev_payload ev)) (\<lambda>wc.
     Inr \<lparr>ce_uuid = wc_uuid wc, ce_seqn = wc_seqNum wc,
          ce_endpoints = \<lparr>em_delivery = wc_endpDelivery wc, em_dispatch = wc_endpDispatch wc, em_snapshot = wc_endpSnapshot wc\<rparr>,
          ce_subscriptions = \<lparr>sm_wildcard = wc_topicsAll wc, sm_name = map Name_str (wc_topicsNames wc)\<rparr>\<rparr>)"

definition fillTopic :: "env \<Rightarrow> Event \<Rightarrow> TopicEventMsg result" where
  "fillTopic P ev =
     bindR (Topic_fromPart (en_mem P) (en_arch P) (ev_payload ev)) (\<lambda>t.
     Inr \<lparr>te_seqn = tp_seqn t, te_broker = tp_broker t, te_worker = tp_worker t,
          te_topic = \<lparr>tm_name = Name_str (tp_name t), tm_data = toString (tp_data t),
            tm_type = (case tp_type t of State \<Rightarrow> Topic_Type_State | Event \<Rightarrow> Topic_Type_Event)\<rparr>\<rparr>)"

definition getEvent :: "env \<Rightarrow> Part \<Rightarrow> EventMsg option result" where
  "getEvent P pay =
     bindR (Event_fromPart (en_mem P) (en_arch P) pay) (\<lambda>ev.
     let plain = (\<lambda>ty. Inr (Some \<lparr>em_type = ty, em_payload = NoPayload\<rparr>));
         config = (\<lambda>ty. bindR (fillConfig P ev) (\<lambda>c. Inr (Some \<lparr>em_type = ty, em_payload = ConfigPayload c\<rparr>)));
         topic = (\<lambda>ty. bindR (fillTopic P ev) (\<lambda>t. Inr (Some \<lparr>em_type = ty, em_payload = TopicPayload t\<rparr>))) in
     if ev_notif ev = EvTimeout \<or> ev_notif ev = EvDiscard \<or> ev_type ev = EvInvalid then Inr None
     else (case ev_type ev of
             EvStarted \<Rightarrow> config Started
           | EvStopped \<Rightarrow> plain Stopped
           | EvOffline \<Rightarrow> plain Offline
           | EvOnline \<Rightarrow> plain Online
           | EvDelivery \<Rightarrow> topic Delivery
           | EvSyncRequest \<Rightarrow> config SyncRequest
           | EvSyncBegin \<Rightarrow> plain SyncBegin
           | EvSyncElement \<Rightarrow> topic SyncElement
           | EvSyncSuccess \<Rightarrow> plain SyncSuccess
           | EvSyncError \<Rightarrow> plain SyncError
           | EvSyncDownloadOn \<Rightarrow> plain SyncDownloadOn
           | EvSyncDownloadOff \<Rightarrow> plain SyncDownloadOff
           | EvInvalid \<Rightarrow> LOG_FATAL ''event type is unexpectedly invalid''))"

text \<open>The thread \<^verbatim>\<open>runEvents\<close> publishes every event of the worker, timeouts too.\<close>

definition runEvents_part :: "env \<Rightarrow> Event \<Rightarrow> Part result" where
  "runEvents_part P ev =
     bindR (Event_toPart (en_mem P) (en_arch P) ev) (withGroup (Some (str ''EVNT'')))"

text \<open>
  \<^verbatim>\<open>WaitForEvent\<close>: every wait of the poller tells whether the call is cancelled by its client, and what is
  ready: a message of the events, the shutdown of the service or the timeout of the call. The result
  is what is written to the stream and the status, none while the call goes on.
\<close>

datatype stream_wake = SEvent Part | SShutdown | STimeout

datatype grpc_status = StatusOK | StatusCancelled

definition createEvent :: "EventMsg_Type \<Rightarrow> EventMsg" where
  "createEvent ty = \<lparr>em_type = ty, em_payload = NoPayload\<rparr>"

fun stream_batch :: "env \<Rightarrow> bool \<Rightarrow> stream_wake list \<Rightarrow> EventMsg list \<times> (bool \<times> grpc_status option) result" where
  "stream_batch P up [] = ([], Inr (up, None))"
| "stream_batch P up (SShutdown # ws) = ([createEvent RCPTeardown], Inr (up, Some StatusCancelled))"
| "stream_batch P up (STimeout # ws) = ([createEvent RCPTeardown], Inr (up, Some StatusOK))"
| "stream_batch P up (SEvent pay # ws) =
     (case getEvent P pay of
        Inl e \<Rightarrow> ([], Inl e)
      | Inr ev \<Rightarrow>
          (case stream_batch P True ws of
             (out, r) \<Rightarrow> ((if up then [] else [createEvent RCPSetup]) @ (case ev of None \<Rightarrow> [] | Some e \<Rightarrow> [e]) @ out, r)))"

fun stream_loop :: "env \<Rightarrow> bool \<Rightarrow> (bool \<times> stream_wake list) list \<Rightarrow> EventMsg list \<times> grpc_status option result" where
  "stream_loop P up [] = ([], Inr None)"
| "stream_loop P up ((cancelled, ws) # polls) =
     (if cancelled then ([], Inr (Some StatusCancelled))
      else (case stream_batch P up ws of
              (out, Inl e) \<Rightarrow> (out, Inl e)
            | (out, Inr (up', Some st)) \<Rightarrow> (out, Inr (Some st))
            | (out, Inr (up', None)) \<Rightarrow>
                (case stream_loop P up' polls of (out', r) \<Rightarrow> (out @ out', r))))"

definition WaitForEvent :: "env \<Rightarrow> (bool \<times> stream_wake list) list \<Rightarrow> EventMsg list \<times> grpc_status option result" where
  "WaitForEvent P polls = stream_loop P False polls"

section \<open>The client\<close>

text \<open>The messages a client builds, and the loop that reads the stream until the callback has enough.\<close>

definition cli_endpoints :: "bytes list \<Rightarrow> bytes list \<Rightarrow> bytes list \<Rightarrow> EndpointsMsg" where
  "cli_endpoints delivery dispatch snapshot = \<lparr>em_delivery = delivery, em_dispatch = dispatch, em_snapshot = snapshot\<rparr>"

definition cli_subscriptions :: "bool \<Rightarrow> bytes list \<Rightarrow> SubscriptionsMsg" where
  "cli_subscriptions wildcard names = \<lparr>sm_wildcard = wildcard, sm_name = names\<rparr>"

definition cli_dispatch :: "(bytes \<times> bytes) list \<Rightarrow> int \<Rightarrow> TopicMsg list" where
  "cli_dispatch stream ty = map (\<lambda>(n, d). \<lparr>tm_name = n, tm_data = d, tm_type = ty\<rparr>) stream"

text \<open>The events read and whether the client has cancelled the call.\<close>

fun cli_read :: "(EventMsg \<Rightarrow> bool) \<Rightarrow> EventMsg list \<Rightarrow> EventMsg list \<times> bool" where
  "cli_read callback [] = ([], False)"
| "cli_read callback (e # es) =
     (if \<not> callback e then ([e], True)
      else case cli_read callback es of (seen, cancelled) \<Rightarrow> (e # seen, cancelled))"

definition cli_WaitForEvent :: "(EventMsg \<Rightarrow> bool) \<Rightarrow> EventMsg list \<Rightarrow> bool \<Rightarrow> EventMsg list \<times> bool" where
  "cli_WaitForEvent callback es statusok =
     (case cli_read callback es of (seen, cancelled) \<Rightarrow> (seen, statusok \<or> cancelled))"

section \<open>Requests\<close>

text \<open>The arguments of the command line are dealt to the three lists of endpoints like cards.\<close>

lemma args_loop_lists:
  assumes "k < 3"
  shows "en_delivery (args_loop k xs e) = en_delivery e @ nths xs {i. (i + k) mod 3 = 0}"
    and "en_dispatch (args_loop k xs e) = en_dispatch e @ nths xs {i. (i + k) mod 3 = 1}"
    and "en_snapshot (args_loop k xs e) = en_snapshot e @ nths xs {i. (i + k) mod 3 = 2}"
proof -
  have "k = 0 \<or> k = 1 \<or> k = 2" using assms by auto
  moreover have "Suc (Suc (Suc j)) mod 3 = j mod 3" for j :: nat by (metis mod_add_self2 numeral_3_eq_3 add_Suc_right add_0_right)
  ultimately show "en_delivery (args_loop k xs e) = en_delivery e @ nths xs {i. (i + k) mod 3 = 0}"
    and "en_dispatch (args_loop k xs e) = en_dispatch e @ nths xs {i. (i + k) mod 3 = 1}"
    and "en_snapshot (args_loop k xs e) = en_snapshot e @ nths xs {i. (i + k) mod 3 = 2}"
    by (induction k xs e rule: args_loop.induct) (auto simp: nths_Cons)
qed

lemma RPCs_nth [simp]: "RPCs ! unat (enum_int RPCs ty) = ty" "unat (enum_int RPCs ty) < length RPCs"
  by (cases ty; simp add: RPCs_def enum_int_def)+

text \<open>
  A request reaches the thread of the worker with its type and payload; the socket adds the routing id
  of the peer.
\<close>

lemma request_served:
  assumes "allocator_ok (en_mem P)" and "sendRPC P ty pay = Inr r0" and "pt_data r = pt_data r0"
    and "length (pt_data pay) < 2 ^ 64 - 4" and "en_mem P (length (pt_data pay)) \<noteq> None"
  shows "runClient_request P B A r =
    andThen (serveRPC P B A ty (part_norm pay)) (\<lambda>reply.
      if Part_empty reply then giveS None
      else (\<lambda>s. case withRoutingID (pt_routing r) reply of
                  Inl e \<Rightarrow> Some (Inl e, s)
                | Inr q \<Rightarrow> Some (Inr (Some q), s)))"
proof -
  have "unpack (en_mem P) (en_arch P) [TUInt8, TPart] (pt_data r) = Inr [FUInt8 (enum_int RPCs ty), FPart (pt_data pay)]"
    using unpack_pack_gen [of "en_mem P" "[FUInt8 (enum_int RPCs ty), FPart (pt_data pay)]" "en_arch P" r0 "en_mem P" "en_arch P"]
      assms by (simp add: sendRPC_def field_alloc_def)
  then show ?thesis by (simp add: runClient_request_def part_norm_def)
qed

lemma serialize_parse:
  assumes "protoSerialize P ser m = Inr pay" and "parse (ser m) = Some m"
  shows "protoParse parse (part_norm pay) = Inr m"
  using assms by (auto simp: protoSerialize_def protoParse_def part_norm_def)

lemma serialize_data: "protoSerialize P ser m = Inr pay \<Longrightarrow> pt_data pay = ser m"
  by (auto simp: protoSerialize_def)

lemma Part_empty_init [simp]: "Part_empty zmq_msg_init"
  by (simp add: Part_empty_def zmq_msg_init_def)


text \<open>A simple encoding of the messages, to show that the documented round trip can be had.\<close>

definition enc_strs :: "bytes list \<Rightarrow> bytes" where
  "enc_strs xs = concat (map (\<lambda>s. concat (map (\<lambda>b. [1, b]) s) @ [0]) xs) @ [2]"

fun dec_strs :: "bytes \<Rightarrow> bytes list \<Rightarrow> bytes \<Rightarrow> (bytes list \<times> bytes) option" where
  "dec_strs cur acc [] = None"
| "dec_strs cur acc (x # rest) =
     (if x = 0 then dec_strs [] (acc @ [cur]) rest
      else if x = 1 then (case rest of [] \<Rightarrow> None | y # r \<Rightarrow> dec_strs (cur @ [y]) acc r)
      else Some (acc, rest))"

lemma dec_str: "dec_strs cur acc (concat (map (\<lambda>b. [1, b]) s) @ rest) = dec_strs (cur @ s) acc rest"
  by (induction s arbitrary: cur) simp_all

lemma dec_enc_gen: "dec_strs [] acc (enc_strs xs @ rest) = Some (acc @ xs, rest)"
proof (induction xs arbitrary: acc)
  case Nil
  then show ?case by (simp add: enc_strs_def)
next
  case (Cons s xs)
  have "enc_strs (s # xs) @ rest = concat (map (\<lambda>b. [1, b]) s) @ 0 # enc_strs xs @ rest" by (simp add: enc_strs_def)
  then show ?case using Cons by (simp only: dec_str) simp
qed

lemmas dec_enc = dec_enc_gen [of "[]", simplified] dec_enc_gen [of "[]" _ "[]", simplified]

definition sample_proto :: proto where
  "sample_proto =
     \<lparr>pb_endpoints = (\<lambda>m. enc_strs (em_delivery m) @ enc_strs (em_dispatch m) @ enc_strs (em_snapshot m)),
      pb_parseEndpoints = (\<lambda>b. case dec_strs [] [] b of None \<Rightarrow> None | Some (dl, b1) \<Rightarrow>
        (case dec_strs [] [] b1 of None \<Rightarrow> None | Some (dp, b2) \<Rightarrow>
        (case dec_strs [] [] b2 of None \<Rightarrow> None | Some (sn, _) \<Rightarrow> Some (cli_endpoints dl dp sn)))),
      pb_subscriptions = (\<lambda>m. (if sm_wildcard m then 1 else 0) # enc_strs (sm_name m)),
      pb_parseSubscriptions = (\<lambda>b. case b of [] \<Rightarrow> None | x # b1 \<Rightarrow>
        map_option (\<lambda>(ns, _). cli_subscriptions (x = 1) ns) (dec_strs [] [] b1)),
      pb_topic = (\<lambda>m. enc_strs [tm_name m, tm_data m] @ (if tm_type m < 0 then 1 else 0) # replicate (nat \<bar>tm_type m\<bar>) 0),
      pb_parseTopic = (\<lambda>b. case dec_strs [] [] b of
        Some ([n, d], x # xs) \<Rightarrow> Some \<lparr>tm_name = n, tm_data = d, tm_type = (if x = 1 then - 1 else 1) * int (length xs)\<rparr>
      | _ \<Rightarrow> None)\<rparr>"

lemma sample_proto_ok: "proto_ok sample_proto"
  by (auto simp: proto_ok_def sample_proto_def dec_enc cli_endpoints_def cli_subscriptions_def)

lemma sendRPC_returns:
  assumes "length (pt_data pay) < 2 ^ 31"
  shows "\<exists>r. sendRPC sample_env ty pay = Inr r"
  using assms pack_Inr_iff [of calloc "[FUInt8 (enum_int RPCs ty), FPart (pt_data pay)]" little]
  by (auto simp: sendRPC_def)

lemma serialize_returns: "protoSerialize sample_env ser m = Inr (zmq_msg_init\<lparr>pt_data := ser m\<rparr>)"
  by (simp add: protoSerialize_def initMessageSize_def zmq_msg_init_size_def calloc_def zmq_msg_init_def)

definition sample_answers :: answers where
  "sample_answers = \<lparr>an_fin1 = NoMessage, an_fin2 = NoMessage, an_seq = NoMessage, an_spawn = Inr (), an_fut = None\<rparr>"

definition sample_service :: WorkerServiceImpl where
  "sample_service = \<lparr>sv_worker = Worker_new (replicate 16 1) 7 [], sv_active = False, sv_canc1 = False\<rparr>"


section \<open>Replies\<close>

lemma withRoutingID_data: "withRoutingID i p = Inr q \<Longrightarrow> pt_data q = pt_data p"
  by (auto simp: withRoutingID_def setRoutingID_def zmq_msg_set_routing_id_def split: if_splits)

lemma plain_request:
  assumes "allocator_ok (en_mem P)" and "handle_plain P ty = Inr m" and "pt_data r = pt_data m"
  shows "runClient_request P B A r s =
    (case serveRPC P B A ty zmq_msg_init s of
       None \<Rightarrow> None
     | Some (Inl e, s') \<Rightarrow> Some (Inl e, s')
     | Some (Inr reply, s') \<Rightarrow>
         if Part_empty reply then Some (Inr None, s')
         else (case withRoutingID (pt_routing r) reply of Inl e \<Rightarrow> Some (Inl e, s') | Inr q \<Rightarrow> Some (Inr (Some q), s')))"
proof -
  have "en_mem P 0 \<noteq> None" using assms(1) [unfolded allocator_ok_def, rule_format, of 0] by (auto split: option.splits)
  moreover have "pt_data zmq_msg_init = []" "part_norm zmq_msg_init = zmq_msg_init" by (simp_all add: part_norm_def zmq_msg_init_def)
  ultimately show ?thesis
    using request_served [OF assms(1) assms(2) [unfolded handle_plain_def] assms(3)]
    by (auto simp: andThen_def giveS_def split: option.splits sum.splits prod.splits)
qed

lemma reply_of:
  assumes "allocator_ok (en_mem P)" and "handle_plain P ty = Inr m" and "pt_data r = pt_data m"
    and "runClient_request P B A r s = Some (Inr (Some q), s')"
  obtains p where "serveRPC P B A ty zmq_msg_init s = Some (Inr p, s')" and "pt_data q = pt_data p"
  using assms(4) that withRoutingID_data unfolding plain_request [OF assms(1-3)]
  by (auto split: option.splits sum.splits prod.splits if_splits)

lemma uuid_part_length:
  assumes "allocator_ok mem" and "uuid_ok u" and "Uuid_toPart mem a u = Inr p"
  shows "length (pt_data p) = 16"
  using assms pack_Inr_iff [OF assms(1), of "[FArray u]" a p] by (simp add: Uuid_toPart_def uuid_ok_def)

lemma uuid_short: "length (pt_data p) = 8 \<Longrightarrow> Uuid_fromPart mem a p = throwAccessError"
  by (simp add: Uuid_fromPart_def unpack_def unpack1_def psize_int_def accessOutOfBoundary_def bsize_def throwAccessError_def)


lemma sample_reply:
  assumes "handle_plain sample_env ty = Inr m" and "serveRPC sample_env sample_proto sample_answers ty zmq_msg_init s = Some (Inr p, s')"
    and "pt_data p \<noteq> []"
  shows "runClient_request sample_env sample_proto sample_answers (m\<lparr>pt_routing := 5\<rparr>) s = Some (Inr (Some (p\<lparr>pt_routing := 5\<rparr>)), s')"
  using assms plain_request [of sample_env ty m "m\<lparr>pt_routing := 5\<rparr>" sample_proto sample_answers s]
  by (simp add: Part_empty_def withRoutingID_def setRoutingID_def zmq_msg_set_routing_id_def)


section \<open>Events\<close>

lemma set_group_data: "zmq_msg_set_group g p = Inr (Some q) \<Longrightarrow> pt_data q = pt_data p"
  unfolding zmq_msg_set_group_def Let_def by (auto split: if_splits group.splits)

lemma withGroup_data: "withGroup (Some g) p = Inr q \<Longrightarrow> pt_data q = pt_data p"
proof -
  assume g: "withGroup (Some g) p = Inr q"
  then have "zmq_msg_set_group g p = Inr (Some q)"
    unfolding withGroup_def setGroup_def option.case
    by (cases "zmq_msg_set_group g p") (simp_all split: if_splits option.splits)
  then show ?thesis by (rule set_group_data)
qed

text \<open>What the thread of events publishes decodes to the same event.\<close>

lemma published_event:
  assumes "allocator_ok (en_mem P)" and "event_ok ev" and "en_mem P (length (pt_data (ev_payload ev))) \<noteq> None"
    and "runEvents_part P ev = Inr q"
  shows "Event_fromPart (en_mem P) (en_arch P) q = Inr (event_norm ev)"
proof -
  obtain p where p: "Event_toPart (en_mem P) (en_arch P) ev = Inr p" "withGroup (Some (str ''EVNT'')) p = Inr q"
    using assms(4) unfolding runEvents_part_def bindR_eq_Inr by blast
  show ?thesis
    using Event_fromPart_toPart [where mem' = "en_mem P", OF assms(1) refl assms(2,3) p(1)] Event_fromPart_data [OF withGroup_data [OF p(2)]] by simp
qed

lemma stream_loop_concat:
  assumes "\<forall>x\<in>set polls. \<not> fst x"
  shows "stream_loop P up polls =
    (case stream_batch P up (concat (map snd polls)) of (out, r) \<Rightarrow> (out, bindR r (\<lambda>x. Inr (snd x))))"
  using assms
proof (induction polls arbitrary: up)
  case (Cons x polls)
  have app: "stream_batch P up (ws @ ws') =
      (case stream_batch P up ws of
         (out, Inr (up', None)) \<Rightarrow> (case stream_batch P up' ws' of (out', r) \<Rightarrow> (out @ out', r))
       | (out, r) \<Rightarrow> (out, r))" for up ws ws'
    by (induction P up ws rule: stream_batch.induct) (auto split: sum.splits prod.splits option.splits)
  show ?case using Cons by (cases x) (auto simp: app split: sum.splits prod.splits option.splits)
qed simp

lemma runEvents_returns:
  assumes "length (pt_data (ev_payload ev)) < 2 ^ 31"
  shows "\<exists>q. runEvents_part sample_env ev = Inr q"
proof -
  let ?fs = "[FUInt8 (enum_int Event_Types (ev_type ev)), FUInt8 (enum_int Event_Notifications (ev_notif ev)),
    FPart (pt_data (ev_payload ev))]"
  obtain p where p: "Event_toPart calloc little ev = Inr p" "pt_group p = SGroup []"
    using pack_Inr_iff [OF calloc_ok(1), of ?fs little] assms
    by (cases "ev_type ev"; cases "ev_notif ev")
      (auto simp: Event_toPart_def Let_def enum_int_def enum_count_def Event_Types_def Event_Notifications_def zmq_msg_init_def)
  have "\<exists>q. setGroup (Some (str ''EVNT'')) p = Inr q"
    using setGroup_spec [of "str ''EVNT''" p] p(2) by (auto simp: str_def c_str_def)
  then show ?thesis using p(1) by (simp add: runEvents_part_def withGroup_def)
qed

definition sample_delivery :: "Event_Notification \<Rightarrow> Part \<Rightarrow> Event" where
  "sample_delivery nt pay = \<lparr>ev_type = EvDelivery, ev_notif = nt, ev_payload = pay\<rparr>"

lemma sample_topic_part:
  "\<exists>pay. Topic_toPart calloc little sample_topic = Inr pay \<and> length (pt_data pay) < 2 ^ 31"
  using pack_Inr_iff [OF calloc_ok(1) topic_fields_ok [OF sample_topic_ok], of little]
  by (simp add: Topic_toPart_fields topic_fields_def sample_topic_def Name_str_new Name_capacity_def Name_array_def)

text \<open>C33: What a client sees of the events. However the messages are spread over the waits of the poller, a call
  of \<^verbatim>\<open>WaitForEvent\<close> writes the setup event when the first message comes, then the translation of every
  event that is neither a timeout nor old nor invalid, in order, and the teardown event when its timeout
  or the shutdown of the service ends it, with the status of that end; later messages are not written.\<close>

theorem service_streams_events:
  assumes "\<forall>x\<in>set polls. \<not> fst x"
    and "concat (map snd polls) = map SEvent parts @ stop # rest" and "stop = STimeout \<or> stop = SShutdown"
    and "map (getEvent P) parts = map Inr msgs"
  shows "WaitForEvent P polls =
    ((if parts = [] then [] else [createEvent RCPSetup]) @ concat (map (\<lambda>m. case m of None \<Rightarrow> [] | Some e \<Rightarrow> [e]) msgs) @
       [createEvent RCPTeardown],
     Inr (Some (if stop = STimeout then StatusOK else StatusCancelled)))"
proof -
  have batch: "stream_batch P up (map SEvent parts @ stop # rest) =
      ((if parts = [] \<or> up then [] else [createEvent RCPSetup]) @
         concat (map (\<lambda>m. case m of None \<Rightarrow> [] | Some e \<Rightarrow> [e]) msgs) @ [createEvent RCPTeardown],
       Inr (up \<or> parts \<noteq> [], Some (if stop = STimeout then StatusOK else StatusCancelled)))" for up
    using assms(4)
  proof (induction parts arbitrary: up msgs)
    case Nil
    then show ?case using assms(3) by auto
  next
    case (Cons q parts)
    then obtain m ms where "msgs = m # ms" "getEvent P q = Inr m" "map (getEvent P) parts = map Inr ms" by auto
    then show ?case using Cons.IH [of ms True] by simp
  qed
  show ?thesis by (simp add: WaitForEvent_def stream_loop_concat [OF assms(1)] assms(2) batch)
qed

theorem service_streams_events_witness:
  "\<exists>q. runEvents_part sample_env (sample_delivery EvTimeout zmq_msg_init) = Inr q \<and>
     WaitForEvent sample_env [(False, [SEvent q]), (False, []), (False, [SEvent q, STimeout])] =
       ([createEvent RCPSetup, createEvent RCPTeardown], Inr (Some StatusOK))"
proof -
  let ?ev = "sample_delivery EvTimeout zmq_msg_init"
  obtain q where q: "runEvents_part sample_env ?ev = Inr q"
    using runEvents_returns [of ?ev] by (auto simp: sample_delivery_def zmq_msg_init_def)
  have "Event_fromPart calloc little q = Inr (event_norm ?ev)"
    using published_event [of sample_env ?ev q] q by (simp add: event_ok_def sample_delivery_def zmq_msg_init_def)
  then have "getEvent sample_env q = Inr None" by (simp add: getEvent_def event_norm_def sample_delivery_def)
  then have "WaitForEvent sample_env [(False, [SEvent q]), (False, []), (False, [SEvent q, STimeout])] =
      ([createEvent RCPSetup, createEvent RCPTeardown], Inr (Some StatusOK))"
    using service_streams_events [of "[(False, [SEvent q]), (False, []), (False, [SEvent q, STimeout])]" "[q, q]" STimeout "[]"
        sample_env "[None, None]"] by simp
  then show ?thesis using q by blast
qed

text \<open>C34: A topic keeps everything on its way to a remote client. The event in which a session delivers a topic
  is published by the thread of events and translated into a message with the name, the data, the
  sequence number, the worker, the broker and the type of that topic; an event that is a timeout, that
  belongs to an earlier session or that is invalid gives no message.\<close>

theorem service_delivers_topic:
  assumes "allocator_ok (en_mem P)" and "topic_ok t" and "Topic_toPart (en_mem P) (en_arch P) t = Inr pay"
    and "en_mem P (length (pt_data (tp_data t))) \<noteq> None" and "en_mem P (length (pt_data pay)) \<noteq> None"
    and "length (pt_data pay) < 2 ^ 32" and "ev_type ev = EvDelivery \<or> ev_type ev = EvSyncElement" and "ev_payload ev = pay"
    and "runEvents_part P ev = Inr q"
  shows "getEvent P q =
    Inr (if ev_notif ev = EvSuccess
         then Some \<lparr>em_type = if ev_type ev = EvDelivery then Delivery else SyncElement,
           em_payload = TopicPayload \<lparr>te_seqn = tp_seqn t, te_broker = tp_broker t, te_worker = tp_worker t,
             te_topic = \<lparr>tm_name = Name_str (tp_name t), tm_data = pt_data (tp_data t),
               tm_type = if tp_type t = State then 0 else 1\<rparr>\<rparr>\<rparr>
         else None)"
proof -
  have "event_ok ev" using assms(6,8) by (simp add: event_ok_def)
  then have ev: "Event_fromPart (en_mem P) (en_arch P) q = Inr (event_norm ev)"
    using published_event [OF assms(1) _ _ assms(9)] assms(5,8) by simp
  have "Topic_fromPart (en_mem P) (en_arch P) pay = Inr (topic_norm t)"
    by (rule Topic_fromPart_toPart [where mem' = "en_mem P", OF assms(1) refl assms(2,4,3)])
  then have "Topic_fromPart (en_mem P) (en_arch P) (part_norm pay) = Inr (topic_norm t)"
    using Topic_fromPart_data [of "part_norm pay" pay] by simp
  then show ?thesis using assms(7,8)
    by (cases "ev_notif ev"; cases "tp_type t")
      (auto simp: getEvent_def ev event_norm_def fillTopic_def topic_norm_def toString_def Topic_Type_State_def Topic_Type_Event_def)
qed

theorem service_delivers_topic_witness:
  "\<exists>pay q e. Topic_toPart calloc little sample_topic = Inr pay \<and>
     runEvents_part sample_env (sample_delivery EvSuccess pay) = Inr q \<and> getEvent sample_env q = Inr (Some e) \<and>
     em_type e = Delivery \<and> (case em_payload e of TopicPayload t \<Rightarrow> tm_data (te_topic t) = [7, 8] \<and> te_seqn t = 3 | _ \<Rightarrow> False)"
proof -
  obtain pay where pay: "Topic_toPart calloc little sample_topic = Inr pay" "length (pt_data pay) < 2 ^ 31"
    using sample_topic_part by blast
  let ?ev = "sample_delivery EvSuccess pay"
  obtain q where q: "runEvents_part sample_env ?ev = Inr q"
    using runEvents_returns [of ?ev] pay(2) by (auto simp: sample_delivery_def)
  show ?thesis
    using service_delivers_topic [of sample_env sample_topic pay ?ev q] sample_topic_ok pay q
    by (simp add: sample_delivery_def) (simp add: sample_topic_def)
qed

end
