(* ===== verification/Fuurin_CBindings.thy ===== *)
theory Fuurin_CBindings
  imports Fuurin_Lifecycle
begin

text \<open>
  The C bindings, \<^verbatim>\<open>src/c\<close>: opaque objects that hold a worker or a broker with the future of its
  session and the last event. A pointer that is returned is \<^term>\<open>None\<close> when it is null, and otherwise
  what it points to; strings are read up to their first null byte. What the sockets hold and how a
  session has ended are arguments, the latter \<^term>\<open>None\<close> while it has not; a call that blocks for ever
  is \<^term>\<open>None\<close> too.
\<close>

section \<open>Utilities\<close>

record CUuid =
  cu_bytes :: bytes

definition uuidConvert :: "uuid \<Rightarrow> CUuid" where
  "uuidConvert u = \<lparr>cu_bytes = take 16 u\<rparr>"

definition uuidConvert_back :: "CUuid \<Rightarrow> uuid" where
  "uuidConvert_back c = take 16 (cu_bytes c)"

text \<open>\<^verbatim>\<open>withCatch\<close> is \<^verbatim>\<open>noexcept\<close>, so what is thrown by the second function ends the process.\<close>

definition withCatch :: "('s, 'a) action \<Rightarrow> ('s, 'a) action \<Rightarrow> ('s, 'a) action" where
  "withCatch f c s = (case f s of (Inl (Throw _ _ _), s') \<Rightarrow> noexceptA c s' | (r, s') \<Rightarrow> (r, s'))"

section \<open>Events and topics\<close>

datatype TopicType_t = TopicState | TopicEvent

datatype EventType_t =
    EventInvalid | EventStarted | EventStopped | EventOffline | EventOnline | EventDelivery | EventSyncRequest
  | EventSyncBegin | EventSyncElement | EventSyncSuccess | EventSyncError | EventSyncDownloadOn | EventSyncDownloadOff

datatype EventNotif_t = EventDiscard | EventTimeout | EventSuccess

record CEventD =
  ce_ev :: Event
  ce_tp :: Topic

definition CEvent_type :: "CEventD \<Rightarrow> EventType_t" where
  "CEvent_type d =
     (case ev_type (ce_ev d) of
        EvInvalid \<Rightarrow> EventInvalid
      | EvStarted \<Rightarrow> EventStarted
      | EvStopped \<Rightarrow> EventStopped
      | EvOffline \<Rightarrow> EventOffline
      | EvOnline \<Rightarrow> EventOnline
      | EvDelivery \<Rightarrow> EventDelivery
      | EvSyncRequest \<Rightarrow> EventSyncRequest
      | EvSyncBegin \<Rightarrow> EventSyncBegin
      | EvSyncElement \<Rightarrow> EventSyncElement
      | EvSyncSuccess \<Rightarrow> EventSyncSuccess
      | EvSyncError \<Rightarrow> EventSyncError
      | EvSyncDownloadOn \<Rightarrow> EventSyncDownloadOn
      | EvSyncDownloadOff \<Rightarrow> EventSyncDownloadOff)"

definition CEvent_notif :: "CEventD \<Rightarrow> EventNotif_t" where
  "CEvent_notif d =
     (case ev_notif (ce_ev d) of EvTimeout \<Rightarrow> EventTimeout | EvSuccess \<Rightarrow> EventSuccess | EvDiscard \<Rightarrow> EventDiscard)"

text \<open>
  The assignments the compiler writes assign the members in order; the one of the part may throw, and
  then the members after it keep their value.
\<close>

definition Topic_assign :: "allocator \<Rightarrow> Topic \<Rightarrow> (Topic, unit) action" where
  "Topic_assign mem other t =
     (case Part_assign mem (tp_data other) (tp_data t) of
        (Inl e, d) \<Rightarrow> (Inl e, other\<lparr>tp_data := d, tp_type := tp_type t\<rparr>)
      | (Inr _, d) \<Rightarrow> (Inr (), other\<lparr>tp_data := d\<rparr>))"

definition Event_assign :: "allocator \<Rightarrow> Event \<Rightarrow> (Event, unit) action" where
  "Event_assign mem other e =
     (case Part_assign mem (ev_payload other) (ev_payload e) of (x, d) \<Rightarrow> (x, other\<lparr>ev_payload := d\<rparr>))"

definition set_topic :: "env \<Rightarrow> Topic \<Rightarrow> (CEventD, Topic option) action" where
  "set_topic P t d =
     (case Topic_assign (en_mem P) t (ce_tp d) of
        (Inl e, tp) \<Rightarrow> (Inl e, d\<lparr>ce_tp := tp\<rparr>)
      | (Inr _, tp) \<Rightarrow> (Inr (Some tp), d\<lparr>ce_tp := tp\<rparr>))"

definition CEvent_topic :: "env \<Rightarrow> (CEventD, Topic option) action" where
  "CEvent_topic P =
     withCatch
       (bindA (\<lambda>d. (Topic_fromPart (en_mem P) (en_arch P) (ev_payload (ce_ev d)), d)) (set_topic P))
       (retA None)"

definition CTopic_brokerUuid :: "Topic \<Rightarrow> CUuid" where
  "CTopic_brokerUuid t = uuidConvert (tp_broker t)"

definition CTopic_workerUuid :: "Topic \<Rightarrow> CUuid" where
  "CTopic_workerUuid t = uuidConvert (tp_worker t)"

definition CTopic_seqNum :: "Topic \<Rightarrow> u64" where
  "CTopic_seqNum t = tp_seqn t"

definition CTopic_type :: "Topic \<Rightarrow> TopicType_t" where
  "CTopic_type t = (case tp_type t of Event \<Rightarrow> TopicEvent | State \<Rightarrow> TopicState)"

text \<open>The name is read from the array of the name, which is longer than any name.\<close>

definition CTopic_name :: "Topic \<Rightarrow> bytes" where
  "CTopic_name t = c_str (nm_dd (tp_name t))"

definition CTopic_data :: "Topic \<Rightarrow> bytes" where
  "CTopic_data t = pt_data (tp_data t)"

definition CTopic_size :: "Topic \<Rightarrow> nat" where
  "CTopic_size t = length (pt_data (tp_data t))"

section \<open>Endpoints\<close>

definition addEndpoints :: "bytes \<Rightarrow> bytes \<Rightarrow> bytes \<Rightarrow> 'r Runner_scheme \<Rightarrow> 'r Runner_scheme" where
  "addEndpoints delivery dispatch snapshot r =
     Runner_setEndpoints (rn_endpDelivery r @ [c_str delivery]) (rn_endpDispatch r @ [c_str dispatch])
       (rn_endpSnapshot r @ [c_str snapshot]) r"

definition front_str :: "bytes list \<Rightarrow> bytes option" where
  "front_str endp = (case endp of [] \<Rightarrow> None | e # _ \<Rightarrow> Some (c_str e))"

text \<open>The destructor of a runner.\<close>

definition Runner_delete :: "env \<Rightarrow> recv_result \<Rightarrow> ('r Runner_scheme, unit) action" where
  "Runner_delete P fin = noexceptA (bindA (Runner_stop P fin) (\<lambda>_. retA ()))"

section \<open>Broker\<close>

record CBrokerD =
  cb_b :: Runner
  cb_f :: bool

text \<open>\<open>opened\<close> is what opening the sockets of the runner gives.\<close>

definition CBroker_new :: "unit result \<Rightarrow> CUuid \<Rightarrow> bytes \<Rightarrow> CBrokerD option result" where
  "CBroker_new opened u name =
     fst (withCatch (bindA (liftA opened) (\<lambda>_. retA (Some \<lparr>cb_b = Runner_new (uuidConvert_back u) (c_str name), cb_f = False\<rparr>)))
            (retA None) ())"

text \<open>The members are destroyed in reverse order: first the future, which waits for the session, then the runner.\<close>

definition CBroker_delete :: "env \<Rightarrow> recv_result \<Rightarrow> unit result option \<Rightarrow> CBrokerD \<Rightarrow> unit result option" where
  "CBroker_delete P fin fut d =
     (if cb_f d \<and> fut = None then None else Some (fst (Runner_delete P fin (cb_b d))))"

definition CBroker_name :: "CBrokerD \<Rightarrow> bytes" where
  "CBroker_name d = c_str (rn_name (cb_b d))"

definition CBroker_uuid :: "CBrokerD \<Rightarrow> CUuid" where
  "CBroker_uuid d = uuidConvert (rn_uuid (cb_b d))"

definition CBroker_addEndpoints :: "bytes \<Rightarrow> bytes \<Rightarrow> bytes \<Rightarrow> CBrokerD \<Rightarrow> CBrokerD" where
  "CBroker_addEndpoints delivery dispatch snapshot d = d\<lparr>cb_b := addEndpoints delivery dispatch snapshot (cb_b d)\<rparr>"

definition CBroker_clearEndpoints :: "CBrokerD \<Rightarrow> CBrokerD" where
  "CBroker_clearEndpoints d = d\<lparr>cb_b := Runner_setEndpoints [] [] [] (cb_b d)\<rparr>"

definition CBroker_endpointDelivery :: "CBrokerD \<Rightarrow> bytes option" where
  "CBroker_endpointDelivery d = front_str (rn_endpDelivery (cb_b d))"

definition CBroker_endpointDispatch :: "CBrokerD \<Rightarrow> bytes option" where
  "CBroker_endpointDispatch d = front_str (rn_endpDispatch (cb_b d))"

definition CBroker_endpointSnapshot :: "CBrokerD \<Rightarrow> bytes option" where
  "CBroker_endpointSnapshot d = front_str (rn_endpSnapshot (cb_b d))"

definition CBroker_wait :: "unit result option \<Rightarrow> CBrokerD \<Rightarrow> (unit result \<times> CBrokerD) option" where
  "CBroker_wait fut d =
     (if \<not> cb_f d then Some (Inr (), d)
      else case fut of
        None \<Rightarrow> None
      | Some r \<Rightarrow> Some (withCatch (\<lambda>d. (r, d\<lparr>cb_f := False\<rparr>)) (retA ()) d))"

definition CBroker_start :: "env \<Rightarrow> recv_result \<Rightarrow> unit result \<Rightarrow> unit result option \<Rightarrow> CBrokerD \<Rightarrow>
    (unit result \<times> CBrokerD) option" where
  "CBroker_start P fin spawn fut d =
     (case Broker_start P fin spawn (cb_b d) of
        None \<Rightarrow> None
      | Some (Inl e, b) \<Rightarrow> Some (Inl e, d\<lparr>cb_b := b\<rparr>)
      | Some (Inr NoFuture, b) \<Rightarrow> Some (Inr (), d\<lparr>cb_b := b\<rparr>)
      | Some (Inr SessionFuture, b) \<Rightarrow>
          (case CBroker_wait fut (d\<lparr>cb_b := b\<rparr>) of
             None \<Rightarrow> None
           | Some (Inl e, d') \<Rightarrow> Some (Inl e, d')
           | Some (Inr _, d') \<Rightarrow> Some (Inr (), d'\<lparr>cb_f := True\<rparr>)))"

definition on_broker :: "(Runner, 'a) action \<Rightarrow> (CBrokerD, 'a) action" where
  "on_broker f d = (case f (cb_b d) of (x, b) \<Rightarrow> (x, d\<lparr>cb_b := b\<rparr>))"

definition CBroker_stop :: "env \<Rightarrow> recv_result \<Rightarrow> (CBrokerD, unit) action" where
  "CBroker_stop P fin = on_broker (bindA (Runner_stop P fin) (\<lambda>_. retA ()))"

definition CBroker_isRunning :: "env \<Rightarrow> recv_result \<Rightarrow> (CBrokerD, bool) action" where
  "CBroker_isRunning P fin = on_broker (Runner_isRunning P fin)"

section \<open>Worker\<close>

record CWorkerD =
  cw_w :: Worker
  cw_f :: bool
  cw_evd :: CEventD

definition Event_empty :: Event where
  "Event_empty = \<lparr>ev_type = EvInvalid, ev_notif = EvDiscard, ev_payload = zmq_msg_init\<rparr>"

definition CWorker_new :: "unit result \<Rightarrow> CUuid \<Rightarrow> u64 \<Rightarrow> bytes \<Rightarrow> CWorkerD option result" where
  "CWorker_new opened u seqn name =
     fst (withCatch
            (bindA (liftA opened) (\<lambda>_. retA (Some \<lparr>cw_w = Worker_new (uuidConvert_back u) seqn (c_str name), cw_f = False,
               cw_evd = \<lparr>ce_ev = Event_empty, ce_tp = Topic_empty\<rparr>\<rparr>)))
            (retA None) ())"

definition CWorker_delete :: "env \<Rightarrow> recv_result \<Rightarrow> unit result option \<Rightarrow> CWorkerD \<Rightarrow> unit result option" where
  "CWorker_delete P fin fut d =
     (if cw_f d \<and> fut = None then None else Some (fst (Runner_delete P fin (cw_w d))))"

definition CWorker_name :: "CWorkerD \<Rightarrow> bytes" where
  "CWorker_name d = c_str (rn_name (cw_w d))"

definition CWorker_uuid :: "CWorkerD \<Rightarrow> CUuid" where
  "CWorker_uuid d = uuidConvert (rn_uuid (cw_w d))"

definition on_cworker :: "(Worker, 'a) action \<Rightarrow> (CWorkerD, 'a) action" where
  "on_cworker f d = (case f (cw_w d) of (x, w) \<Rightarrow> (x, d\<lparr>cw_w := w\<rparr>))"

definition CWorker_seqNum :: "env \<Rightarrow> recv_result \<Rightarrow> (CWorkerD, u64) action" where
  "CWorker_seqNum P seq = on_cworker (Worker_seqNumber P seq)"

definition CWorker_addEndpoints :: "bytes \<Rightarrow> bytes \<Rightarrow> bytes \<Rightarrow> CWorkerD \<Rightarrow> CWorkerD" where
  "CWorker_addEndpoints delivery dispatch snapshot d = d\<lparr>cw_w := addEndpoints delivery dispatch snapshot (cw_w d)\<rparr>"

definition CWorker_clearEndpoints :: "CWorkerD \<Rightarrow> CWorkerD" where
  "CWorker_clearEndpoints d = d\<lparr>cw_w := Runner_setEndpoints [] [] [] (cw_w d)\<rparr>"

definition CWorker_endpointDelivery :: "CWorkerD \<Rightarrow> bytes option" where
  "CWorker_endpointDelivery d = front_str (rn_endpDelivery (cw_w d))"

definition CWorker_endpointDispatch :: "CWorkerD \<Rightarrow> bytes option" where
  "CWorker_endpointDispatch d = front_str (rn_endpDispatch (cw_w d))"

definition CWorker_endpointSnapshot :: "CWorkerD \<Rightarrow> bytes option" where
  "CWorker_endpointSnapshot d = front_str (rn_endpSnapshot (cw_w d))"


definition CWorker_wait :: "unit result option \<Rightarrow> CWorkerD \<Rightarrow> (unit result \<times> CWorkerD) option" where
  "CWorker_wait fut d =
     (if \<not> cw_f d then Some (Inr (), d)
      else case fut of
        None \<Rightarrow> None
      | Some r \<Rightarrow> Some (withCatch (\<lambda>d. (r, d\<lparr>cw_f := False\<rparr>)) (retA ()) d))"

text \<open>The future of the session before is waited for when the new session has been started.\<close>

definition CWorker_start :: "env \<Rightarrow> recv_result \<Rightarrow> recv_result \<Rightarrow> unit result \<Rightarrow> unit result option \<Rightarrow> CWorkerD \<Rightarrow>
    (unit result \<times> CWorkerD) option" where
  "CWorker_start P fin seq spawn fut d =
     (case Worker_start P fin seq spawn (cw_w d) of
        None \<Rightarrow> None
      | Some (Inl e, w) \<Rightarrow> Some (Inl e, d\<lparr>cw_w := w\<rparr>)
      | Some (Inr NoFuture, w) \<Rightarrow> Some (Inr (), d\<lparr>cw_w := w\<rparr>)
      | Some (Inr SessionFuture, w) \<Rightarrow>
          (case CWorker_wait fut (d\<lparr>cw_w := w\<rparr>) of
             None \<Rightarrow> None
           | Some (Inl e, d') \<Rightarrow> Some (Inl e, d')
           | Some (Inr _, d') \<Rightarrow> Some (Inr (), d'\<lparr>cw_f := True\<rparr>)))"

definition CWorker_stop :: "env \<Rightarrow> recv_result \<Rightarrow> (CWorkerD, unit) action" where
  "CWorker_stop P fin = on_cworker (bindA (Runner_stop P fin) (\<lambda>_. retA ()))"

definition CWorker_isRunning :: "env \<Rightarrow> recv_result \<Rightarrow> (CWorkerD, bool) action" where
  "CWorker_isRunning P fin = on_cworker (Runner_isRunning P fin)"

definition CWorker_setTopicsAll :: "CWorkerD \<Rightarrow> CWorkerD" where
  "CWorker_setTopicsAll d = d\<lparr>cw_w := Worker_setTopicsAll (cw_w d)\<rparr>"

definition CWorker_addTopicsNames :: "bytes \<Rightarrow> CWorkerD \<Rightarrow> CWorkerD" where
  "CWorker_addTopicsNames name d =
     d\<lparr>cw_w := Worker_setTopicsNames (snd (Worker_topicsNames (cw_w d)) @ [Name_new (c_str name)]) (cw_w d)\<rparr>"

definition CWorker_clearTopicsNames :: "CWorkerD \<Rightarrow> CWorkerD" where
  "CWorker_clearTopicsNames d = d\<lparr>cw_w := Worker_setTopicsNames [] (cw_w d)\<rparr>"

definition CWorker_topicsAll :: "CWorkerD \<Rightarrow> bool" where
  "CWorker_topicsAll d = fst (Worker_topicsNames (cw_w d))"

definition CWorker_topicsNames :: "CWorkerD \<Rightarrow> bytes option" where
  "CWorker_topicsNames d =
     (case snd (Worker_topicsNames (cw_w d)) of [] \<Rightarrow> None | n # _ \<Rightarrow> Some (c_str (nm_dd n)))"

definition CWorker_dispatch :: "env \<Rightarrow> recv_result \<Rightarrow> bytes \<Rightarrow> bytes \<Rightarrow> TopicType_t \<Rightarrow> (CWorkerD, unit) action" where
  "CWorker_dispatch P fin name data ty =
     withCatch
       (on_cworker (bindA (liftA (Part_bytes (en_mem P) data)) (\<lambda>p.
          Worker_dispatch P fin (Name_new (c_str name)) p (case ty of TopicState \<Rightarrow> State | TopicEvent \<Rightarrow> Event))))
       (retA ())"

definition CWorker_sync :: "env \<Rightarrow> recv_result \<Rightarrow> (CWorkerD, unit) action" where
  "CWorker_sync P fin = on_cworker (Worker_sync P fin)"

text \<open>
  The waits. While nothing has arrived that ends the wait the call has not returned, which is
  \<^term>\<open>None\<close> in the result of the waits of the worker.
\<close>

definition set_event :: "env \<Rightarrow> Event \<Rightarrow> (CWorkerD, Event option) action" where
  "set_event P e d =
     (case Event_assign (en_mem P) e (ce_ev (cw_evd d)) of
        (Inl f, v) \<Rightarrow> (Inl f, d\<lparr>cw_evd := (cw_evd d)\<lparr>ce_ev := v\<rparr>\<rparr>)
      | (Inr _, v) \<Rightarrow> (Inr (Some v), d\<lparr>cw_evd := (cw_evd d)\<lparr>ce_ev := v\<rparr>\<rparr>))"

definition CWorker_waitForEvent :: "env \<Rightarrow> unit result \<Rightarrow> wake list result list \<Rightarrow> (CWorkerD, Event option) action" where
  "CWorker_waitForEvent P poll ws =
     withCatch
       (bindA (\<lambda>d. (Runner_waitForEvent P None poll ws (cw_w d), d)) (\<lambda>ev.
          case ev of None \<Rightarrow> retA None | Some e \<Rightarrow> set_event P e))
       (set_event P Event_empty)"

definition CWorker_waitFor :: "(Worker \<Rightarrow> bool option result) \<Rightarrow> (CWorkerD, bool option) action" where
  "CWorker_waitFor f = withCatch (\<lambda>d. (f (cw_w d), d)) (retA (Some False))"

definition CWorker_waitForStarted :: "env \<Rightarrow> unit result \<Rightarrow> wake list result list \<Rightarrow> (CWorkerD, bool option) action" where
  "CWorker_waitForStarted P poll ws = CWorker_waitFor (Worker_waitForStarted P poll ws)"

definition CWorker_waitForStopped :: "env \<Rightarrow> unit result \<Rightarrow> wake list result list \<Rightarrow> (CWorkerD, bool option) action" where
  "CWorker_waitForStopped P poll ws = CWorker_waitFor (Worker_waitForStopped P poll ws)"

definition CWorker_waitForOnline :: "env \<Rightarrow> unit result \<Rightarrow> wake list result list \<Rightarrow> (CWorkerD, bool option) action" where
  "CWorker_waitForOnline P poll ws = CWorker_waitFor (Worker_waitForOnline P poll ws)"

definition CWorker_waitForOffline :: "env \<Rightarrow> unit result \<Rightarrow> wake list result list \<Rightarrow> (CWorkerD, bool option) action" where
  "CWorker_waitForOffline P poll ws = CWorker_waitFor (Worker_waitForOffline P poll ws)"

definition on_evd :: "(CEventD, 'a) action \<Rightarrow> (CWorkerD, 'a) action" where
  "on_evd f d = (case f (cw_evd d) of (x, e) \<Rightarrow> (x, d\<lparr>cw_evd := e\<rparr>))"

definition CWorker_waitForTopic :: "env \<Rightarrow> unit result \<Rightarrow> wake list result list \<Rightarrow> (CWorkerD, Topic option option) action" where
  "CWorker_waitForTopic P poll ws =
     withCatch
       (bindA (\<lambda>d. (Worker_waitForTopic P poll ws (cw_w d), d)) (\<lambda>tp.
          case tp of
            None \<Rightarrow> retA None
          | Some None \<Rightarrow> retA (Some None)
          | Some (Some t) \<Rightarrow> bindA (on_evd (set_topic P t)) (\<lambda>x. retA (Some x))))
       (retA (Some None))"


section \<open>Exceptions\<close>

text \<open>No exception leaves a guarded function, whatever the functions it guards.\<close>

lemma withCatch_never_throws: "fst (withCatch f c s) \<noteq> Inl (Throw e m n)"
  by (auto simp: withCatch_def noexceptA_def split: prod.splits sum.splits fault.splits)

lemma withCatch_Inr [simp]: "f s = (Inr x, s') \<Longrightarrow> withCatch f c s = (Inr x, s')"
  by (simp add: withCatch_def)

lemma withCatch_Throw: "f s = (Inl (Throw e m n), s') \<Longrightarrow> withCatch f c s = noexceptA c s'"
  by (simp add: withCatch_def)

lemma noexceptA_Inr [simp]: "f s = (Inr x, s') \<Longrightarrow> noexceptA f s = (Inr x, s')"
  by (simp add: noexceptA_def)

text \<open>The functions that are not guarded leave the exceptions of the sockets to the C caller.\<close>

lemma CWorker_seqNum_throws: "\<exists>e m n. fst (CWorker_seqNum P (RecvError k) d) = Inl (Throw e m n)"
  by (simp add: CWorker_seqNum_def on_cworker_def Worker_seqNumber_def recvMessagePart_def action_defs)

section \<open>Sessions\<close>

text \<open>What the future of the session gives: nothing as long as there is a session.\<close>

definition session_result :: "'r sys \<Rightarrow> unit result option" where
  "session_result y = (if sy_sessions y = [] then Some (Inr ()) else None)"

text \<open>What goes on while a call blocks: the session reads operations, and ends when it is told to.\<close>

definition session_steps :: "env \<Rightarrow> ('r Runner_scheme, Part) action set \<Rightarrow> 'r sys \<Rightarrow> 'r sys \<Rightarrow> bool" where
  "session_steps P preps = (\<lambda>y y'. sys_step P preps LRead y y' \<or> sys_step P preps LEnd y y')\<^sup>*\<^sup>*"

text \<open>No operation that is still unread tells a session to stop.\<close>

definition no_stop :: "env \<Rightarrow> 'r sys \<Rightarrow> bool" where
  "no_stop P y \<longleftrightarrow>
     (\<forall>i tok oper. sy_read y \<le> i \<and> i < length (sy_ops y) \<and> tok \<in> set (sy_sessions y) \<and>
        recvOperation P tok (fst (sy_ops y ! i)) (snd (sy_ops y ! i)) = Inr oper \<longrightarrow>
        op_notif oper = OpDiscard \<or> op_type oper \<noteq> OpStop)"

lemma no_stop_read: "no_stop P y \<Longrightarrow> no_stop P (y\<lparr>sy_read := Suc (sy_read y)\<rparr>)"
  unfolding no_stop_def by simp (meson Suc_leD)

lemma no_stop_steps:
  assumes "session_steps P preps y y'" and "no_stop P y"
  shows "no_stop P y' \<and> sy_sessions y' = sy_sessions y \<and> sy_fin y' = sy_fin y"
  using assms(1) unfolding session_steps_def
proof (induction rule: rtranclp_induct)
  case base
  then show ?case using assms(2) by simp
next
  case (step u v)
  from step.hyps(2) show ?case
  proof
    assume "sys_step P preps LRead u v"
    then show ?thesis using step.IH by cases (simp add: no_stop_read)
  next
    assume "sys_step P preps LEnd u v"
    then show ?thesis
    proof cases
      case (end_stop tok t p oper f)
      then have "op_notif oper = OpDiscard \<or> op_type oper \<noteq> OpStop"
        using step.IH unfolding no_stop_def by (elim conjE allE [of _ "sy_read u"] allE [of _ tok] allE [of _ oper]) simp
      then show ?thesis using end_stop by simp
    qed
  qed
qed

context runner_config
begin

text \<open>A new session is only started when the one before is over.\<close>

lemma start_only_idle:
  assumes "sys_run P preps ls y" and "allocator_ok (en_mem P)" and "\<forall>k. nt_send (en_net P) k = Sent"
    and "Runner_start P (fin_answer (sy_fin y)) spawn prep (sy_runner y) = Some (Inr SessionFuture, r')"
  shows "session_result y = Some (Inr ())"
  using assms(4) sys_isRunning [OF sys_run_inv [OF assms(1-3)]]
  by (cases "sy_sessions y = []") (auto simp: Runner_start_def session_result_def)

end

section \<open>Topics\<close>

lemma CTopic_name_str: "name_ok (tp_name t) \<Longrightarrow> CTopic_name t = c_str (Name_str (tp_name t))"
proof -
  assume ok: "name_ok (tp_name t)"
  let ?n = "tp_name t"
  have c: "c_str (xs @ ys) = c_str xs" if "c_str ys = []" for xs ys
    using that by (induction xs) (simp_all add: c_str_def)
  have "c_str (drop (nm_sz ?n) (nm_dd ?n)) = []"
    using ok by (cases "drop (nm_sz ?n) (nm_dd ?n)") (auto simp: name_ok_def c_str_def)
  from c [OF this, of "Name_str ?n"] show ?thesis by (simp add: CTopic_name_def Name_str_def)
qed

lemma set_topic_norm:
  assumes "en_mem P (length (pt_data (tp_data t))) \<noteq> None"
  shows "set_topic P (topic_norm t) d = (Inr (Some (topic_norm t)), d\<lparr>ce_tp := topic_norm t\<rparr>)"
  using assms
  by (auto simp: set_topic_def Topic_assign_def Part_assign_def topic_norm_def part_norm_def action_defs
      initMessageSize_def zmq_msg_init_size_def zmq_msg_init_def zmq_msg_group_def)


lemma Worker_waitForTopic_one:
  assumes "allocator_ok (en_mem P)" and dec: "Topic_fromPart (en_mem P) (en_arch P) pay = Inr t"
    and "en_mem P (length (pt_data pay)) \<noteq> None" and "group_ok pay" and "length (pt_data pay) < 2 ^ 32"
    and "event_part P tok EvDelivery pay = Inr p"
  shows "Worker_waitForTopic P (Inr ()) [Inr [WakeEvent (Received p)]] w = Inr (Some (Some t))"
proof -
  have "Topic_fromPart (en_mem P) (en_arch P) (zmq_msg_init\<lparr>pt_data := pt_data pay\<rparr>) = Inr t"
    using dec Topic_fromPart_data [of "zmq_msg_init\<lparr>pt_data := pt_data pay\<rparr>" pay] by simp
  then show ?thesis
    using Runner_recvEvent_decode [OF assms(1) refl assms(4,5,6,3), of "rn_token w"]
    by (simp add: Worker_waitForTopic_def Runner_waitForEvent_def event_skipped_def is_topic_event_def)
qed

section \<open>Properties\<close>

text \<open>A program that uses the C bindings sees the topic that was delivered: waiting for a topic returns a pointer whose accessors give the broker, the worker, the sequence number, the type, the data with its size and the name, the name up to its first null byte; the pointer stays the topic of the object.\<close>

theorem capi_receives_topic:
  assumes "allocator_ok (en_mem P)" and "topic_ok t" and "Topic_toPart (en_mem P) (en_arch P) t = Inr pay"
    and "en_mem P (length (pt_data (tp_data t))) \<noteq> None" "en_mem P (length (pt_data pay)) \<noteq> None"
    and "group_ok pay" and "length (pt_data pay) < 2 ^ 32" and "event_part P tok EvDelivery pay = Inr p"
  shows "\<exists>tp d'. CWorker_waitForTopic P (Inr ()) [Inr [WakeEvent (Received p)]] d = (Inr (Some (Some tp)), d') \<and>
    ce_tp (cw_evd d') = tp \<and> CTopic_brokerUuid tp = uuidConvert (tp_broker t) \<and>
    CTopic_workerUuid tp = uuidConvert (tp_worker t) \<and> CTopic_seqNum tp = tp_seqn t \<and>
    CTopic_type tp = (if tp_type t = State then TopicState else TopicEvent) \<and>
    CTopic_data tp = pt_data (tp_data t) \<and> CTopic_size tp = length (pt_data (tp_data t)) \<and>
    CTopic_name tp = c_str (Name_str (tp_name t))"
proof -
  have "CWorker_waitForTopic P (Inr ()) [Inr [WakeEvent (Received p)]] d =
      (Inr (Some (Some (topic_norm t))), d\<lparr>cw_evd := (cw_evd d)\<lparr>ce_tp := topic_norm t\<rparr>\<rparr>)"
    using Worker_waitForTopic_one [OF assms(1) _ assms(5,6,7,8), of "topic_norm t"] set_topic_norm [OF assms(4)]
      Topic_fromPart_toPart [where mem' = "en_mem P", OF assms(1) refl assms(2,4,3)]
    by (simp add: CWorker_waitForTopic_def withCatch_def on_evd_def bindA_def retA_def)
  moreover have "CTopic_name (topic_norm t) = c_str (Name_str (tp_name t))"
    using CTopic_name_str [of "topic_norm t"] assms(2) by (simp add: topic_ok_def topic_norm_def)
  ultimately show ?thesis
    by (cases "tp_type t") (simp_all add: CTopic_brokerUuid_def CTopic_workerUuid_def CTopic_seqNum_def CTopic_type_def
      CTopic_data_def CTopic_size_def topic_norm_def)
qed

definition sample_cworker :: "Worker \<Rightarrow> CWorkerD" where
  "sample_cworker w = \<lparr>cw_w = w, cw_f = True, cw_evd = \<lparr>ce_ev = Event_empty, ce_tp = Topic_empty\<rparr>\<rparr>"

lemma sample_topic_delivered:
  "\<exists>pay p. Topic_toPart calloc little sample_topic = Inr pay \<and> group_ok pay \<and> length (pt_data pay) < 2 ^ 31 \<and>
     event_part sample_env 1 EvDelivery pay = Inr p"
proof -
  obtain pay where pay: "Topic_toPart calloc little sample_topic = Inr pay" "length (pt_data pay) < 2 ^ 31" "group_ok pay"
    using pack_Inr_iff [OF calloc_ok(1) topic_fields_ok [OF sample_topic_ok], of little]
    by (simp add: Topic_toPart_fields topic_fields_def sample_topic_def Name_str_new Name_capacity_def Name_array_def
        group_ok_def zmq_msg_group_def zmq_msg_init_def)
  then show ?thesis using event_part_returns [of sample_env pay 1 EvDelivery] calloc_ok by auto
qed

theorem capi_receives_topic_witness:
  "\<exists>p tp d'. CWorker_waitForTopic sample_env (Inr ()) [Inr [WakeEvent (Received p)]] (sample_cworker sample_app) =
     (Inr (Some (Some tp)), d') \<and> CTopic_seqNum tp = 3 \<and> CTopic_data tp = [7, 8]"
proof -
  obtain pay p where p: "Topic_toPart calloc little sample_topic = Inr pay" "group_ok pay" "length (pt_data pay) < 2 ^ 31"
    "event_part sample_env 1 EvDelivery pay = Inr p" using sample_topic_delivered by blast
  then show ?thesis
    using capi_receives_topic [of sample_env sample_topic pay 1 p "sample_cworker sample_app"] sample_topic_ok calloc_ok(1)
    by (auto simp: sample_topic_def)
qed

text \<open>Starting a worker through the C bindings never blocks on its previous session: whatever the application and the sessions did before, the future that is waited for is one of a session that is over, so the call returns when starting the worker does; when it started a session the object holds its future.\<close>

theorem capi_start_returns:
  assumes "sys_run P (range (Worker_prepareConfiguration P)) ls y" and "allocator_ok (en_mem P)"
    and "\<forall>k. nt_send (en_net P) k = Sent" and "cw_w d = sy_runner y"
    and "Worker_start P (fin_answer (sy_fin y)) seq spawn (sy_runner y) = Some (Inr fut, w')"
  shows "\<exists>d'. CWorker_start P (fin_answer (sy_fin y)) seq spawn (session_result y) d = Some (Inr (), d') \<and>
    cw_w d' = w' \<and> cw_f d' = (cw_f d \<or> fut = SessionFuture)"
proof (cases fut)
  case NoFuture
  then show ?thesis using assms(4,5) by (simp add: CWorker_start_def)
next
  case SessionFuture
  then have "session_result y = Some (Inr ())"
    using worker_lifecycle.start_only_idle [OF assms(1-3)] assms(5) by (auto simp: Worker_start_def)
  then show ?thesis using SessionFuture assms(4,5) by (simp add: CWorker_start_def CWorker_wait_def withCatch_def)
qed

theorem capi_start_returns_witness:
  "\<exists>r' d'. Worker_start sample_env NoMessage NoMessage (Inr ()) sample_app = Some (Inr SessionFuture, r') \<and>
     CWorker_start sample_env NoMessage NoMessage (Inr ()) (Some (Inr ())) (sample_cworker sample_app) = Some (Inr (), d') \<and> cw_w d' = r'"
proof -
  let ?y = "\<lparr>sy_runner = sample_app, sy_sessions = [], sy_fin = None, sy_ops = [], sy_read = 0, sy_base = 0\<rparr>"
  obtain r' where r: "Worker_start sample_env NoMessage NoMessage (Inr ()) sample_app = Some (Inr SessionFuture, r')"
    using sample_app_starts by (metis Worker_start_def)
  have "sys_run sample_env (range (Worker_prepareConfiguration sample_env)) [] ?y" by (rule sys_run.init) simp
  from capi_start_returns [OF this, of "sample_cworker sample_app" NoMessage "Inr ()" SessionFuture r'] r calloc_ok(1)
  show ?thesis by (auto simp: fin_answer_def session_result_def sample_cworker_def)
qed

text \<open>Deleting a running worker through the C bindings blocks for ever: the members of the object are destroyed in reverse order, so the future of the session is waited for before the destructor of the worker would tell the session to stop. As long as no unread operation is a stop, no number of steps of the session makes the call return.\<close>

theorem capi_delete_hangs:
  assumes "cw_f d" and "sy_sessions y \<noteq> []" and "no_stop P y"
    and "session_steps P (range (Worker_prepareConfiguration P)) y y'"
  shows "CWorker_delete P (fin_answer (sy_fin y')) (session_result y') d = None"
  using no_stop_steps [OF assms(4,3)] assms(1,2) by (simp add: CWorker_delete_def session_result_def)


theorem capi_delete_hangs_witness:
  "\<exists>y. sys_run sample_env (range (Worker_prepareConfiguration sample_env)) [LStart] y \<and>
     CWorker_delete sample_env (fin_answer (sy_fin y)) (session_result y) (sample_cworker (sy_runner y)) = None"
proof -
  obtain y t p oper where y: "sys_run sample_env (range (Worker_prepareConfiguration sample_env)) [LStart] y"
    "sy_sessions y = [1]" "sy_read y = 0" "sy_ops y = [(t, p)]" "recvOperation sample_env 1 t p = Inr oper" "op_type oper = OpStart"
    by (rule sample_app_run)
  then have "no_stop sample_env y" by (simp add: no_stop_def)
  moreover have "session_steps sample_env (range (Worker_prepareConfiguration sample_env)) y y"
    by (simp add: session_steps_def)
  ultimately show ?thesis
    using capi_delete_hangs [of "sample_cworker (sy_runner y)" y sample_env y] y(1,2) by (auto simp: sample_cworker_def)
qed

end
