(* ===== verification/Fuurin_Shutdown.thy ===== *)
theory Fuurin_Shutdown
  imports Fuurin_Service Fuurin_CBindings Fuurin_Inproc
begin

text \<open>
  The life of the remote service, \<^verbatim>\<open>grpc/fuurin_worker_impl.cpp\<close>: the sockets of its constructor, the loops of its
  two threads, the server, \<^verbatim>\<open>shutdown\<close> and the destructor, with the order in which the members go.
\<close>

section \<open>Construction\<close>

text \<open>The addresses of the sockets, after those of the worker, whose context they share.\<close>

definition zrpcClient :: sid where "zrpcClient = 8"
definition zrpcServer :: sid where "zrpcServer = 9"
definition zrpcEvents :: sid where "zrpcEvents = 10"
definition zcanc1_trigger :: sid where "zcanc1_trigger = 11"
definition zcanc1 :: sid where "zcanc1 = 12"
definition zcanc2_trigger :: sid where "zcanc2_trigger = 13"
definition zcanc2 :: sid where "zcanc2 = 14"

lemmas rpc_sids = zrpcClient_def zrpcServer_def zrpcEvents_def zcanc1_trigger_def zcanc1_def zcanc2_trigger_def zcanc2_def

definition Service_members :: "zlib \<Rightarrow> unit zaction" where
  "Service_members lib =
     seqA [setS zrpcClient (\<lambda>_. ZSocket_new CLIENT), setS zrpcServer (\<lambda>_. ZSocket_new SERVER),
       setS zrpcEvents (\<lambda>_. ZSocket_new RADIO),
       Cancellation_wire lib ''WorkerServiceImpl_canc1'' zcanc1_trigger zcanc1,
       Cancellation_wire lib ''WorkerServiceImpl_canc2'' zcanc2_trigger zcanc2]"

definition Service_wire :: "zlib \<Rightarrow> unit zaction" where
  "Service_wire lib =
     seqA [setS zrpcEvents (zs_setEndpoints [inproc ''rpc-events'']),
       setS zrpcServer (zs_setEndpoints [inproc ''rpc-worker'']),
       setS zrpcClient (zs_setEndpoints [inproc ''rpc-worker'']),
       zs_bind lib zrpcEvents, zs_bind lib zrpcServer, zs_connect lib zrpcClient]"

text \<open>The members in the reverse order, for an exception in the constructor and for the destructor.\<close>

definition Service_unwire :: "zlib \<Rightarrow> unit zaction" where
  "Service_unwire lib =
     seqA [zs_close lib zcanc2, zs_close lib zcanc2_trigger, zs_close lib zcanc1, zs_close lib zcanc1_trigger,
       zs_close lib zrpcEvents, zs_close lib zrpcServer, zs_close lib zrpcClient]"

definition Service_construct :: "zlib \<Rightarrow> unit zaction" where
  "Service_construct lib = guardA (thenA (Service_members lib) (Service_wire lib)) (Service_unwire lib)"

section \<open>The thread that owns the worker\<close>

text \<open>
  What the poller of \<^verbatim>\<open>runClient\<close> finds ready: a request, with the answers to what serving it asks and to
  sending the reply; the cancellation; the monitor. Receiving the request or consuming the timer of the monitor may throw.
\<close>

datatype client_wake = WakeRequest answers Part "unit result" | WakeCanc | WakeMonitor answers | WakeFault fault

text \<open>One round over what is ready: whether the loop is left, and the replies.\<close>

fun client_batch :: "env \<Rightarrow> proto \<Rightarrow> client_wake list \<Rightarrow> (bool \<times> Part list) service" where
  "client_batch P B [] = giveS (False, [])"
| "client_batch P B (WakeCanc # ws) = giveS (True, [])"
| "client_batch P B (WakeMonitor A # ws) = andThen (runClient_monitor A) (\<lambda>_. client_batch P B ws)"
| "client_batch P B (WakeFault e # ws) = (\<lambda>s. Some (Inl e, s))"
| "client_batch P B (WakeRequest A r ans # ws) =
     andThen (runClient_request P B A r) (\<lambda>reply.
     case reply of
       None \<Rightarrow> client_batch P B ws
     | Some q \<Rightarrow>
         (case ans of
            Inl e \<Rightarrow> (\<lambda>s. Some (Inl e, s))
          | Inr _ \<Rightarrow> andThen (client_batch P B ws) (\<lambda>(fin, qs). giveS (fin, q # qs))))"

text \<open>The loop over the waits so far; it is not left yet when they are used up.\<close>

fun client_loop :: "env \<Rightarrow> proto \<Rightarrow> client_wake list result list \<Rightarrow> (bool \<times> Part list) service" where
  "client_loop P B [] = giveS (False, [])"
| "client_loop P B (Inl e # polls) = (\<lambda>s. Some (Inl e, s))"
| "client_loop P B (Inr ws # polls) =
     andThen (client_batch P B ws) (\<lambda>(fin, qs).
     if fin then giveS (True, qs)
     else andThen (client_loop P B polls) (\<lambda>(fin', qs'). giveS (fin', qs @ qs')))"

text \<open>\<^verbatim>\<open>runClient\<close>; \<open>created\<close> is what the timer of the monitor and the poller give when they are created.\<close>

definition runClient :: "env \<Rightarrow> proto \<Rightarrow> unit result \<Rightarrow> client_wake list result list \<Rightarrow> (bool \<times> Part list) service" where
  "runClient P B created polls s =
     (case created of Inl e \<Rightarrow> Some (Inl e, s) | Inr _ \<Rightarrow> client_loop P B polls s)"

section \<open>The thread of events\<close>

text \<open>
  For every turn of \<^verbatim>\<open>runEvents\<close>, what waiting for an event, sending it and looking at the cancellation gave. The
  result is whether the loop was left, and what was published.
\<close>

record events_turn =
  et_event :: "Event result"
  et_sent :: "unit result"
  et_canc :: "bool result"

fun events_loop :: "env \<Rightarrow> events_turn list \<Rightarrow> (bool \<times> Part list) result" where
  "events_loop P [] = Inr (False, [])"
| "events_loop P (t # ts) =
     bindR (et_event t) (\<lambda>ev.
     bindR (runEvents_part P ev) (\<lambda>p.
     bindR (et_sent t) (\<lambda>_.
     bindR (et_canc t) (\<lambda>canc.
     if canc then Inr (True, [p])
     else bindR (events_loop P ts) (\<lambda>(fin, ps). Inr (fin, p # ps))))))"

definition runEvents :: "env \<Rightarrow> unit result \<Rightarrow> events_turn list \<Rightarrow> (bool \<times> Part list) result" where
  "runEvents P created ts = bindR created (\<lambda>_. events_loop P ts)"

section \<open>The server\<close>

text \<open>
  The server of the gRPC library, whether it was told to shut down, the cancellation of the streams, and the
  requests sent to the thread that owns the worker.
\<close>

record Server =
  se_server :: bool
  se_down :: bool
  se_canc2 :: bool
  se_sent :: "Part list"

definition shutdown :: "env \<Rightarrow> unit result \<Rightarrow> (Server, unit) action" where
  "shutdown P canc =
     bindA (liftA canc) (\<lambda>_.
     thenA (updA (\<lambda>v. v\<lparr>se_canc2 := True\<rparr>))
     (thenA (updA (\<lambda>v. if se_server v then v\<lparr>se_down := True\<rparr> else v))
     (bindA (liftA (handle_plain P SetStop)) (\<lambda>r. updA (\<lambda>v. v\<lparr>se_sent := se_sent v @ [r]\<rparr>)))))"

text \<open>
  \<^verbatim>\<open>runServer\<close> up to the value of the promise, and its wait, which returns when the server was shut down.
\<close>

definition runServer :: "bool \<Rightarrow> Server \<Rightarrow> bool \<times> Server" where
  "runServer started v = (started, v\<lparr>se_server := started\<rparr>)"

definition runServer_wait :: "Server \<Rightarrow> unit option" where
  "runServer_wait v = (if se_server v \<and> \<not> se_down v then None else Some ())"

text \<open>\<^verbatim>\<open>Run\<close>: the endpoints in use, and whether the server has started.\<close>

definition Service_Run :: "Endpoints \<Rightarrow> bool \<Rightarrow> WorkerServiceImpl \<Rightarrow> Server \<Rightarrow>
    (Endpoints \<times> bool) \<times> WorkerServiceImpl \<times> Server" where
  "Service_Run endp started s v =
     (case applyArgsEndpoints endp (sv_worker s) of
        (retEndp, w) \<Rightarrow>
          (case runServer started v of (ok, v') \<Rightarrow> ((retEndp, ok), s\<lparr>sv_worker := w\<rparr>, v')))"

text \<open>
  The destructor asks the thread to end and waits for both threads. An exception of one of them ends the process. Then the
  members are destroyed, the last declared first: the future of a session before the worker.
  \<open>client\<close> and \<open>events\<close> are the outcomes of the threads, \<open>fut\<close> is how the session has ended.
\<close>

definition Service_delete :: "env \<Rightarrow> ((bool \<times> Part list) result \<times> WorkerServiceImpl) option \<Rightarrow>
    (bool \<times> Part list) result \<Rightarrow> unit result option \<Rightarrow> recv_result \<Rightarrow> unit result option" where
  "Service_delete P client events fut cmpl =
     (case handle_plain P Cancel of
        Inl _ \<Rightarrow> Some (Inl (Abort ''exception in a noexcept function''))
      | Inr _ \<Rightarrow>
          (case client of
             None \<Rightarrow> None
           | Some (Inl _, _) \<Rightarrow> Some (Inl (Abort ''exception in a noexcept function''))
           | Some (Inr (False, _), _) \<Rightarrow> None
           | Some (Inr (True, _), s) \<Rightarrow>
               (case events of
                  Inl _ \<Rightarrow> Some (Inl (Abort ''exception in a noexcept function''))
                | Inr (False, _) \<Rightarrow> None
                | Inr (True, _) \<Rightarrow>
                    if sv_active s \<and> fut = None then None
                    else Some (fst (Runner_delete P cmpl (sv_worker s))))))"

section \<open>The sockets of the service\<close>

definition service_sids :: "sid set" where
  "service_sids = {zrpcClient, zrpcServer, zrpcEvents, zcanc1_trigger, zcanc1, zcanc2_trigger, zcanc2}"

definition service_names :: "string list" where
  "service_names = [''WorkerServiceImpl_canc1'', ''WorkerServiceImpl_canc2'', ''rpc-events'', ''rpc-worker'']"

text \<open>On a library that answers as documented the sockets of the constructor open.\<close>

lemma service_wired:
  assumes lib: "inproc_ok lib" and w: "poll_inv w" and new: "\<forall>s\<in>service_sids. \<not> isOpen w s \<and> zs_observers (zw_socks w s) = []"
    and names: "\<forall>nm\<in>set service_names. \<not> bound lib (zw_calls w) (inproc nm)"
  shows "\<exists>w'. Service_construct lib w = (Inr (), w') \<and> (\<forall>s\<in>service_sids. isOpen w' s) \<and>
    (\<forall>s. isOpen w s \<longrightarrow> isOpen w' s)"
proof -
  define w1 where "w1 = upd_sock zrpcEvents (\<lambda>_. ZSocket_new RADIO) (upd_sock zrpcServer (\<lambda>_. ZSocket_new SERVER)
    (upd_sock zrpcClient (\<lambda>_. ZSocket_new CLIENT) w))"
  let ?S = "{s. isOpen w s}" and ?E = "\<lambda>s. zs_endpoints (zw_socks w1 s)" and ?B = "{e. bound lib (zw_calls w) e}"
  have inv: "poll_inv w1" unfolding w1_def
    by (rule poll_inv_cong [OF w]) (use new in \<open>auto simp: service_sids_def upd_sock_def ZSocket_new_def isOpen_def\<close>)
  have r1: "ready lib ?S ?E ?B w1"
    using inv new unfolding ready_def by (auto simp: w1_def service_sids_def upd_sock_def isOpen_def ZSocket_new_def split: if_splits)
  have o1: "zs_observers (zw_socks w1 s) = []" if "s \<in> service_sids" for s
    using new that by (auto simp: w1_def upd_sock_def ZSocket_new_def)
  have in_s: "zcanc1_trigger \<in> service_sids" "zcanc1 \<in> service_sids" "zcanc2_trigger \<in> service_sids" "zcanc2 \<in> service_sids"
    by (simp_all add: service_sids_def)
  obtain w2 E2 where 2: "Cancellation_wire lib ''WorkerServiceImpl_canc1'' zcanc1_trigger zcanc1 w1 = (Inr (), w2)"
      "ready lib (insert zcanc1_trigger (insert zcanc1 ?S)) E2 (insert (inproc ''WorkerServiceImpl_canc1'') ?B) w2"
      "\<forall>s. s \<noteq> zcanc1_trigger \<and> s \<noteq> zcanc1 \<longrightarrow> zw_socks w2 s = zw_socks w1 s"
    using cancellation_succeeds [OF lib r1, of zcanc1_trigger zcanc1 "''WorkerServiceImpl_canc1''"] new names o1 in_s
    by (auto simp: rpc_sids service_names_def)
  have o2: "zs_observers (zw_socks w2 zcanc2_trigger) = []" "zs_observers (zw_socks w2 zcanc2) = []"
    using 2(3) o1 in_s by (simp_all add: rpc_sids)
  obtain w3 E3 where 3: "Cancellation_wire lib ''WorkerServiceImpl_canc2'' zcanc2_trigger zcanc2 w2 = (Inr (), w3)"
      "ready lib (insert zcanc2_trigger (insert zcanc2 (insert zcanc1_trigger (insert zcanc1 ?S)))) E3
        (insert (inproc ''WorkerServiceImpl_canc2'') (insert (inproc ''WorkerServiceImpl_canc1'') ?B)) w3"
    using cancellation_succeeds [OF lib 2(2), of zcanc2_trigger zcanc2 "''WorkerServiceImpl_canc2''"] new names o2 in_s
    by (auto simp: rpc_sids service_names_def inproc_inj)
  have "\<exists>E' B'. succ (ready lib (insert zcanc2_trigger (insert zcanc2 (insert zcanc1_trigger (insert zcanc1 ?S)))) E3
        (insert (inproc ''WorkerServiceImpl_canc2'') (insert (inproc ''WorkerServiceImpl_canc1'') ?B)))
      (Service_wire lib) (ready lib (insert zrpcClient (insert zrpcServer (insert zrpcEvents
        (insert zcanc2_trigger (insert zcanc2 (insert zcanc1_trigger (insert zcanc1 ?S))))))) E' B')"
    unfolding Service_wire_def
    apply (intro exI)
    apply (rule succ_seq ready_setters ready_bind [OF lib] ready_connect [OF lib] succ_nil |
       (use new names in \<open>simp add: rpc_sids inproc_inj service_sids_def service_names_def\<close>; fail))+
    done
  then obtain E4 B4 where 4: "succ (ready lib (insert zcanc2_trigger (insert zcanc2 (insert zcanc1_trigger (insert zcanc1 ?S)))) E3
        (insert (inproc ''WorkerServiceImpl_canc2'') (insert (inproc ''WorkerServiceImpl_canc1'') ?B)))
      (Service_wire lib) (ready lib (service_sids \<union> ?S) E4 B4)"
    by (auto simp: service_sids_def insert_commute)
  obtain u w4 where 5: "Service_wire lib w3 = (Inr u, w4)" "ready lib (service_sids \<union> ?S) E4 B4 w4" using succD [OF 4 3(2)] by blast
  have "thenA (Service_members lib) (Service_wire lib) w = (Inr (), w4)"
    using 2(1) 3(1) 5(1) unfolding w1_def
    by (simp add: Service_members_def seqA_def setS_def thenA_def bindA_def updA_def retA_def)
  then show ?thesis using 5(2) by (simp add: ready_def Service_construct_def guardA_def)
qed

section \<open>The loops\<close>

text \<open>How the poller groups what is ready makes no difference.\<close>

lemma client_batch_append:
  "client_batch P B (ws @ ws') s =
    (case client_batch P B ws s of
       None \<Rightarrow> None
     | Some (Inl e, s') \<Rightarrow> Some (Inl e, s')
     | Some (Inr (fin, qs), s') \<Rightarrow>
         if fin then Some (Inr (True, qs), s')
         else andThen (client_batch P B ws') (\<lambda>(fin', qs'). giveS (fin', qs @ qs')) s')"
proof (induction P B ws arbitrary: s rule: client_batch.induct)
  case (1 P B)
  then show ?case by (auto simp: giveS_def andThen_def split: option.split sum.split)
next
  case (2 P B ws)
  then show ?case by (simp add: giveS_def)
next
  case (3 P B A ws)
  then show ?case by (auto simp: andThen_def split: option.split sum.split)
next
  case (4 P B e ws)
  then show ?case by simp
next
  case (5 P B A r ans ws)
  then show ?case by (auto simp: andThen_def giveS_def split: option.split sum.split)
qed

lemma client_loop_concat: "client_loop P B (map Inr bs) = client_batch P B (concat bs)"
proof (induction bs)
  case (Cons b bs)
  have "client_loop P B (map Inr (b # bs)) s = client_batch P B (concat (b # bs)) s" for s
    using Cons by (auto simp: client_batch_append andThen_def giveS_def split: option.split sum.split)
  then show ?case by blast
qed simp

text \<open>The thread of events publishes what it waited for, one part for each turn, until it sees the cancellation.\<close>

lemma events_loop_publishes:
  assumes "\<forall>t\<in>set (ts1 @ [t]). et_sent t = Inr ()" and "map et_event (ts1 @ [t]) = map Inr evs"
    and "\<forall>t\<in>set ts1. et_canc t = Inr False" and "et_canc t = Inr True" and "map (runEvents_part P) evs = map Inr ps"
  shows "runEvents P (Inr ()) (ts1 @ t # ts2) = Inr (True, ps)"
  using assms
proof (induction ts1 arbitrary: evs ps)
  case Nil
  then show ?case by (auto simp: runEvents_def)
next
  case (Cons u ts1)
  then obtain ev evs' p ps' where e: "evs = ev # evs'" "ps = p # ps'" "map et_event (ts1 @ [t]) = map Inr evs'"
    "map (runEvents_part P) evs' = map Inr ps'" by auto
  then show ?case using Cons.IH [OF _ e(3) _ Cons.prems(4) e(4)] Cons.prems by (auto simp: runEvents_def)
qed

text \<open>The request a message holds.\<close>

definition rpc_of :: "env \<Rightarrow> Part \<Rightarrow> RPC option" where
  "rpc_of P r =
     (case unpack (en_mem P) (en_arch P) [TUInt8, TPart] (pt_data r) of
        Inr [FUInt8 rpc, FPart pay] \<Rightarrow> if unat rpc < length RPCs then Some (RPCs ! unat rpc) else None
      | _ \<Rightarrow> None)"

lemma rpc_of_plain:
  assumes "allocator_ok (en_mem P)" and "handle_plain P ty = Inr m" and "pt_data r = pt_data m"
  shows "rpc_of P r = Some ty"
proof -
  have "en_mem P 0 \<noteq> None" using assms(1) [unfolded allocator_ok_def, rule_format, of 0] by (auto split: option.splits)
  then have "unpack (en_mem P) (en_arch P) [TUInt8, TPart] (pt_data r) = Inr [FUInt8 (enum_int RPCs ty), FPart []]"
    using unpack_pack_gen [of "en_mem P" "[FUInt8 (enum_int RPCs ty), FPart []]" "en_arch P" m "en_mem P" "en_arch P"]
      assms by (simp add: handle_plain_def sendRPC_def field_alloc_def zmq_msg_init_def)
  then show ?thesis by (simp add: rpc_of_def)
qed

text \<open>Only a start makes the future of a session valid, and a stop that was served leaves it invalid.\<close>

lemma serve_active:
  assumes "serveRPC P B A ty pay s = Some (x, s')" and "ty \<noteq> SetStart" and "sv_active s'"
  shows "sv_active s"
  using assms by (cases ty) (auto simp: serveRPC_def on_worker_def andThen_def giveS_def serveStop_def waitForResult_def
      split: prod.splits option.splits sum.splits if_splits fault.splits)

lemma stop_inactive:
  assumes "serveRPC P B A SetStop pay s = Some (Inr x, s')"
  shows "\<not> sv_active s'"
  using assms by (auto simp: serveRPC_def on_worker_def andThen_def giveS_def serveStop_def waitForResult_def
      split: prod.splits option.splits sum.splits if_splits fault.splits)

lemma request_cases:
  assumes "runClient_request P B A r s = Some (x, s')"
  obtains (none) "s' = s" "rpc_of P r = None" | (serve) ty pay y where "rpc_of P r = Some ty" "serveRPC P B A ty pay s = Some (y, s')"
    "\<And>v. x = Inr v \<Longrightarrow> \<exists>u. y = Inr u"
proof (cases "\<exists>rpc pay. unpack (en_mem P) (en_arch P) [TUInt8, TPart] (pt_data r) = Inr [FUInt8 rpc, FPart pay] \<and> unat rpc < length RPCs")
  case True
  then obtain rpc pay where u: "unpack (en_mem P) (en_arch P) [TUInt8, TPart] (pt_data r) = Inr [FUInt8 rpc, FPart pay]"
    "unat rpc < length RPCs" by blast
  let ?serve = "serveRPC P B A (RPCs ! unat rpc) (zmq_msg_init\<lparr>pt_data := pay\<rparr>) s"
  have "rpc_of P r = Some (RPCs ! unat rpc)" using u by (simp add: rpc_of_def)
  moreover obtain y where "?serve = Some (y, s')" "\<And>v. x = Inr v \<Longrightarrow> \<exists>u. y = Inr u"
    using assms u by (cases ?serve) (auto simp: runClient_request_def andThen_def giveS_def split: sum.splits if_splits)
  ultimately show ?thesis by (rule serve)
next
  case False
  then have "rpc_of P r = None" by (auto simp: rpc_of_def split: sum.splits list.splits field.splits)
  moreover have "s' = s" using assms False
    by (auto simp: runClient_request_def andThen_def giveS_def split: sum.splits list.splits field.splits if_splits)
  ultimately show ?thesis by (rule none [rotated])
qed

lemma request_active:
  assumes "runClient_request P B A r s = Some (x, s')" and "rpc_of P r \<noteq> Some SetStart" and "sv_active s'"
  shows "sv_active s"
  using assms(1)
proof (cases rule: request_cases)
  case (serve ty pay y)
  then show ?thesis using serve_active [OF serve(2)] assms(2,3) by auto
qed (use assms(3) in simp)

lemma request_stops:
  assumes "runClient_request P B A r s = Some (Inr x, s')" and "rpc_of P r = Some SetStop"
  shows "\<not> sv_active s'"
  using assms(1)
proof (cases rule: request_cases)
  case (serve ty pay y)
  have ty: "ty = SetStop" using serve(1) assms(2) by simp
  obtain u where "y = Inr u" using serve(3) [OF refl] by (elim exE)
  then show ?thesis using serve(2) unfolding ty by (intro stop_inactive) simp
qed (use assms(2) in simp)

lemma batch_active:
  assumes "client_batch P B ws s = Some (Inr (fin, qs), s')" and "sv_active s'"
    and "\<forall>A r ans. WakeRequest A r ans \<in> set ws \<longrightarrow> rpc_of P r \<noteq> Some SetStart"
  shows "sv_active s"
  using assms
proof (induction P B ws arbitrary: s fin qs rule: client_batch.induct)
  case (3 P B A ws)
  then obtain s1 where 1: "runClient_monitor A s = Some (Inr (), s1)" "client_batch P B ws s1 = Some (Inr (fin, qs), s')"
    by (auto simp: andThen_def split: option.splits sum.splits)
  have "sv_active s1" using "3.IH" [OF 1(2) "3.prems"(2)] "3.prems"(3) by auto
  then show ?case using 1(1) by (auto simp: runClient_monitor_def waitForResult_def split: option.splits prod.splits if_splits sum.splits fault.splits)
next
  case (5 P B A r ans ws)
  then obtain x s1 where 1: "runClient_request P B A r s = Some (Inr x, s1)" by (auto simp: andThen_def split: option.splits sum.splits)
  then obtain qs' where 2: "client_batch P B ws s1 = Some (Inr (fin, qs'), s')"
    using "5.prems"(1) by (cases x) (auto simp: andThen_def giveS_def split: option.splits sum.splits)
  have "sv_active s1" using "5.IH"(1) [OF 2 "5.prems"(2)] "5.prems"(3) by auto
  then show ?case using request_active [OF 1] "5.prems"(3) by simp
qed (auto simp: giveS_def)

text \<open>The loop is left at the cancellation only.\<close>

lemma batch_left: "client_batch P B ws s = Some (Inr (True, qs), s') \<Longrightarrow> WakeCanc \<in> set ws"
proof (induction P B ws arbitrary: s qs rule: client_batch.induct)
  case (5 P B A r ans ws)
  obtain s1 qs' where "client_batch P B ws s1 = Some (Inr (True, qs'), s')"
    using "5.prems" by (auto simp: andThen_def giveS_def split: option.splits sum.splits prod.splits)
  then show ?case using "5.IH"(1) by simp
next
  case (3 P B A ws)
  then show ?case by (auto simp: andThen_def split: option.splits sum.splits prod.splits)
qed (auto simp: giveS_def)

section \<open>Properties\<close>

definition sample_turn :: events_turn where
  "sample_turn = \<lparr>et_event = Inr Event_timeout, et_sent = Inr (), et_canc = Inr True\<rparr>"

lemma sample_events: "\<exists>q. runEvents sample_env (Inr ()) [sample_turn] = Inr (True, [q])"
  using runEvents_returns [of Event_timeout] by (auto simp: runEvents_def sample_turn_def Event_timeout_def zmq_msg_init_def)

lemma sample_plain: "\<exists>m. handle_plain sample_env ty = Inr m"
  using sendRPC_returns [of zmq_msg_init ty] by (simp add: handle_plain_def zmq_msg_init_def)

lemma sample_idle: "Runner_isRunning sample_env NoMessage w = (Inr (rn_running w), w)"
  by (simp add: Runner_isRunning_eq)



text \<open>Without a shutdown the destructor of a service whose worker runs never returns. It ends the thread that could
  stop the worker, and the future of the session is destroyed, which waits for it, before the worker, whose
  destructor would tell the session to stop: no number of steps of the session ends the wait.\<close>

theorem service_delete_hangs:
  assumes "handle_plain P Cancel = Inr m" and "runClient P B (Inr ()) (map Inr bs) s = Some (Inr (True, qs), s')" and "sv_active s'"
    and "runEvents P (Inr ()) ts = Inr (True, ps)"
    and "sy_sessions y \<noteq> []" and "no_stop P y" and "session_steps P (range (Worker_prepareConfiguration P)) y y'"
  shows "Service_delete P (runClient P B (Inr ()) (map Inr bs) s) (runEvents P (Inr ()) ts)
    (session_result y') (fin_answer (sy_fin y')) = None"
  using no_stop_steps [OF assms(7,6)] assms(1-5) by (simp add: Service_delete_def session_result_def)

theorem service_delete_hangs_witness:
  "\<exists>m s' y. handle_plain sample_env SetStart = Inr m \<and>
    runClient sample_env sample_proto (Inr ()) (map Inr [[WakeRequest sample_answers (m\<lparr>pt_routing := 5\<rparr>) (Inr ())], [WakeCanc]])
      (sample_service\<lparr>sv_worker := sample_app\<rparr>) = Some (Inr (True, []), s') \<and>
    sys_run sample_env (range (Worker_prepareConfiguration sample_env)) [LStart] y \<and>
    Service_delete sample_env (Some (Inr (True, []), s')) (runEvents sample_env (Inr ()) [sample_turn])
      (session_result y) (fin_answer (sy_fin y)) = None"
proof -
  obtain m k where m: "handle_plain sample_env SetStart = Inr m" and k: "handle_plain sample_env Cancel = Inr k"
    using sample_plain by blast
  let ?r = "m\<lparr>pt_routing := 5\<rparr>" and ?s = "sample_service\<lparr>sv_worker := sample_app\<rparr>"
  let ?bs = "[[WakeRequest sample_answers ?r (Inr ())], [WakeCanc]]"
  obtain w where w: "Worker_start sample_env NoMessage NoMessage (Inr ()) sample_app = Some (Inr SessionFuture, w)"
    using sample_app_starts by (metis Worker_start_def)
  have "runClient_request sample_env sample_proto sample_answers ?r ?s = Some (Inr None, ?s\<lparr>sv_worker := w, sv_active := True\<rparr>)"
    using plain_request [of sample_env SetStart m ?r sample_proto sample_answers ?s] m w
    by (simp add: serveRPC_def serveStart_def andThen_def on_worker_def giveS_def sample_answers_def sample_idle)
  then have run: "runClient sample_env sample_proto (Inr ()) (map Inr ?bs) ?s =
      Some (Inr (True, []), ?s\<lparr>sv_worker := w, sv_active := True\<rparr>)"
    by (simp add: runClient_def andThen_def giveS_def)
  obtain q where ev: "runEvents sample_env (Inr ()) [sample_turn] = Inr (True, [q])" using sample_events by blast
  obtain y t p oper where y: "sys_run sample_env (range (Worker_prepareConfiguration sample_env)) [LStart] y"
    "sy_sessions y = [1]" "sy_read y = 0" "sy_ops y = [(t, p)]" "recvOperation sample_env 1 t p = Inr oper" "op_type oper = OpStart"
    by (rule sample_app_run)
  then have "no_stop sample_env y" by (simp add: no_stop_def)
  moreover have "session_steps sample_env (range (Worker_prepareConfiguration sample_env)) y y" by (simp add: session_steps_def)
  ultimately have "Service_delete sample_env (runClient sample_env sample_proto (Inr ()) (map Inr ?bs) ?s)
      (runEvents sample_env (Inr ()) [sample_turn]) (session_result y) (fin_answer (sy_fin y)) = None"
    using y(2) by (intro service_delete_hangs [OF k run _ ev]) simp_all
  then show ?thesis unfolding run using m run y(1) by blast
qed

end
