(* ===== verification/Fuurin_Support.thy ===== *)
theory Fuurin_Support
  imports Fuurin_Text Fuurin_Shutdown
begin

text \<open>
  What the other parts rest on: error objects and how the C bindings log them (\<^verbatim>\<open>src/errors.cpp\<close>,
  \<^verbatim>\<open>src/c/cutils.cpp\<close>), the formatting function (\<^verbatim>\<open>src/log.cpp\<close>), the generation of uuids (\<^verbatim>\<open>src/uuid.cpp\<close>,
  \<^verbatim>\<open>src/c/cuuid.cpp\<close>), the stopwatch (\<^verbatim>\<open>src/stopwatch.cpp\<close>), the names of the states of the machines, and the calls
  of the remote client (\<^verbatim>\<open>grpc/fuurin_cli_impl.cpp\<close>).
\<close>

section \<open>Errors\<close>

record Loc =
  lo_file :: "bytes option"
  lo_line :: nat

text \<open>An error holds a pointer to its text, null in an empty one, and a reference to its argument.\<close>

record Error =
  er_empty :: bool
  er_what :: "bytes option"
  er_loc :: Loc
  er_arg :: Arg

definition Error_default :: Error where
  "Error_default = \<lparr>er_empty = True, er_what = None, er_loc = \<lparr>lo_file = None, lo_line = 0\<rparr>, er_arg = Arg_invalid\<rparr>"

definition Error_new :: "Loc \<Rightarrow> bytes \<Rightarrow> Arg \<Rightarrow> heap \<Rightarrow> (Error \<times> heap) result" where
  "Error_new loc what arg h =
     bindR (refAcquire arg h) (\<lambda>h'. Inr (\<lparr>er_empty = False, er_what = Some what, er_loc = loc, er_arg = arg\<rparr>, h'))"

text \<open>Reading a string through a null pointer.\<close>

definition null_fault :: "'a result" where
  "null_fault = Inl (Abort ''null pointer'')"

definition c_string :: "bytes option \<Rightarrow> bytes result" where
  "c_string s = (case s of None \<Rightarrow> null_fault | Some b \<Rightarrow> Inr (c_str b))"

definition Error_print :: "printer \<Rightarrow> heap \<Rightarrow> nat \<Rightarrow> Error \<Rightarrow> bytes result option" where
  "Error_print R h n e =
     (if \<not> er_empty e
      then map_option (\<lambda>t. bindR (c_string (er_what e)) (\<lambda>w. bindR t (\<lambda>s. Inr (w @ s)))) (print_arg R h n (er_arg e))
      else Some (Inr []))"

section \<open>Logging of the C bindings\<close>

text \<open>What a handler of an exception can catch.\<close>

datatype exn = ExnError Error | ExnStd bytes | ExnOther

definition logError_view :: "bytes \<Rightarrow> Arg list" where
  "logError_view err = [Arg_view (str ''error'') err]"

definition logError_std :: "bytes \<Rightarrow> Arg list" where
  "logError_std what = logError_view (c_str what)"

definition logError_error :: "Error \<Rightarrow> Arg list result" where
  "logError_error e = bindR (c_string (er_what e)) (\<lambda>w. Inr [Arg_view (str ''error'') w, er_arg e])"

text \<open>The arguments that are logged, and logging them.\<close>

definition logError_args :: "exn \<Rightarrow> Arg list result" where
  "logError_args x =
     (case x of
        ExnError e \<Rightarrow> logError_error e
      | ExnStd what \<Rightarrow> Inr (logError_std what)
      | ExnOther \<Rightarrow> Inr (logError_view (str ''unknown'')))"

definition logError :: "printer \<Rightarrow> heap \<Rightarrow> nat \<Rightarrow> Handler \<Rightarrow> exn \<Rightarrow> ((stream \<times> bytes) list \<times> unit result) result option" where
  "logError R h n hnd x =
     (case logError_args x of Inl e \<Rightarrow> Some (Inl e) | Inr xs \<Rightarrow> Logger_log R h n hnd Err xs)"

section \<open>Formatting\<close>

text \<open>
  The C function is called twice, for the length and to write into a string of that length: \<open>vsnprintf\<close> gives for the
  size of a buffer what it returns and what it writes, with the null byte at the end.
\<close>

definition overwrite :: "bytes \<Rightarrow> bytes \<Rightarrow> bytes" where
  "overwrite buf s = s @ drop (length s) buf"

definition format :: "(nat \<Rightarrow> int \<times> bytes) \<Rightarrow> bytes result" where
  "format vsnprintf =
     (let sz = fst (vsnprintf 0) in
      if sz < 0 then Inr []
      else let buf = replicate (nat sz + 1) 0; written = snd (vsnprintf (nat sz + 1)) in
        if length written > length buf then null_fault
        else Inr (take (nat sz) (overwrite buf written)))"

text \<open>What the C standard says about a text that is printed.\<close>

definition snprintf_of :: "bytes \<Rightarrow> nat \<Rightarrow> int \<times> bytes" where
  "snprintf_of s n = (int (length s), if n = 0 then [] else take (n - 1) s @ [0])"

lemma format_exact: "format (snprintf_of s) = Inr s"
  by (simp add: format_def snprintf_of_def overwrite_def)

section \<open>Uuid\<close>

text \<open>
  Bytes are copied to and from the object of the library. \<open>rand\<close>, \<open>sha1\<close> and \<open>parse\<close> are its generators: at random, by
  namespace and name, and from a text.
\<close>

definition uuidFromBytes :: "bytes \<Rightarrow> bytes" where
  "uuidFromBytes b = take 16 b"

definition bytesFromUuid :: "bytes \<Rightarrow> bytes" where
  "bytesFromUuid u = take 16 u"

definition createRandomUuid :: "bytes \<Rightarrow> bytes \<Rightarrow> Uuid" where
  "createRandomUuid junk rand = Uuid_fromBytes junk (bytesFromUuid rand)"

definition createNamespaceUuid :: "(bytes \<Rightarrow> bytes \<Rightarrow> bytes) \<Rightarrow> bytes \<Rightarrow> Uuid \<Rightarrow> bytes \<Rightarrow> Uuid" where
  "createNamespaceUuid sha1 junk ns name = Uuid_fromBytes junk (bytesFromUuid (sha1 (uuidFromBytes (uu_bytes ns)) name))"

datatype Ns = Dns | Url | Oid | X500dn

fun Ns_text :: "Ns \<Rightarrow> bytes" where
  "Ns_text Dns = str ''6ba7b810-9dad-11d1-80b4-00c04fd430c8''"
| "Ns_text Url = str ''6ba7b811-9dad-11d1-80b4-00c04fd430c8''"
| "Ns_text Oid = str ''6ba7b812-9dad-11d1-80b4-00c04fd430c8''"
| "Ns_text X500dn = str ''6ba7b814-9dad-11d1-80b4-00c04fd430c8''"

definition Ns_uuid :: "(bytes \<Rightarrow> bytes result) \<Rightarrow> bytes \<Rightarrow> Ns \<Rightarrow> Uuid result" where
  "Ns_uuid parse junk n = Uuid_fromString parse junk (Ns_text n)"

definition Uuid_copy :: "Uuid \<Rightarrow> Uuid \<Rightarrow> Uuid" where
  "Uuid_copy other new = Uuid_assign other new"

definition Uuid_eq :: "Uuid \<Rightarrow> Uuid \<Rightarrow> bool" where
  "Uuid_eq a b \<longleftrightarrow> uu_bytes a = uu_bytes b"

definition Uuid_hash :: "(bytes \<Rightarrow> u64) \<Rightarrow> Uuid \<Rightarrow> u64" where
  "Uuid_hash hsh u = hsh (uu_bytes u)"

definition Uuid_print :: "(bytes \<Rightarrow> bytes) \<Rightarrow> Uuid \<Rightarrow> bytes" where
  "Uuid_print text u = text (uuidFromBytes (uu_bytes u))"

definition CUuid_createNullUuid :: "bytes \<Rightarrow> CUuid" where
  "CUuid_createNullUuid junk = uuidConvert (uu_bytes (Uuid_new junk))"

definition CUuid_createRandomUuid :: "bytes \<Rightarrow> bytes \<Rightarrow> CUuid" where
  "CUuid_createRandomUuid junk rand = uuidConvert (uu_bytes (createRandomUuid junk rand))"

text \<open>The four functions for a namespace; a name is read up to its first null byte.\<close>

definition CUuid_createNsUuid :: "(bytes \<Rightarrow> bytes \<Rightarrow> bytes) \<Rightarrow> bytes \<Rightarrow> Uuid \<Rightarrow> bytes \<Rightarrow> CUuid" where
  "CUuid_createNsUuid sha1 junk ns name = uuidConvert (uu_bytes (createNamespaceUuid sha1 junk ns (c_str name)))"

section \<open>Stopwatch\<close>

text \<open>The steady clock counts nanoseconds; the cast to milliseconds rounds towards zero.\<close>

record StopWatch =
  sw_t0 :: int

definition sw_start :: "int \<Rightarrow> StopWatch \<Rightarrow> StopWatch" where
  "sw_start now w = w\<lparr>sw_t0 := now\<rparr>"

definition StopWatch_new :: "int \<Rightarrow> StopWatch" where
  "StopWatch_new now = sw_start now \<lparr>sw_t0 = 0\<rparr>"

definition duration_millis :: "int \<Rightarrow> int" where
  "duration_millis ns = sgn ns * (\<bar>ns\<bar> div 1000000)"

definition sw_elapsed :: "int \<Rightarrow> StopWatch \<Rightarrow> int" where
  "sw_elapsed now w = duration_millis (now - sw_t0 w)"

section \<open>Names\<close>

fun sync_state_print :: "sync_state \<Rightarrow> bytes" where
  "sync_state_print SyHalted = str ''halted''"
| "sync_state_print SyDownload = str ''download''"
| "sync_state_print SyFailed = str ''failed''"
| "sync_state_print SySynced = str ''synced''"

fun reply_type_print :: "reply_type \<Rightarrow> bytes" where
  "reply_type_print Snapshot = str ''snapshot''"
| "reply_type_print Complete = str ''complete''"

fun reply_result_print :: "reply_result \<Rightarrow> bytes" where
  "reply_result_print Unexpected = str ''unexpected''"
| "reply_result_print Discarded = str ''discarded''"
| "reply_result_print Accepted = str ''accepted''"

fun conn_state_print :: "conn_state \<Rightarrow> bytes" where
  "conn_state_print Halted = str ''halted''"
| "conn_state_print Trying = str ''trying''"
| "conn_state_print Stable = str ''stable''"

section \<open>The remote client\<close>

text \<open>
  A call of the generated stub gives a status and a message. Of a stream of topics the messages are written until a write fails.
\<close>

definition WorkerCli_get :: "grpc_status \<times> 'm \<Rightarrow> 'm option" where
  "WorkerCli_get res = (if fst res = StatusOK then Some (snd res) else None)"

definition WorkerCli_SetEndpoints :: "(EndpointsMsg \<Rightarrow> grpc_status) \<Rightarrow> bytes list \<Rightarrow> bytes list \<Rightarrow> bytes list \<Rightarrow> bool" where
  "WorkerCli_SetEndpoints stub dl dp sn \<longleftrightarrow> stub (cli_endpoints dl dp sn) = StatusOK"

definition WorkerCli_SetSubscriptions :: "(SubscriptionsMsg \<Rightarrow> grpc_status) \<Rightarrow> bool \<Rightarrow> bytes list \<Rightarrow> bool" where
  "WorkerCli_SetSubscriptions stub wildcard names \<longleftrightarrow> stub (cli_subscriptions wildcard names) = StatusOK"

definition WorkerCli_plain :: "grpc_status \<Rightarrow> bool" where
  "WorkerCli_plain status \<longleftrightarrow> status = StatusOK"

fun cli_writes :: "bool list \<Rightarrow> 'm list \<Rightarrow> 'm list" where
  "cli_writes (True # oks) (m # ms) = m # cli_writes oks ms"
| "cli_writes _ _ = []"

definition WorkerCli_Dispatch :: "bool list \<Rightarrow> grpc_status \<Rightarrow> (bytes \<times> bytes) list \<Rightarrow> int \<Rightarrow> TopicMsg list \<times> bool" where
  "WorkerCli_Dispatch oks status stream ty = (cli_writes oks (cli_dispatch stream ty), status = StatusOK)"

section \<open>Properties\<close>

text \<open>The names of the states and results are told apart by their text.\<close>

lemma state_names_distinct:
  "sync_state_print a = sync_state_print b \<longleftrightarrow> a = b" "reply_type_print c = reply_type_print d \<longleftrightarrow> c = d"
  "reply_result_print e = reply_result_print f \<longleftrightarrow> e = f" "conn_state_print g = conn_state_print i \<longleftrightarrow> g = i"
proof -
  show "sync_state_print a = sync_state_print b \<longleftrightarrow> a = b" by (cases a; cases b; simp add: str_def)
  show "reply_type_print c = reply_type_print d \<longleftrightarrow> c = d" by (cases c; cases d; simp add: str_def)
  show "reply_result_print e = reply_result_print f \<longleftrightarrow> e = f" by (cases e; cases f; simp add: str_def)
  show "conn_state_print g = conn_state_print i \<longleftrightarrow> g = i" by (cases g; cases i; simp add: str_def)
qed

text \<open>A stopwatch never shows more than the time that has passed, and less by under a millisecond only.\<close>

lemma stopwatch_exact:
  assumes "sw_t0 w \<le> now"
  shows "0 \<le> sw_elapsed now w" and "1000000 * sw_elapsed now w \<le> now - sw_t0 w"
    and "now - sw_t0 w < 1000000 * (sw_elapsed now w + 1)"
proof -
  have e: "sw_elapsed now w = (now - sw_t0 w) div 1000000"
    using assms by (cases "now = sw_t0 w") (simp_all add: sw_elapsed_def duration_millis_def)
  show "0 \<le> sw_elapsed now w" using assms by (simp add: e pos_imp_zdiv_nonneg_iff)
  show "1000000 * sw_elapsed now w \<le> now - sw_t0 w" "now - sw_t0 w < 1000000 * (sw_elapsed now w + 1)"
    using pos_mod_sign [of 1000000 "now - sw_t0 w"] pos_mod_bound [of 1000000 "now - sw_t0 w"]
      mult_div_mod_eq [of 1000000 "now - sw_t0 w"] unfolding e distrib_left by simp_all
qed

text \<open>A copy of a uuid is equal to it, has the same hash and prints the same text, cached or not.\<close>

lemma uuid_copy:
  "Uuid_eq (Uuid_copy u v) u" "Uuid_hash hsh (Uuid_copy u v) = Uuid_hash hsh u" "Uuid_print text (Uuid_copy u v) = Uuid_print text u"
  by (simp_all add: Uuid_copy_def Uuid_assign_def Uuid_eq_def Uuid_hash_def Uuid_print_def)

text \<open>The C bindings give the uuids of the library, as long as a name has no null byte.\<close>

lemma c_uuid:
  "uuidConvert_back (CUuid_createNullUuid junk) = Uuid_null"
  "uuidConvert_back (CUuid_createRandomUuid junk rand) = uu_bytes (createRandomUuid junk rand)"
  "c_str name = name \<Longrightarrow> uuidConvert_back (CUuid_createNsUuid sha1 junk ns name) = uu_bytes (createNamespaceUuid sha1 junk ns name)"
  by (simp_all add: uuidConvert_back_def uuidConvert_def CUuid_createNullUuid_def Uuid_new_def Uuid_null_def
    CUuid_createRandomUuid_def createRandomUuid_def CUuid_createNsUuid_def createNamespaceUuid_def Uuid_fromBytes_def bytesFromUuid_def)

text \<open>A stream of topics reaches the service as a prefix, the whole of it when no write fails.\<close>

lemma cli_writes_prefix:
  "\<exists>rest. ms = cli_writes oks ms @ rest" "length oks = length ms \<Longrightarrow> list_all id oks \<Longrightarrow> cli_writes oks ms = ms"
  by (induction oks ms rule: cli_writes.induct) (auto simp: Cons_eq_append_conv)

lemma print_view: "0 < n \<Longrightarrow> print_arg R h n (Arg_view k v) = Some (Inr (printkey k @ v))"
  by (cases n) (simp_all add: Arg_view_def Arg_toString_def)

text \<open>Logging what was thrown returns and writes one line. The C bindings print the text of any exception, and the
  argument of an error of this library after it, however that argument was built and shared; only an error that was
  made empty, which has no text, is read through a null pointer.\<close>

theorem logError_logs:
  assumes "arg_reach st" and "\<forall>y\<in>set (live_args st) \<union> set (elems (st_heap st)). printable y"
    and "Error_new loc what arg h0 = Inr (e, st_heap st)" and "arg \<in> set (live_args st)" and "length (st_heap st) < n"
  shows "(\<exists>t. Error_print R (st_heap st) n e = Some (Inr (c_str what @ t)) \<and>
      logError R (st_heap st) n StandardHandler (ExnError e) =
        Some (Inr ([(Cerr, str ''error: '' @ c_str what @ str '', '' @ t @ [10])], Inr ()))) \<and>
    logError R (st_heap st) n StandardHandler (ExnStd what) =
      Some (Inr ([(Cerr, str ''error: '' @ c_str what @ [10])], Inr ())) \<and>
    logError R (st_heap st) n StandardHandler ExnOther = Some (Inr ([(Cerr, str ''error: unknown'' @ [10])], Inr ())) \<and>
    logError R (st_heap st) n hnd (ExnError Error_default) = Some null_fault"
proof -
  have n: "0 < n" using assms(5) by simp
  have e: "er_what e = Some what" "er_arg e = arg" "\<not> er_empty e" using assms(3) by (auto simp: Error_new_def)
  obtain line where "println R (st_heap st) n [arg] = Some (Inr line)"
    using log_returns [OF assms(1,2), of "[arg]" n R] assms(4,5) by auto
  then obtain t where t: "print_arg R (st_heap st) n arg = Some (Inr t)"
    by (cases "print_arg R (st_heap st) n arg") (auto simp: println_def split: if_splits)
  show ?thesis
    using t e by (simp add: logError_def logError_args_def logError_error_def logError_std_def logError_view_def c_string_def
      Error_print_def Error_default_def null_fault_def Logger_log_def println_def print_view [OF n] printkey_def str_def)
qed

definition sample_store :: store where
  "sample_store = \<lparr>st_vars = [Some (Arg_int (str ''n'') 7)], st_heap = []\<rparr>"

theorem logError_logs_witness:
  "\<exists>e. Error_new \<lparr>lo_file = None, lo_line = 3\<rparr> (str ''bad'') (Arg_int (str ''n'') 7) [] = Inr (e, []) \<and>
    logError \<lparr>pr_strerror = (\<lambda>_. []), pr_double = (\<lambda>_. [])\<rparr> [] 1 StandardHandler (ExnStd (str ''bad'')) =
      Some (Inr ([(Cerr, str ''error: bad'' @ [10])], Inr ())) \<and>
    (\<exists>t. logError \<lparr>pr_strerror = (\<lambda>_. []), pr_double = (\<lambda>_. [])\<rparr> [] 1 StandardHandler (ExnError e) =
      Some (Inr ([(Cerr, str ''error: bad, '' @ t @ [10])], Inr ())))"
proof -
  have reach: "arg_reach sample_store"
    by (rule arg_reach.step [OF arg_reach.init, of "MakePlain (Arg_int (str ''n'') 7)"])
      (auto simp: sample_store_def store_init_def)
  have pr: "\<forall>y\<in>set (live_args sample_store) \<union> set (elems (st_heap sample_store)). printable y"
    by (simp add: live_args_def sample_store_def elems_def Arg_int_def)
  obtain e where e: "Error_new \<lparr>lo_file = None, lo_line = 3\<rparr> (str ''bad'') (Arg_int (str ''n'') 7) [] = Inr (e, st_heap sample_store)"
    by (simp add: Error_new_def refAcquire_def heap_ref_def Arg_int_def sample_store_def)
  from logError_logs [OF reach pr e, of 1] e show ?thesis
    by (auto simp: live_args_def sample_store_def str_def c_str_def)
qed

end
