(* ===== verification/Fuurin_EndToEnd.thy ===== *)
theory Fuurin_EndToEnd
  imports Fuurin_CBindings Fuurin_Broker
begin

text \<open>
  A topic on its way through the system: from the call of an application, through the session of its
  worker, the broker and the session of another worker, to the application there. Each hop is one
  lemma; the theorem that joins them is in the root theory.
\<close>

section \<open>Hosts\<close>

text \<open>A host with memory, whose messages are taken.\<close>

definition host_ok :: "env \<Rightarrow> bool" where
  "host_ok P \<longleftrightarrow> allocator_ok (en_mem P) \<and> (\<forall>n. en_mem P n \<noteq> None) \<and> (\<forall>k. nt_send (en_net P) k = Sent)"

lemma host_okD:
  assumes "host_ok P"
  shows "allocator_ok (en_mem P)" "en_mem P n \<noteq> None" "nt_send (en_net P) k = Sent"
  using assms by (auto simp: host_ok_def)

definition same_wire :: "env \<Rightarrow> env \<Rightarrow> bool" where
  "same_wire P Q \<longleftrightarrow> wire_order (en_arch P) = wire_order (en_arch Q)"

definition short_topic :: "Topic \<Rightarrow> bool" where
  "short_topic t \<longleftrightarrow> topic_ok t \<and> length (pt_data (tp_data t)) < 2 ^ 30"

lemma short_topic_simps [simp]:
  "short_topic (topic_norm t) = short_topic t" "short_topic (withSeqNum n t) = short_topic t"
  "uuid_ok u \<Longrightarrow> short_topic t \<Longrightarrow> short_topic (withBroker u t)"
  by (auto simp: short_topic_def topic_ok_def topic_norm_def withSeqNum_def withBroker_def)

lemma topic_norm_simps [simp]:
  "topic_norm (topic_norm t) = topic_norm t" "topic_norm (withBroker u (topic_norm t)) = topic_norm (withBroker u t)"
  "tp_worker (topic_norm t) = tp_worker t" "tp_seqn (topic_norm t) = tp_seqn t" "tp_name (topic_norm t) = tp_name t"
  "tp_worker (withBroker u t) = tp_worker t" "tp_seqn (withBroker u t) = tp_seqn t" "tp_name (withBroker u t) = tp_name t"
  "tp_worker (withSeqNum n t) = tp_worker t" "tp_seqn (withSeqNum n t) = n"
  by (simp_all add: topic_norm_def withBroker_def withSeqNum_def)

text \<open>A packed topic is short, without group, and read by every host.\<close>

lemma topic_packs:
  assumes "host_ok P" and "short_topic t"
  obtains p where "Topic_toPart (en_mem P) (en_arch P) t = Inr p" "pt_group p = SGroup []" "length (pt_data p) < 2 ^ 31"
    "part_norm p = p"
proof -
  have ok: "topic_ok t" "length (pt_data (tp_data t)) < 2 ^ 30" using assms(2) by (auto simp: short_topic_def)
  have n: "length (Name_str (tp_name t)) \<le> 255" "uuid_ok (tp_broker t)" "uuid_ok (tp_worker t)"
    using ok(1) length_Name_str [of "tp_name t"] by (auto simp: topic_ok_def)
  have "length (fields_bytes (en_arch P) (topic_fields t)) < 2 ^ 31" "list_all field_short (topic_fields t)"
    using n ok(2) by (simp_all add: topic_fields_def uuid_ok_def)
  then show thesis
    using that pack_Inr_iff [OF host_okD(1) [OF assms(1)] topic_fields_ok [OF ok(1)], of "en_arch P"] host_okD(2) [OF assms(1)]
    by (simp add: Topic_toPart_fields zmq_msg_init_def part_norm_def)
qed

lemma topic_read:
  assumes "host_ok P" "host_ok Q" "same_wire P Q" "short_topic t"
    and "Topic_toPart (en_mem P) (en_arch P) t = Inr p" "pt_data q = pt_data p"
  shows "Topic_fromPart (en_mem Q) (en_arch Q) q = Inr (topic_norm t)"
proof -
  have "Topic_fromPart (en_mem Q) (en_arch Q) p = Inr (topic_norm t)"
    using Topic_fromPart_toPart [where mem' = "en_mem Q", OF host_okD(1) [OF assms(1)] _ _ host_okD(2) [OF assms(2)] assms(5)]
      assms(3,4) by (simp add: same_wire_def short_topic_def)
  then show ?thesis using Topic_fromPart_data [OF assms(6)] by simp
qed

lemma withGroup_ok:
  assumes "pt_group p = SGroup []" and "length (c_str g) \<le> 255"
  obtains q where "withGroup (Some g) p = Inr q" "zmq_msg_group q = c_str g" "group_ok q" "pt_data q = pt_data p"
  using setGroup_spec [OF assms(2), of p] assms(1) by (auto simp: withGroup_def)

section \<open>The broker\<close>

definition bs_sent :: "Part list \<Rightarrow> BrokerSession \<Rightarrow> BrokerSession" where
  "bs_sent ps s = s\<lparr>bs_io := (bs_io s)\<lparr>io_sends := io_sends (bs_io s) + length ps,
     io_sent := io_sent (bs_io s) @ map (Pair ChDispatch) ps\<rparr>\<rparr>"

lemma bs_send_ok:
  assumes "host_ok P" "sk_open (bs_zdispatch s)"
  shows "bs_send P ChDispatch p s = (Inr (int (length (pt_data p))), bs_sent [p] s)"
  using assms by (simp add: bs_send_def sendMessagePart_def bs_sent_def host_okD Let_def)

text \<open>A topic that is published, in the group of its name and in the one of every update.\<close>

lemma bs_dispatchTopic_ok:
  assumes P: "host_ok P" and opn: "sk_open (bs_zdispatch s)" and t: "short_topic t"
    and p: "Topic_toPart (en_mem P) (en_arch P) t = Inr p"
  obtains q1 q2 where "bs_dispatchTopic P t s = (Inr (), bs_sent [q1, q2] s)"
    "zmq_msg_group q1 = c_str (Name_str (tp_name t))" "zmq_msg_group q2 = BrokerUpdt"
    "pt_data q1 = pt_data p" "pt_data q2 = pt_data p" "group_ok q1" "group_ok q2"
proof -
  have grp: "pt_group p = SGroup []" using topic_packs [OF P t] p by auto
  have name: "name_ok (tp_name t)" using t by (simp add: short_topic_def topic_ok_def)
  have c: "c_str (nm_dd (tp_name t)) = c_str (Name_str (tp_name t))"
    using CTopic_name_str [OF name] by (simp add: CTopic_name_def)
  have l: "length (c_str (nm_dd (tp_name t))) \<le> 255"
    unfolding c using length_Name_str [OF name] by (simp add: c_str_def order_trans [OF length_takeWhile_le])
  obtain q1 where q1: "withGroup (Some (nm_dd (tp_name t))) p = Inr q1"
      "zmq_msg_group q1 = c_str (nm_dd (tp_name t))" "group_ok q1" "pt_data q1 = pt_data p"
    by (rule withGroup_ok [OF grp l])
  have u: "c_str BrokerUpdt = BrokerUpdt" "length (c_str BrokerUpdt) \<le> 255"
    by (simp_all add: session_env str_def c_str_def)
  obtain q2 where q2: "withGroup (Some BrokerUpdt) p = Inr q2"
      "zmq_msg_group q2 = c_str BrokerUpdt" "group_ok q2" "pt_data q2 = pt_data p"
    by (rule withGroup_ok [OF grp u(2)])
  have o: "sk_open (bs_zdispatch (bs_sent [q1] s))" using opn by (simp add: bs_sent_def)
  have "bs_dispatchTopic P t s = (Inr (), bs_sent [q2] (bs_sent [q1] s))"
    using p q1(1) q2(1) bs_send_ok [OF P opn] bs_send_ok [OF P o]
    by (simp add: bs_dispatchTopic_def thenA_def bindA_def liftA_def retA_def)
  moreover have "bs_sent [q2] (bs_sent [q1] s) = bs_sent [q1, q2] s" by (simp add: bs_sent_def)
  ultimately show thesis using that [of q1 q2] q1 q2 c u by simp
qed

lemma broker_hop:
  assumes P: "host_ok P" and up: "zmq_msg_group up = WorkerUpdt" "Topic_fromPart (en_mem P) (en_arch P) up = Inr t"
    and t: "short_topic t" and s: "sk_open (bs_zdispatch s)" "uuid_ok (bs_uuid s)" "bs_lastSeqNum s (tp_worker t) < tp_seqn t"
  obtains s' p q1 q2 where "bs_socketReady P (BDelivery up) s = (Inr (), s')"
    "io_sent (bs_io s') = io_sent (bs_io s) @ [(ChDispatch, q1), (ChDispatch, q2)]"
    "Topic_toPart (en_mem P) (en_arch P) (withBroker (bs_uuid s) t) = Inr p" "length (pt_data p) < 2 ^ 31"
    "pt_data q1 = pt_data p" "pt_data q2 = pt_data p" "group_ok q1" "group_ok q2"
    "zmq_msg_group q1 = c_str (Name_str (tp_name t))" "zmq_msg_group q2 = BrokerUpdt"
proof -
  let ?t = "withBroker (bs_uuid s) t"
  have short: "short_topic ?t" using t s(2) by simp
  obtain p where p: "Topic_toPart (en_mem P) (en_arch P) ?t = Inr p" "length (pt_data p) < 2 ^ 31"
    by (rule topic_packs [OF P short])
  obtain s1 where st: "bs_storeTopic ?t s = (True, s1)"
    using bs_storeTopic_fst [of ?t s] s(3) by (cases "bs_storeTopic ?t s") simp
  have keep: "bs_zdispatch s1 = bs_zdispatch s" "bs_io s1 = bs_io s"
    using st by (auto simp: bs_storeTopic_def Let_def split: prod.splits if_splits)
  then have opn: "sk_open (bs_zdispatch s1)" using s(1) by simp
  obtain q1 q2 where q: "bs_dispatchTopic P ?t s1 = (Inr (), bs_sent [q1, q2] s1)"
    "zmq_msg_group q1 = c_str (Name_str (tp_name ?t))" "zmq_msg_group q2 = BrokerUpdt"
    "pt_data q1 = pt_data p" "pt_data q2 = pt_data p" "group_ok q1" "group_ok q2"
    by (rule bs_dispatchTopic_ok [OF P opn short p(1)])
  have g: "\<not> group_is up WorkerHugz" "group_is up WorkerUpdt"
    using up(1) by (simp_all add: group_is_def session_env str_def c_str_def)
  have "bs_socketReady P (BDelivery up) s = (Inr (), bs_sent [q1, q2] s1)"
    using g up(2) st q(1)
    by (simp add: bs_collectWorkerMessage_def bindA_def liftA_def readA_def Let_def)
  then show thesis using that [of "bs_sent [q1, q2] s1" q1 q2 p] p q keep by (simp add: bs_sent_def)
qed

section \<open>The receiving worker\<close>

text \<open>
  A message in the group of every update, or in the one of a subscribed name, that is new: the event is
  sent last, and the application that waits for a topic gets it.
\<close>

lemma worker_hop:
  assumes P: "host_ok P" and up: "c_str (zmq_msg_group up) = BrokerUpdt \<or>
      (c_str (zmq_msg_group up) \<noteq> BrokerHugz \<and> lru_find (Name_new (c_str (zmq_msg_group up))) (we_subscrTopic (ws_env w)) \<noteq> None)"
    "group_ok up" "length (pt_data up) < 2 ^ 31"
    and dec: "Topic_fromPart (en_mem P) (en_arch P) up = Inr t"
    and w: "ws_reach P w" "we_lastSeqNum (ws_env w) (tp_worker t) < tp_seqn t"
  obtains w' ev where "ws_socketReady P (WDelivery up) w = (Inr (), w')"
    "last (io_sent (we_io (ws_env w'))) = (ChEvents, ev)"
    "\<And>app. Worker_waitForTopic P (Inr ()) [Inr [WakeEvent (Received ev)]] app = Inr (Some (Some t))"
proof -
  have inv: "seqs_inv (ws_env w)" using ws_reach_inv [OF w(1)] by (simp add: worker_inv_def)
  have all: "\<forall>n. en_mem P n \<noteq> None" using P by (simp add: host_ok_def)
  obtain e where e: "we_acceptTopic P up (ws_env w) = (Inr True, e)"
    using we_acceptTopic_spec [OF dec inv host_okD(1,3) [OF P]] w(2) by metis
  obtain ev where ev: "event_part P (we_token e) EvDelivery up = Inr ev"
    using event_part_returns [OF host_okD(1) [OF P] all up(2,3)] by blast
  let ?i = "(we_io e)\<lparr>io_sends := Suc (io_sends (we_io e)), io_sent := io_sent (we_io e) @ [(ChEvents, ev)]\<rparr>"
  have s: "we_sendEvent P EvDelivery up e = (Inr (), e\<lparr>we_io := ?i\<rparr>)"
    using ev P by (simp add: we_sendEvent_def session_sendEvent_def sendMessagePart_def action_defs host_okD Let_def)
  have h: "BrokerUpdt \<noteq> BrokerHugz" by (simp add: session_env str_def)
  have "ws_socketReady P (WDelivery up) w = (Inr (), w\<lparr>ws_env := e\<lparr>we_io := ?i\<rparr>\<rparr>)"
    using up(1) e s h by (auto simp: ws_collectBrokerMessage_def Let_def bindA_def readA_def envA_def)
  moreover have "Worker_waitForTopic P (Inr ()) [Inr [WakeEvent (Received ev)]] app = Inr (Some (Some t))" for app
    using Worker_waitForTopic_one [OF host_okD(1) [OF P] dec host_okD(2) [OF P] up(2) _ ev] up(3) by simp
  ultimately show thesis using that [of "w\<lparr>ws_env := e\<lparr>we_io := ?i\<rparr>\<rparr>" ev] by simp
qed

section \<open>The sending worker\<close>

definition app_topic :: "Worker \<Rightarrow> Name \<Rightarrow> Part \<Rightarrow> Topic_Type \<Rightarrow> Topic" where
  "app_topic a name data ty =
     \<lparr>tp_broker = Uuid_null, tp_worker = rn_uuid a, tp_seqn = 0, tp_name = name, tp_data = data, tp_type = ty\<rparr>"

lemma Worker_dispatch_sends:
  assumes P: "host_ok P" and a: "rn_running a" and d: "group_ok data" and t: "short_topic (app_topic a name data ty)"
  obtains a' tk p tp where "Worker_dispatch P NoMessage name data ty a = (Inr (), a')"
    "new_ops a a' = [(tk, p)]" "operation_parts P (rn_token a) OpDispatch tp = Inr (tk, p)"
    "Topic_toPart (en_mem P) (en_arch P) (app_topic a name data ty) = Inr tp"
proof -
  obtain d' where d': "Part_copy (en_mem P) data = Inr d'" using Part_copy_returns [OF d, of "en_mem P"] host_okD(2) [OF P] by blast
  have same: "pt_data d' = pt_data data" using Part_copy_spec [OF d d'] by simp
  obtain tp where tp: "Topic_toPart (en_mem P) (en_arch P) (app_topic a name data ty) = Inr tp" "pt_group tp = SGroup []"
      "length (pt_data tp) < 2 ^ 31"
    by (rule topic_packs [OF P t])
  have "Topic_toPart (en_mem P) (en_arch P) (app_topic a name d' ty) = Inr tp"
    using tp(1) same by (simp add: Topic_toPart_def app_topic_def Let_def)
  then have new: "bindR (Topic_new (en_mem P) Uuid_null (rn_uuid a) 0 name data ty) (Topic_toPart (en_mem P) (en_arch P)) = Inr tp"
    using d' by (simp add: Topic_new_def app_topic_def)
  have "group_ok tp" using tp(2) by (simp add: group_ok_def zmq_msg_group_def)
  then obtain tk p where o: "operation_parts P (rn_token a) OpDispatch tp = Inr (tk, p)"
    using operation_parts_returns [of P tp "rn_token a" OpDispatch] tp(3) P by (auto simp: host_ok_def)
  have net: "\<forall>k. nt_send (en_net P) k = Sent" using P by (simp add: host_ok_def)
  have "Worker_dispatch P NoMessage name data ty a = (Inr (), rn_sent [tk, p] a)"
    unfolding Worker_dispatch_request [OF new]
    using a o by (simp add: Runner_request_def Runner_isRunning_eq bindA_def Runner_sendOperation_def fatalA_def thenA_def
        retA_def rn_send_Sent [OF net] rn_sent_sent)
  then show thesis using that [of "rn_sent [tk, p] a" tk p tp] o tp(1) by (simp add: new_ops_def)
qed


text \<open>What the session reads of an operation that was sent.\<close>

lemma operation_parts_decode:
  assumes P: "host_ok P" and grp: "group_ok pay" and len: "length (pt_data pay) < 2 ^ 32"
    and o: "operation_parts P tok oper pay = Inr (tk, p)"
  shows "recvOperation P tok tk p = Inr \<lparr>op_type = oper, op_notif = OpSuccess, op_payload = part_norm pay\<rparr>"
proof -
  obtain q where q: "Part_copy (en_mem P) pay = Inr q"
      "Operation_toPart (en_mem P) (en_arch P) \<lparr>op_type = oper, op_notif = OpSuccess, op_payload = q\<rparr> = Inr p"
      "Part_uint (en_mem P) (en_arch P) tok = Inr tk"
    using o by (auto simp: operation_parts_def Operation_new_def split: sum.splits)
  have "pt_data q = pt_data pay" using Part_copy_spec [OF grp q(1)] by simp
  then show ?thesis
    using recvOperation_decode [OF host_okD(1) [OF P] refl _ _ q(2,3), of tok] len host_okD(2) [OF P]
    by (simp add: part_norm_def)
qed

lemma sender_hop:
  assumes P: "host_ok P" and a: "rn_running a" and d: "group_ok data" and t: "short_topic (app_topic a name data ty)"
    and w: "sk_open (we_zdispatch (ws_env w))" "we_token (ws_env w) = rn_token a"
  obtains a' tk p oper w' q up where "Worker_dispatch P NoMessage name data ty a = (Inr (), a')" "new_ops a a' = [(tk, p)]"
    "recvOperation P (rn_token a) tk p = Inr oper" "op_notif oper \<noteq> OpDiscard" "ws_operationReady P oper w = (Inr (), w')"
    "last (io_sent (we_io (ws_env w'))) = (ChDispatch, up)" "zmq_msg_group up = WorkerUpdt" "pt_data up = pt_data q"
    "Topic_toPart (en_mem P) (en_arch P) (withSeqNum (we_seqNum (ws_env w) + 1) (app_topic a name data ty)) = Inr q"
proof -
  let ?t = "app_topic a name data ty" and ?n = "we_seqNum (ws_env w) + 1"
  obtain a' tk p tp where s: "Worker_dispatch P NoMessage name data ty a = (Inr (), a')" "new_ops a a' = [(tk, p)]"
      "operation_parts P (rn_token a) OpDispatch tp = Inr (tk, p)" "Topic_toPart (en_mem P) (en_arch P) ?t = Inr tp"
    by (rule Worker_dispatch_sends [OF P a d t])
  have tp: "pt_group tp = SGroup []" "length (pt_data tp) < 2 ^ 31" "part_norm tp = tp"
    using topic_packs [OF P t] s(4) by auto
  let ?o = "\<lparr>op_type = OpDispatch, op_notif = OpSuccess, op_payload = tp\<rparr>"
  have o: "recvOperation P (rn_token a) tk p = Inr ?o"
    using operation_parts_decode [OF P _ _ s(3)] tp by (simp add: group_ok_def zmq_msg_group_def)
  have ok: "topic_ok ?t" using t by (simp add: short_topic_def)
  have net: "\<forall>k\<ge>io_sends (we_io (ws_env w)). nt_send (en_net P) k = Sent" using P by (simp add: host_ok_def)
  obtain n q r e' where e: "Topic_toPart (en_mem P) (en_arch P) (withSeqNum ?n ?t) = Inr q"
    "withGroup (Some WorkerUpdt) q = Inr r" "we_dispatch P tp (ws_env w) = (Inr (), e')"
    "io_sent (we_io e') = io_sent (we_io (ws_env w)) @ [(ChSeqs, n), (ChDispatch, r)]"
    by (rule we_dispatch_ok [OF host_okD(1) [OF P] ok s(4) w(1) net])
  have qs: "pt_group q = SGroup []" using topic_packs [OF P, of "withSeqNum ?n ?t"] t e(1) by auto
  have u: "length (c_str WorkerUpdt) \<le> 255" "c_str WorkerUpdt = WorkerUpdt" by (simp_all add: session_env str_def c_str_def)
  have r: "zmq_msg_group r = WorkerUpdt" "pt_data r = pt_data q"
    using withGroup_ok [OF qs u(1)] u(2) e(2) by auto
  have "ws_operationReady P ?o w = (Inr (), w\<lparr>ws_env := e'\<rparr>)"
    using e(3) by (simp add: ws_operationReady_def envA_def)
  then show thesis using that [OF s(1,2) o _ _ _ r(1,2) e(1), of "w\<lparr>ws_env := e'\<rparr>"] e(4) by simp
qed


end
