(* ===== verification/Spec2Isabelle.thy ===== *)
theory Spec2Isabelle
  imports Fuurin_Tokenpool Fuurin_Multipart Fuurin_Cancel Fuurin_Deadline Fuurin_Support Fuurin_EndToEnd
begin

text \<open>
  A verification development of fuurin, a library that distributes topics between workers through a
  broker over ZeroMQ sockets. Sources are named relative to the root of the repository.

  \<^bold>\<open>The program.\<close> An application owns a worker or a broker (\<^verbatim>\<open>src/runner.cpp\<close>, \<^verbatim>\<open>src/worker.cpp\<close>,
  \<^verbatim>\<open>src/broker.cpp\<close>). Starting it creates a session, which runs in a thread of its own (\<^verbatim>\<open>src/session.cpp\<close>) and
  takes operations from the application and gives events back, both marked with the token of that
  start. A worker session (\<^verbatim>\<open>src/sessionworker.cpp\<close>) keeps a connection and downloads snapshots by two state
  machines (\<^verbatim>\<open>src/connmachine.cpp\<close>, \<^verbatim>\<open>src/syncmachine.cpp\<close>), numbers what its application dispatches and filters
  what it receives by these numbers. A broker session (\<^verbatim>\<open>src/sessionbroker.cpp\<close>) filters, stores the last
  topics of each name in caches (\<^verbatim>\<open>include/fuurin/lrucache.h\<close>), publishes what it stored and answers snapshot
  requests. What travels are parts (\<^verbatim>\<open>src/zmqpart.cpp\<close>) that hold several fields
  (\<^verbatim>\<open>include/fuurin/zmqpartmulti.h\<close>). Around it are sockets and pollers, timers and cancellations, log
  arguments with counted references, C bindings and a gRPC service.

  \<^bold>\<open>The theories\<close>, in the order of their dependencies:

  \<^item> \<open>Fuurin_Prelude\<close>: words and byte strings, errors (\<open>fault\<close>: a thrown error or the end of the process),
    results, actions on a state that may fail, and two interfaces as locales: \<open>seq_filter\<close>, a filter that
    only lets numbers through that increase, and \<open>action_frame\<close>, actions that stay within a relation.
  \<^item> \<open>Fuurin_Lrucache\<close>: the list with iterators and the map into it. The interface \<open>bounded_map\<close> is what the
    sessions use; the cache refines a bounded association list.
  \<^item> \<open>Fuurin_Part\<close>, \<open>Fuurin_PartMulti\<close>: parts with their integers, groups and routing ids; packing and unpacking
    of fields and of sequences, with the 64-bit arithmetic of the bounds checks. Shown: round trips, that
    arbitrary bytes never make a reader leave its buffer, and when an integer is read back wrongly.
  \<^item> \<open>Fuurin_Messages\<close>: uuids, topics, events, operations and configurations; each codec interprets the locale
    \<open>part_codec\<close>.
  \<^item> \<open>Fuurin_Text\<close>, \<open>Fuurin_Arg\<close>: log arguments on an explicit heap, with copies, moves and assignments of variables
    and array elements; the logger, the printable forms and the cached text of uuids.
  \<^item> \<open>Fuurin_Timer\<close>, \<open>Fuurin_Cancel\<close>: timers with the half that runs in the I/O thread, and cancellations,
    whose timers are heap objects the tasks of that thread refer to.
  \<^item> \<open>Fuurin_Connmachine\<close>, \<open>Fuurin_Syncmachine\<close>: the two machines; the functions of the owner are parameters, so
    the order of the calls and what an exception leaves behind are those of the code. Each handler
    refines a step of an automaton.
  \<^item> \<open>Fuurin_Net\<close>, \<open>Fuurin_Socket\<close>: sockets as the sessions see them, and the full sockets and pollers in a store
    with addresses, which refine that view.
  \<^item> \<open>Fuurin_Poll\<close>: the buffer that a wait of a poller fills, with sizes in bytes, and the iterators over it. The loop over
    the events visits the ready sockets and stays within the buffer; two results of one poller share it.
  \<^item> \<open>Fuurin_Wiring\<close>, \<open>Fuurin_Inproc\<close>: the context and its I/O thread, and the constructors and destructors that create
    sockets in pairs (runner, worker, timer, cancellation), with what an exception undoes. The predicate \<open>wires\<close> says
    what an action does to the sockets when it succeeds and what it leaves alone; \<open>succ\<close> is a triple for actions that
    succeed on a library that keeps endpoints as documented (\<open>inproc_ok\<close>, with the instance \<open>inproc_lib\<close>).
  \<^item> \<open>Fuurin_Deadline\<close>: waiting for an event with a timeout.
  \<^item> \<open>Fuurin_Multipart\<close>: messages of several parts, with the order of evaluation of the templates as a parameter.
  \<^item> \<open>Fuurin_Broker\<close>, \<open>Fuurin_Worker\<close>: the sessions, every handler and callback, with inductive reachability
    and invariants; both interpret \<open>seq_filter\<close>.
  \<^item> \<open>Fuurin_Session\<close>, \<open>Fuurin_Runner\<close>, \<open>Fuurin_Lifecycle\<close>: the loop of the thread, the objects of the application,
    and both together as a transition system with all interleavings; the locale \<open>runner_config\<close> is what a
    kind of runner has to provide.
  \<^item> \<open>Fuurin_Tokenpool\<close>: the pool of tokens.
  \<^item> \<open>Fuurin_Service\<close>, \<open>Fuurin_CBindings\<close>: the gRPC service with its client (\<^verbatim>\<open>grpc\<close>) and the C bindings (\<^verbatim>\<open>src/c\<close>).
  \<^item> \<open>Fuurin_Shutdown\<close>: the life of the gRPC service, its sockets, the loops of its threads, shutdown and destructor.
  \<^item> \<open>Fuurin_Support\<close>: error objects and their logging, formatting, the generation of uuids, the stopwatch, names of states, and
    the calls of the remote client.
  \<^item> \<open>Fuurin_EndToEnd\<close> and this theory: a topic on its way from one application to another.

  \<^bold>\<open>Correspondence.\<close> A class is a record with a prefix of its own (\<open>ws_\<close> for \<^verbatim>\<open>WorkerSession\<close>, \<open>bs_\<close> for
  \<^verbatim>\<open>BrokerSession\<close>, \<open>sm_\<close> and \<open>cm_\<close> for the machines, \<open>rn_\<close> and \<open>wk_\<close> for \<^verbatim>\<open>Runner\<close> and \<^verbatim>\<open>Worker\<close>), an enumeration a
  datatype, a method a function with the name of the method after that prefix or after the name of the
  class. Methods that change their object and may throw are actions: the result and the state they
  leave, also when they throw. Assertions and fatal log messages end the process. Unsigned integers
  are words and wrap.

  \<^bold>\<open>Parameters\<close>, for what is not in the repository. The allocator gives the contents of a fresh buffer or fails;
  \<open>allocator_ok\<close> says that a buffer has the size asked for. \<open>arch\<close> is the platform: byte orders and whether \<^verbatim>\<open>char\<close>
  is signed. The answers of the messaging library are functions of the number of calls made so far
  (\<open>net\<close>, and in \<open>Fuurin_Socket\<close> one answer for each kind of call), or arguments of the call that receives
  (\<open>recv_result\<close>). The codec of the gRPC messages is \<open>proto\<close>, with \<open>proto_ok\<close> for the documented round trip.
  The text of a uuid, the description of error numbers and the printing of floating point numbers are
  functions. The theorems hold for all of these; where they need memory or a network that takes
  everything they say so, and a witness shows a parameter for which it holds.

  \<^bold>\<open>Bounds and loops.\<close> Loops over lists are recursive functions. The releasing of nested arguments terminates
  because blocks become fewer. A call that may block for ever gives \<^term>\<open>None\<close> then. Waiting loops take the list
  of what the waits returned so far. Printing has a depth of nesting, and the number of blocks plus one is
  shown to be enough; stopping a cancellation takes a number of tasks of the I/O thread, and three are
  enough. Retrying a call that was interrupted by a signal is part of the call.

  \<^bold>\<open>Results.\<close> Topics arrive as they were sent (\<open>topic_end_to_end\<close>) and at most once, in increasing order
  (\<open>worker_increasing\<close>, \<open>broker_increasing\<close>); the sessions keep their invariants and their machines never hang; a
  runner has at most one session, which acts on its own operations only; automatic pollers watch exactly
  their open sockets; constructing a worker gives all of its sockets or none, and its destructor waits for exactly those of
  others; the service ends after a shutdown; log arguments never use freed memory, but for one assignment. The properties of
  kind error show where the code does not do what it means to: among them an abort of the broker by an
  empty cache, topics lost by their name, and a wait that fails when two threads use it; further lemmas show integers
  read with the sign of \<^verbatim>\<open>char\<close>, a timer that is used after it was deleted, and destructors that never return.

  \<^bold>\<open>Not modelled.\<close> The messaging, I/O, uuid and gRPC libraries themselves; the main programs and the printing of the remote
  client, which only call them; the file descriptors of the messaging library; getters that return a
  member; the macros of the logger. The models of runners and sessions start from opened sockets: that the
  constructors open them is shown in \<open>Fuurin_Inproc\<close>. The sessions and runners send the parts of a message one
  after the other, which is the blocking \<^verbatim>\<open>send\<close> evaluated from left to right. Data races are outside of the model: the
  threads interleave at the granularity of messages and tasks.
\<close>

section \<open>A topic through the system\<close>

text \<open>C1: From application to application. On hosts with memory that agree on the byte order of the wire and whose messages are taken, what an application dispatches to its running worker is read by the session as its own operation, numbered and sent; the broker, whose last number of that worker is lower, stores it and publishes it in the group of its name and in that of every update; and a session of another worker that has not seen this number hands it to its application, which gets the topic with the name, data, type and worker that were dispatched, the next sequence number and the uuid of the broker.\<close>

theorem topic_end_to_end:
  assumes "host_ok P" and "host_ok B" and "host_ok Q" and "same_wire P B" and "same_wire B Q"
    and "rn_running a" and "group_ok data" and "short_topic (app_topic a name data ty)"
    and "sk_open (we_zdispatch (ws_env w))" and "we_token (ws_env w) = rn_token a"
    and "sk_open (bs_zdispatch s)" and "uuid_ok (bs_uuid s)"
    and "bs_lastSeqNum s (rn_uuid a) < we_seqNum (ws_env w) + 1"
    and "ws_reach Q v" and "we_lastSeqNum (ws_env v) (rn_uuid a) < we_seqNum (ws_env w) + 1"
  shows "\<exists>a' tk p oper w' up s' q1 q2 v' ev.
    Worker_dispatch P NoMessage name data ty a = (Inr (), a') \<and> new_ops a a' = [(tk, p)] \<and>
    recvOperation P (we_token (ws_env w)) tk p = Inr oper \<and> op_notif oper \<noteq> OpDiscard \<and>
    ws_operationReady P oper w = (Inr (), w') \<and> last (io_sent (we_io (ws_env w'))) = (ChDispatch, up) \<and>
    bs_socketReady B (BDelivery up) s = (Inr (), s') \<and>
    io_sent (bs_io s') = io_sent (bs_io s) @ [(ChDispatch, q1), (ChDispatch, q2)] \<and>
    zmq_msg_group q1 = c_str (Name_str name) \<and> zmq_msg_group q2 = BrokerUpdt \<and>
    ws_socketReady Q (WDelivery q2) v = (Inr (), v') \<and> last (io_sent (we_io (ws_env v'))) = (ChEvents, ev) \<and>
    (\<forall>app. Worker_waitForTopic Q (Inr ()) [Inr [WakeEvent (Received ev)]] app =
       Inr (Some (Some \<lparr>tp_broker = bs_uuid s, tp_worker = rn_uuid a, tp_seqn = we_seqNum (ws_env w) + 1, tp_name = name,
         tp_data = zmq_msg_init\<lparr>pt_data := pt_data data\<rparr>, tp_type = ty\<rparr>)))"
proof -
  let ?t = "withSeqNum (we_seqNum (ws_env w) + 1) (app_topic a name data ty)"
  let ?b = "withBroker (bs_uuid s) (topic_norm ?t)"
  obtain a' tk p oper w' q up where
    send: "Worker_dispatch P NoMessage name data ty a = (Inr (), a')" "new_ops a a' = [(tk, p)]"
      "recvOperation P (rn_token a) tk p = Inr oper" "op_notif oper \<noteq> OpDiscard" "ws_operationReady P oper w = (Inr (), w')"
      "last (io_sent (we_io (ws_env w'))) = (ChDispatch, up)" "zmq_msg_group up = WorkerUpdt" "pt_data up = pt_data q"
      "Topic_toPart (en_mem P) (en_arch P) ?t = Inr q"
    by (rule sender_hop [OF assms(1,6-10)])
  have t: "short_topic ?t" "tp_worker ?t = rn_uuid a" using assms(8) by (simp_all add: app_topic_def)
  have read: "Topic_fromPart (en_mem B) (en_arch B) up = Inr (topic_norm ?t)"
    by (rule topic_read [OF assms(1,2,4) t(1) send(9,8)])
  obtain s' pb q1 q2 where
    pub: "bs_socketReady B (BDelivery up) s = (Inr (), s')"
      "io_sent (bs_io s') = io_sent (bs_io s) @ [(ChDispatch, q1), (ChDispatch, q2)]"
      "Topic_toPart (en_mem B) (en_arch B) ?b = Inr pb" "length (pt_data pb) < 2 ^ 31" "pt_data q2 = pt_data pb" "group_ok q2"
      "zmq_msg_group q1 = c_str (Name_str (tp_name (topic_norm ?t)))" "zmq_msg_group q2 = BrokerUpdt"
    by (rule broker_hop [OF assms(2) send(7) read _ assms(11,12)]) (use t assms(13) in simp_all)
  have b: "short_topic ?b" using t(1) assms(12) by simp
  have got: "Topic_fromPart (en_mem Q) (en_arch Q) q2 = Inr (topic_norm ?b)"
    by (rule topic_read [OF assms(2,3,5) b pub(3,5)])
  have u: "c_str (zmq_msg_group q2) = BrokerUpdt" by (simp add: pub(8) session_env str_def c_str_def)
  obtain v' ev where del: "ws_socketReady Q (WDelivery q2) v = (Inr (), v')"
    "last (io_sent (we_io (ws_env v'))) = (ChEvents, ev)"
    "\<And>app. Worker_waitForTopic Q (Inr ()) [Inr [WakeEvent (Received ev)]] app = Inr (Some (Some (topic_norm ?b)))"
    by (rule worker_hop [OF assms(3) disjI1 [OF u] pub(6) _ got assms(14)]) (use t assms(15) pub(4,5) in simp_all)
  have "topic_norm ?b = \<lparr>tp_broker = bs_uuid s, tp_worker = rn_uuid a, tp_seqn = we_seqNum (ws_env w) + 1, tp_name = name,
      tp_data = zmq_msg_init\<lparr>pt_data := pt_data data\<rparr>, tp_type = ty\<rparr>"
    by (simp add: topic_norm_def part_norm_def withBroker_def withSeqNum_def app_topic_def)
  moreover have "tp_name (topic_norm ?t) = name" by (simp add: withSeqNum_def app_topic_def)
  ultimately show ?thesis using send pub del assms(10) by metis
qed

definition sample_sender :: WorkerSession where
  "sample_sender = sample_worker\<lparr>ws_env := sample_worker_env\<lparr>we_zdispatch := Socket_new\<lparr>sk_open := True\<rparr>\<rparr>\<rparr>"

definition sample_publisher :: BrokerSession where
  "sample_publisher = sample_broker\<lparr>bs_zdispatch := Socket_new\<lparr>sk_open := True\<rparr>\<rparr>"

definition running_app :: Worker where
  "running_app = sample_app\<lparr>rn_running := True, rn_token := 1\<rparr>"

definition sample_data :: Part where
  "sample_data = zmq_msg_init\<lparr>pt_data := [7, 8]\<rparr>"

lemma sample_worker_last: "we_lastSeqNum (ws_env sample_worker) u = 0"
  by (simp add: sample_worker_def WorkerSession_new_def SyncMachine_new_def sync_op_defs conn_op_defs action_defs
      ws_conn_funcs_def ws_sync_funcs_def we_connClose_def we_snapClose_def ConnMachine_init_def SyncMachine_init_def
      ASSERT_def INT_MAX_def we_lastSeqNum_def sample_worker_env_def WorkerEnv_init_def)

lemma sample_host: "host_ok sample_env"
  using calloc_ok by (simp add: host_ok_def)

lemma sample_nodes [simp]:
  "rn_running running_app" "rn_token running_app = 1" "rn_uuid running_app = replicate 16 2" "group_ok sample_data"
  "sk_open (we_zdispatch (ws_env sample_sender))" "we_token (ws_env sample_sender) = 1" "we_seqNum (ws_env sample_sender) = 0"
  "sk_open (bs_zdispatch sample_publisher)" "bs_uuid sample_publisher = replicate 16 1" "bs_lastSeqNum sample_publisher u = 0"
  "we_lastSeqNum (ws_env sample_worker) u = 0"
  by (simp_all add: running_app_def sample_app_def Worker_setTopicsNames_def Runner_setEndpoints_def Worker_new_def
      Runner_new_def Runner.defs sample_data_def group_ok_def zmq_msg_group_def zmq_msg_init_def sample_sender_def
      sample_worker_env_def WorkerEnv_init_def sample_publisher_def sample_broker_def BrokerSession_new_def bs_lastSeqNum_def
      sample_worker_last)

lemma sample_short: "short_topic (app_topic running_app (Name_new [116]) sample_data State)"
  by (simp add: short_topic_def topic_ok_def app_topic_def uuid_ok_def Uuid_null_def sample_data_def)

theorem topic_end_to_end_witness:
  "\<exists>s' q1 q2 v' ev up. bs_socketReady sample_env (BDelivery up) sample_publisher = (Inr (), s') \<and>
     last (io_sent (bs_io s')) = (ChDispatch, q2) \<and> ws_socketReady sample_env (WDelivery q2) sample_worker = (Inr (), v') \<and>
     last (io_sent (we_io (ws_env v'))) = (ChEvents, ev) \<and>
     Worker_waitForTopic sample_env (Inr ()) [Inr [WakeEvent (Received ev)]] sample_app =
       Inr (Some (Some \<lparr>tp_broker = replicate 16 1, tp_worker = replicate 16 2, tp_seqn = 1, tp_name = Name_new [116],
         tp_data = zmq_msg_init\<lparr>pt_data := [7, 8]\<rparr>, tp_type = State\<rparr>))"
proof -
  have w: "same_wire sample_env sample_env" by (simp add: same_wire_def)
  have u: "uuid_ok (bs_uuid sample_publisher)" by (simp add: uuid_ok_def)
  have h: "we_token (ws_env sample_sender) = rn_token running_app"
    "bs_lastSeqNum sample_publisher (rn_uuid running_app) < we_seqNum (ws_env sample_sender) + 1"
    "we_lastSeqNum (ws_env sample_worker) (rn_uuid running_app) < we_seqNum (ws_env sample_sender) + 1" by simp_all
  obtain up s' q1 q2 v' ev where r: "bs_socketReady sample_env (BDelivery up) sample_publisher = (Inr (), s')"
    "io_sent (bs_io s') = io_sent (bs_io sample_publisher) @ [(ChDispatch, q1), (ChDispatch, q2)]"
    "ws_socketReady sample_env (WDelivery q2) sample_worker = (Inr (), v')" "last (io_sent (we_io (ws_env v'))) = (ChEvents, ev)"
    "\<forall>app. Worker_waitForTopic sample_env (Inr ()) [Inr [WakeEvent (Received ev)]] app =
       Inr (Some (Some \<lparr>tp_broker = bs_uuid sample_publisher, tp_worker = rn_uuid running_app,
         tp_seqn = we_seqNum (ws_env sample_sender) + 1, tp_name = Name_new [116],
         tp_data = zmq_msg_init\<lparr>pt_data := pt_data sample_data\<rparr>, tp_type = State\<rparr>))"
    using topic_end_to_end [OF sample_host sample_host sample_host w w sample_nodes(1,4) sample_short sample_nodes(5) h(1)
        sample_nodes(8) u h(2) sample_worker_reach h(3)]
    by blast
  have "last (io_sent (bs_io s')) = (ChDispatch, q2)" by (simp add: r(2))
  moreover have "pt_data sample_data = [7, 8]" by (simp add: sample_data_def)
  ultimately show ?thesis using r(1,3,4) r(5) [rule_format, of sample_app] by auto
qed

text \<open>C39: A topic that is named like the keepalives is lost for those who subscribe to it by name. The broker publishes it in the group of its name, and every session handles a message of that group as a keepalive: with the same result as for the keepalive the broker sends, whatever the state of the session and the contents of the topic.\<close>

theorem keepalive_name_lost:
  assumes "host_ok B" and "short_topic t" and "Name_str (tp_name t) = BrokerHugz" and "sk_open (bs_zdispatch s)"
    and "withGroup (Some BrokerHugz) zmq_msg_init = Inr ping"
  shows "\<exists>q1 q2. bs_dispatchTopic B t s = (Inr (), bs_sent [q1, q2] s) \<and>
    (\<forall>v. ws_socketReady Q (WDelivery q1) v = ws_socketReady Q (WDelivery ping) v)"
proof -
  obtain p where p: "Topic_toPart (en_mem B) (en_arch B) t = Inr p" by (rule topic_packs [OF assms(1,2)])
  obtain q1 q2 where q: "bs_dispatchTopic B t s = (Inr (), bs_sent [q1, q2] s)"
    "zmq_msg_group q1 = c_str (Name_str (tp_name t))"
    by (rule bs_dispatchTopic_ok [OF assms(1,4,2) p])
  have h: "c_str BrokerHugz = BrokerHugz" "length (c_str BrokerHugz) \<le> 255" by (simp_all add: session_env str_def c_str_def)
  have "zmq_msg_group ping = BrokerHugz"
    using withGroup_ok [of zmq_msg_init BrokerHugz] h assms(5) by (auto simp: zmq_msg_init_def)
  then have "ws_socketReady Q (WDelivery q1) v = ws_socketReady Q (WDelivery ping) v" for v
    using q(2) h(1) assms(3) by (simp add: ws_collectBrokerMessage_def)
  then show ?thesis using q(1) by blast
qed

theorem keepalive_name_lost_witness:
  "\<exists>q1 q2 ping. bs_dispatchTopic sample_env (sample_topic\<lparr>tp_name := Name_new BrokerHugz\<rparr>) sample_publisher =
       (Inr (), bs_sent [q1, q2] sample_publisher) \<and> withGroup (Some BrokerHugz) zmq_msg_init = Inr ping \<and>
     ws_socketReady sample_env (WDelivery q1) sample_worker = ws_socketReady sample_env (WDelivery ping) sample_worker"
proof -
  let ?t = "sample_topic\<lparr>tp_name := Name_new BrokerHugz\<rparr>"
  have t: "short_topic ?t"
    using sample_topic_ok by (simp add: short_topic_def topic_ok_def) (simp add: sample_topic_def)
  have n: "Name_str (tp_name ?t) = BrokerHugz"
    by (simp add: Name_str_new session_env str_def Name_capacity_def Name_array_def)
  obtain ping where "withGroup (Some BrokerHugz) zmq_msg_init = Inr ping"
    by (rule withGroup_ok [of zmq_msg_init BrokerHugz]) (auto simp: zmq_msg_init_def session_env str_def c_str_def)
  with keepalive_name_lost [OF sample_host t n, of sample_publisher ping sample_env] show ?thesis by auto
qed

end
